(* ===== verification/Prelude.thy ===== *)
theory Prelude
  imports Main "HOL-Library.Word"
begin

section \<open>Shared types and lemmas\<close>

text \<open>
  What every component of the development uses: the Go-level types that the sources share
  (times and durations in nanoseconds, byte slices, errors), the decimal rendering that
  \<^verbatim>\<open>fmt.Sprintf("%d")\<close> produces and that task identifiers are built from, and the generic
  list and map lemmas of the component proofs.
\<close>

named_theorems script_defs \<open>definitions of the Lua scripts\<close>
named_theorems go_defs \<open>definitions of the Go operations\<close>

subsection \<open>Types of the sources\<close>

type_synonym byte = "8 word"
type_synonym bytes = "byte list"

text \<open>
  A \<^verbatim>\<open>time.Duration\<close> is a signed number of nanoseconds; a \<^verbatim>\<open>time.Time\<close> is the number of
  nanoseconds since the Unix epoch.  \<^verbatim>\<open>Unix\<close> is the floor of the seconds and \<^verbatim>\<open>Nanosecond\<close> the
  non-negative rest, as in package \<^verbatim>\<open>time\<close>.
\<close>

type_synonym duration = int
type_synonym time = int

definition Second :: duration where "Second = 1000000000"
definition Millisecond :: duration where "Millisecond = 1000000"
definition Minute :: duration where "Minute = 60 * Second"
definition Hour :: duration where "Hour = 3600 * Second"

definition Unix :: "time \<Rightarrow> int" where "Unix t = t div Second"
definition Nanosecond :: "time \<Rightarrow> int" where "Nanosecond t = t mod Second"

lemmas duration_defs = Second_def Millisecond_def Minute_def Hour_def

lemma Second_pos [simp]: "0 < Second"
  by (simp add: Second_def)

lemma Unix_mono: "t \<le> u \<Longrightarrow> Unix t \<le> Unix u"
  by (simp add: Unix_def Second_def zdiv_mono1)

lemma Unix_Nanosecond: "Unix t * Second + Nanosecond t = t"
  by (simp add: Unix_def Nanosecond_def)

lemma Unix_of_seconds [simp]: "Unix (s * Second) = s"
  by (simp add: Unix_def Second_def)

text \<open>
  Integer division of Go truncates towards zero; \<^verbatim>\<open>Milliseconds()\<close> of a duration is that
  quotient by a million.
\<close>

definition quot :: "int \<Rightarrow> int \<Rightarrow> int" where
  "quot a b = sgn a * sgn b * (\<bar>a\<bar> div \<bar>b\<bar>)"

lemma quot_nonneg: "0 \<le> a \<Longrightarrow> 0 < b \<Longrightarrow> quot a b = a div b"
  by (cases "a = 0") (auto simp: quot_def sgn_if)

lemma quot_nonpos: "a \<le> 0 \<Longrightarrow> 0 < b \<Longrightarrow> quot a b \<le> 0"
  by (auto simp: quot_def sgn_if pos_imp_zdiv_nonneg_iff)

definition Milliseconds :: "duration \<Rightarrow> int" where
  "Milliseconds d = quot d Millisecond"

text \<open>Signed 64-bit wrap-around, for the places where the width of \<^verbatim>\<open>int64\<close> matters.\<close>

definition int64 :: "int \<Rightarrow> int" where
  "int64 x = (x + 2 ^ 63) mod 2 ^ 64 - 2 ^ 63"

lemma int64_id: "- (2 ^ 63) \<le> x \<Longrightarrow> x < 2 ^ 63 \<Longrightarrow> int64 x = x"
  by (simp add: int64_def)

lemma int64_word: "int64 x = sint (word_of_int x :: 64 word)"
  by (simp add: int64_def sint_sbintrunc' signed_take_bit_eq_take_bit_shift take_bit_eq_mod)

subsection \<open>Decimal rendering\<close>

text \<open>\<^verbatim>\<open>fmt.Sprintf("%d")\<close>: the decimal digits of a number, most significant first.\<close>

definition digit :: "nat \<Rightarrow> char" where
  "digit n = char_of (48 + n)"

fun dec_nat :: "nat \<Rightarrow> string" where
  "dec_nat n = (if n < 10 then [digit n] else dec_nat (n div 10) @ [digit (n mod 10)])"

declare dec_nat.simps [simp del]

definition dec_int :: "int \<Rightarrow> string" where
  "dec_int i = (if i < 0 then CHR ''-'' # dec_nat (nat (- i)) else dec_nat (nat i))"

definition undec :: "string \<Rightarrow> nat" where
  "undec s = foldl (\<lambda>a c. 10 * a + (of_char c - 48)) 0 s"

lemma of_char_digit: "n < 10 \<Longrightarrow> (of_char (digit n) :: nat) = 48 + n"
  by (simp add: digit_def of_char_of)

lemma undec_snoc: "undec (s @ [c]) = 10 * undec s + (of_char c - 48)"
  by (simp add: undec_def)

lemma undec_dec_nat [simp]: "undec (dec_nat n) = n"
proof (induction n rule: dec_nat.induct)
  case (1 n)
  show ?case
  proof (cases "n < 10")
    case True
    then show ?thesis
      by (subst dec_nat.simps) (simp add: undec_def of_char_digit)
  next
    case False
    with 1 show ?thesis
      by (subst dec_nat.simps) (simp add: undec_snoc of_char_digit)
  qed
qed

lemma dec_nat_inject [simp]: "dec_nat m = dec_nat n \<longleftrightarrow> m = n"
  by (metis undec_dec_nat)

lemma dec_nat_digits: "c \<in> set (dec_nat n) \<Longrightarrow> \<exists>k<10. c = digit k"
proof (induction n rule: dec_nat.induct)
  case (1 n)
  show ?case
  proof (cases "n < 10")
    case True
    with "1.prems" show ?thesis
      by (subst (asm) dec_nat.simps) auto
  next
    case False
    then have "dec_nat n = dec_nat (n div 10) @ [digit (n mod 10)]"
      by (subst dec_nat.simps) simp
    with "1.prems" have "c \<in> set (dec_nat (n div 10)) \<or> c = digit (n mod 10)"
      by auto
    moreover have "n mod 10 < 10" by simp
    ultimately show ?thesis
      using "1.IH" [OF False] by blast
  qed
qed

lemma digit_range: "k < 10 \<Longrightarrow> (of_char (digit k) :: nat) \<in> {48..<58}"
  by (simp add: of_char_digit)

lemma nondigit_notin_dec_nat:
  "(of_char c :: nat) \<notin> {48..<58} \<Longrightarrow> c \<notin> set (dec_nat n)"
  using dec_nat_digits digit_range by blast

lemma colon_notin_dec_nat [simp]: "CHR '':'' \<notin> set (dec_nat n)"
  by (rule nondigit_notin_dec_nat) simp

lemma minus_notin_dec_nat [simp]: "CHR ''-'' \<notin> set (dec_nat n)"
  by (rule nondigit_notin_dec_nat) simp

lemma dec_nat_nonempty [simp]: "dec_nat n \<noteq> []"
  by (subst dec_nat.simps) simp

lemma dec_int_inject [simp]: "dec_int i = dec_int j \<longleftrightarrow> i = j"
proof -
  have neg: "CHR ''-'' # s \<noteq> dec_nat k" for s k
    by (metis list.set_intros(1) minus_notin_dec_nat)
  show ?thesis
    using neg neg [symmetric] by (auto simp: dec_int_def)
qed

lemma colon_notin_dec_int [simp]: "CHR '':'' \<notin> set (dec_int i)"
  by (simp add: dec_int_def)

subsection \<open>Lists\<close>

lemma append_eq_sep:
  "x \<notin> set as \<Longrightarrow> x \<notin> set bs \<Longrightarrow> as @ x # cs = bs @ x # ds \<longleftrightarrow> as = bs \<and> cs = ds"
  by (auto simp: append_eq_append_conv2 Cons_eq_append_conv append_eq_Cons_conv)

lemma filter_distinct_map: "distinct (map f xs) \<Longrightarrow> distinct (map f (filter P xs))"
  by (induction xs) auto

lemma sorted_le_last: "sorted_wrt (<) xs \<Longrightarrow> x \<in> set xs \<Longrightarrow> x \<le> last xs"
  for x :: "'a :: linorder"
  by (induction xs) (auto intro: less_imp_le)

end
