(* ===== verification/Keys.thy ===== *)
theory Keys
  imports Prelude
begin

section \<open>Key layout (internal/base/prefix.go, internal/base/keys.go)\<close>

text \<open>
  Every Redis key of the system is built here.  The model keeps keys as byte strings, as the
  sources do.  The lemmas show what the rest of the development relies on: the builders are
  injective and pairwise disjoint (by a parser that inverts them), every key of a queue
  carries the same cluster hash tag, and a normalised prefix contains nothing that could move
  that tag or corrupt a scan pattern.
\<close>

subsection \<open>Runes of a Go string\<close>

text \<open>
  Ranging over a Go string decodes UTF-8; an invalid sequence yields \<open>U+FFFD\<close> and consumes one
  byte.
\<close>

definition cont_byte :: "nat \<Rightarrow> bool" where
  "cont_byte b \<longleftrightarrow> 128 \<le> b \<and> b < 192"

definition decode_rune :: "nat list \<Rightarrow> nat \<times> nat" where
  "decode_rune bs =
     (case bs of
        [] \<Rightarrow> (65533, 0)
      | b0 # bs1 \<Rightarrow>
          if b0 < 128 then (b0, 1)
          else if 194 \<le> b0 \<and> b0 < 224 then
            (case bs1 of b1 # _ \<Rightarrow>
               if cont_byte b1 then (64 * (b0 - 192) + (b1 - 128), 2) else (65533, 1)
             | _ \<Rightarrow> (65533, 1))
          else if 224 \<le> b0 \<and> b0 < 240 then
            (case bs1 of b1 # b2 # _ \<Rightarrow>
               if cont_byte b1 \<and> cont_byte b2 \<and> (b0 = 224 \<longrightarrow> 160 \<le> b1) \<and> (b0 = 237 \<longrightarrow> b1 < 160)
               then (4096 * (b0 - 224) + 64 * (b1 - 128) + (b2 - 128), 3) else (65533, 1)
             | _ \<Rightarrow> (65533, 1))
          else if 240 \<le> b0 \<and> b0 < 245 then
            (case bs1 of b1 # b2 # b3 # _ \<Rightarrow>
               if cont_byte b1 \<and> cont_byte b2 \<and> cont_byte b3 \<and> (b0 = 240 \<longrightarrow> 144 \<le> b1) \<and>
                 (b0 = 244 \<longrightarrow> b1 < 144)
               then (262144 * (b0 - 240) + 4096 * (b1 - 128) + 64 * (b2 - 128) + (b3 - 128), 4)
               else (65533, 1)
             | _ \<Rightarrow> (65533, 1))
          else (65533, 1))"

lemma decode_rune_width: "bs \<noteq> [] \<Longrightarrow> 1 \<le> snd (decode_rune bs)"
  by (auto simp: decode_rune_def split: list.split)

function runes :: "nat list \<Rightarrow> nat list" where
  "runes bs = (if bs = [] then []
     else case decode_rune bs of (r, w) \<Rightarrow> r # runes (drop w bs))"
  by pat_completeness auto
termination
proof (relation "measure length")
  fix bs :: "nat list" and r w
  assume "bs \<noteq> []" "(r, w) = decode_rune bs"
  then show "(drop w bs, bs) \<in> measure length"
    using decode_rune_width [of bs] by (cases "decode_rune bs") auto
qed simp

declare runes.simps [simp del]

text \<open>\<^verbatim>\<open>unicode.IsSpace\<close> and \<^verbatim>\<open>unicode.IsControl\<close>.\<close>

definition IsSpace :: "nat \<Rightarrow> bool" where
  "IsSpace r \<longleftrightarrow> r \<in> {9, 10, 11, 12, 13, 32, 133, 160, 5760, 8232, 8233, 8239, 8287, 12288} \<or>
     8192 \<le> r \<and> r \<le> 8202"

definition IsControl :: "nat \<Rightarrow> bool" where
  "IsControl r \<longleftrightarrow> r < 32 \<or> 127 \<le> r \<and> r < 160"

subsection \<open>Prefixes\<close>

definition DefaultPrefix :: string where
  "DefaultPrefix = ''chronos''"

text \<open>The ways \<^verbatim>\<open>NormalizePrefix\<close> panics.\<close>

datatype prefix_panic = PrefixEmpty | PrefixBraces | PrefixGlob | PrefixSpace

definition trim_colons :: "string \<Rightarrow> string" where
  "trim_colons s =
     rev (dropWhile (\<lambda>c. c = CHR '':'') (rev (dropWhile (\<lambda>c. c = CHR '':'') s)))"

fun check_runes :: "nat list \<Rightarrow> prefix_panic option" where
  "check_runes [] = None"
| "check_runes (r # rs) =
     (if r = 123 \<or> r = 125 then Some PrefixBraces
      else if r = 42 \<or> r = 63 \<or> r = 91 \<or> r = 93 then Some PrefixGlob
      else if IsSpace r \<or> IsControl r then Some PrefixSpace
      else check_runes rs)"

definition NormalizePrefix :: "string \<Rightarrow> prefix_panic + string" where
  "NormalizePrefix prefix =
     (let p = trim_colons prefix
      in if p = [] then Inl PrefixEmpty
         else case check_runes (runes (map of_char p)) of
           Some e \<Rightarrow> Inl e
         | None \<Rightarrow> Inr p)"

subsection \<open>Key builders\<close>

record Keys =
  prefix :: string

definition NewKeys :: "string \<Rightarrow> prefix_panic + Keys" where
  "NewKeys p = (case NormalizePrefix p of Inl e \<Rightarrow> Inl e | Inr q \<Rightarrow> Inr \<lparr>prefix = q\<rparr>)"

definition DefaultKeys :: Keys where
  "DefaultKeys = \<lparr>prefix = DefaultPrefix\<rparr>"

definition QueueKeyPrefix :: "Keys \<Rightarrow> string \<Rightarrow> string" where
  "QueueKeyPrefix k qname = prefix k @ '':{'' @ qname @ ''}:''"

definition StreamKey :: "Keys \<Rightarrow> string \<Rightarrow> string" where
  "StreamKey k qname = QueueKeyPrefix k qname @ ''stream''"

definition TaskKey :: "Keys \<Rightarrow> string \<Rightarrow> string \<Rightarrow> string" where
  "TaskKey k qname i = QueueKeyPrefix k qname @ ''t:'' @ i"

definition QueuesKey :: "Keys \<Rightarrow> string" where
  "QueuesKey k = prefix k @ '':queues''"

definition PausedKey :: "Keys \<Rightarrow> string" where
  "PausedKey k = prefix k @ '':paused''"

definition SchedulesKey :: "Keys \<Rightarrow> string" where
  "SchedulesKey k = prefix k @ '':schedules''"

definition TaskKeyPrefix :: "Keys \<Rightarrow> string \<Rightarrow> string" where
  "TaskKeyPrefix k qname = QueueKeyPrefix k qname @ ''t:''"

definition RetryKey :: "Keys \<Rightarrow> string \<Rightarrow> string" where
  "RetryKey k qname = QueueKeyPrefix k qname @ ''retry''"

definition ArchivedKey :: "Keys \<Rightarrow> string \<Rightarrow> string" where
  "ArchivedKey k qname = QueueKeyPrefix k qname @ ''archived''"

definition CompletedKey :: "Keys \<Rightarrow> string \<Rightarrow> string" where
  "CompletedKey k qname = QueueKeyPrefix k qname @ ''completed''"

definition GroupKey :: "Keys \<Rightarrow> string \<Rightarrow> string \<Rightarrow> string" where
  "GroupKey k cbQueue groupID = QueueKeyPrefix k cbQueue @ ''group:'' @ groupID"

definition GroupResultKey :: "Keys \<Rightarrow> string \<Rightarrow> string \<Rightarrow> string" where
  "GroupResultKey k cbQueue groupID = QueueKeyPrefix k cbQueue @ ''groupresult:'' @ groupID"

definition ScheduledKey :: "Keys \<Rightarrow> string \<Rightarrow> string" where
  "ScheduledKey k qname = QueueKeyPrefix k qname @ ''scheduled''"

definition UniqueKey :: "Keys \<Rightarrow> string \<Rightarrow> string \<Rightarrow> string" where
  "UniqueKey k qname suffix = QueueKeyPrefix k qname @ ''unique:'' @ suffix"

definition LeaderKey :: "Keys \<Rightarrow> string" where
  "LeaderKey k = prefix k @ '':leader''"

definition LeaderResignChannel :: "Keys \<Rightarrow> string" where
  "LeaderResignChannel k = prefix k @ '':leader:resign''"

definition PeriodicDedupKey :: "Keys \<Rightarrow> string \<Rightarrow> string \<Rightarrow> string" where
  "PeriodicDedupKey k qname i = QueueKeyPrefix k qname @ ''pdedup:'' @ i"

definition ScheduleLastFiredKey :: "Keys \<Rightarrow> string \<Rightarrow> string" where
  "ScheduleLastFiredKey k scheduleID = prefix k @ '':sched:'' @ scheduleID @ '':last''"

lemmas key_defs =
  StreamKey_def TaskKey_def QueuesKey_def PausedKey_def SchedulesKey_def TaskKeyPrefix_def
  RetryKey_def ArchivedKey_def CompletedKey_def GroupKey_def GroupResultKey_def ScheduledKey_def
  UniqueKey_def LeaderKey_def LeaderResignChannel_def PeriodicDedupKey_def
  ScheduleLastFiredKey_def QueueKeyPrefix_def

lemma TaskKeyPrefix_TaskKey: "TaskKeyPrefix k q @ i = TaskKey k q i"
  by (simp add: TaskKeyPrefix_def TaskKey_def)

subsection \<open>Normalisation of the prefix\<close>

lemma decode_rune_ascii: "b0 < 128 \<Longrightarrow> decode_rune (b0 # bs) = (b0, 1)"
  by (simp add: decode_rune_def)

lemma decode_rune_multibyte:
  "128 \<le> b0 \<Longrightarrow> decode_rune (b0 # bs) = (r, w) \<Longrightarrow> b \<in> set (take w (b0 # bs)) \<Longrightarrow> 128 \<le> b"
  by (auto simp: decode_rune_def cont_byte_def split: list.splits if_splits)

lemma runes_Nil [simp]: "runes [] = []"
  by (simp add: runes.simps)

lemma runes_Cons_ascii [simp]: "b0 < 128 \<Longrightarrow> runes (b0 # bs) = b0 # runes bs"
  by (subst runes.simps) (simp add: decode_rune_ascii)

text \<open>An ASCII byte is always a rune of its own.\<close>

lemma runes_ascii: "b \<in> set bs \<Longrightarrow> b < 128 \<Longrightarrow> b \<in> set (runes bs)"
proof (induction bs rule: runes.induct)
  case (1 bs)
  obtain b0 bs' where bs: "bs = b0 # bs'" using "1.prems" by (cases bs) auto
  obtain r w where d: "decode_rune bs = (r, w)" by (cases "decode_rune bs")
  have unfold: "runes bs = r # runes (drop w bs)"
    using bs d by (subst runes.simps) auto
  show ?case
  proof (cases "b \<in> set (drop w bs)")
    case True
    then show ?thesis using "1.IH" [OF _ d [symmetric]] "1.prems" bs unfold by auto
  next
    case False
    then have t: "b \<in> set (take w bs)"
      using "1.prems"(1) by (metis Un_iff append_take_drop_id set_append)
    have "b0 < 128"
      using decode_rune_multibyte [of b0 bs' r w b] t d "1.prems"(2) bs by fastforce
    then have "r = b0" "w = 1" using d bs decode_rune_ascii by auto
    then show ?thesis using t bs unfold by simp
  qed
qed

lemma check_runes_None:
  "check_runes rs = None \<longleftrightarrow>
    (\<forall>r \<in> set rs. r \<notin> {123, 125, 42, 63, 91, 93} \<and> \<not> IsSpace r \<and> \<not> IsControl r)"
  by (induction rs) auto

lemma dropWhile_fix: "dropWhile P xs = xs \<longleftrightarrow> (xs = [] \<or> \<not> P (hd xs))"
proof (cases xs)
  case (Cons x ys)
  have "length (dropWhile P ys) < length (x # ys)"
    using length_dropWhile_le [of P ys] by simp
  then have "dropWhile P ys \<noteq> x # ys" by (metis less_irrefl)
  with Cons show ?thesis by auto
qed simp

lemma trim_colons_ends:
  assumes "trim_colons s \<noteq> []"
  shows "hd (trim_colons s) \<noteq> CHR '':'' \<and> last (trim_colons s) \<noteq> CHR '':''"
proof -
  let ?c = "\<lambda>c. c = CHR '':''"
  define t where "t = dropWhile ?c s"
  define u where "u = dropWhile ?c (rev t)"
  have s: "trim_colons s = rev u" by (simp add: trim_colons_def t_def u_def)
  have "u \<noteq> []" using assms s by simp
  then have "\<not> ?c (hd u)" using hd_dropWhile [of ?c "rev t"] by (simp add: u_def)
  moreover have "\<not> ?c (last u)"
  proof -
    obtain v where "rev t = v @ u"
      using takeWhile_dropWhile_id [of ?c "rev t"] unfolding u_def by metis
    then have "last u = last (rev t)" using \<open>u \<noteq> []\<close> by simp
    moreover have "t \<noteq> []" using \<open>u \<noteq> []\<close> by (auto simp: u_def)
    then have "\<not> ?c (hd t)" using hd_dropWhile [of ?c s] by (simp add: t_def)
    ultimately show ?thesis by (simp add: last_rev)
  qed
  ultimately show ?thesis using s \<open>u \<noteq> []\<close> by (simp add: hd_rev last_rev)
qed

lemma trim_colons_id:
  "hd s \<noteq> CHR '':'' \<Longrightarrow> last s \<noteq> CHR '':'' \<Longrightarrow> trim_colons s = s"
proof (cases "s = []")
  case False
  assume "hd s \<noteq> CHR '':''" "last s \<noteq> CHR '':''"
  moreover from this False have "dropWhile (\<lambda>c. c = CHR '':'') s = s"
    "dropWhile (\<lambda>c. c = CHR '':'') (rev s) = rev s"
    by (auto simp: dropWhile_fix hd_rev)
  ultimately show ?thesis by (simp add: trim_colons_def)
qed (simp add: trim_colons_def)

text \<open>What the key builders need of a prefix.\<close>

definition keys_ok :: "Keys \<Rightarrow> bool" where
  "keys_ok k \<longleftrightarrow> CHR ''{'' \<notin> set (prefix k) \<and> CHR ''}'' \<notin> set (prefix k)"

text \<open>
  C36: a prefix that \<^verbatim>\<open>NormalizePrefix\<close> accepts is non-empty, neither starts nor ends with a
  colon, contains no brace (the hash tag of a key is the queue's), no glob metacharacter (the
  scan pattern matches only what it should) and no ASCII whitespace or control character, and
  normalising it again changes nothing.
\<close>

theorem NormalizePrefix_sound:
  assumes "NormalizePrefix s = Inr p"
  shows "p \<noteq> [] \<and> hd p \<noteq> CHR '':'' \<and> last p \<noteq> CHR '':'' \<and>
    (\<forall>c \<in> set p. c \<notin> set ''{}*?[]'' \<and> \<not> (of_char c \<le> (32::nat) \<or> of_char c = (127::nat))) \<and>
    NormalizePrefix p = Inr p"
proof -
  have p: "p = trim_colons s" "p \<noteq> []" "check_runes (runes (map of_char p)) = None"
    using assms by (auto simp: NormalizePrefix_def Let_def split: if_splits option.splits)
  have ends: "hd p \<noteq> CHR '':''" "last p \<noteq> CHR '':''"
    using trim_colons_ends p(1,2) by auto
  have ch: "c \<notin> set ''{}*?[]'' \<and> \<not> (of_char c \<le> (32::nat) \<or> of_char c = (127::nat))"
    if c: "c \<in> set p" for c
  proof (cases "(of_char c :: nat) < 128")
    case True
    then have "of_char c \<in> set (runes (map of_char p))"
      using c by (intro runes_ascii) auto
    then have "of_char c \<notin> {123, 125, 42, 63, 91, 93 :: nat} \<and> \<not> IsSpace (of_char c) \<and> \<not> IsControl (of_char c)"
      using p(3) unfolding check_runes_None by blast
    then show ?thesis
      by (auto simp: IsSpace_def IsControl_def)
  qed auto
  have "NormalizePrefix p = Inr p"
    unfolding NormalizePrefix_def trim_colons_id [OF ends] by (simp add: p(2,3))
  with p(2) ends ch show ?thesis by blast
qed

theorem NormalizePrefix_sound_witness:
  "last ''myapp'' \<noteq> CHR '':'' \<and> NormalizePrefix ''myapp'' = Inr ''myapp''"
proof -
  have "NormalizePrefix '':myapp:'' = Inr ''myapp''"
    by (simp add: NormalizePrefix_def trim_colons_def IsSpace_def IsControl_def)
  from NormalizePrefix_sound [OF this] show ?thesis by blast
qed

subsection \<open>Parsing keys back\<close>

text \<open>
  The abstract syntax of the layout, one constructor per key family, and its rendering by the
  builders.  \<open>parse_key\<close> inverts the rendering for every queue name without a closing brace, so
  the families are pairwise disjoint and each builder is injective.
\<close>

datatype rkey =
    KStream string | KTask string string | KRetry string | KArchived string
  | KCompleted string | KScheduled string | KGroup string string | KGroupResult string string
  | KUnique string string | KPeriodicDedup string string
  | KQueues | KPaused | KSchedules | KLeader | KLastFired string

fun render :: "Keys \<Rightarrow> rkey \<Rightarrow> string" where
  "render k (KStream q) = StreamKey k q"
| "render k (KTask q i) = TaskKey k q i"
| "render k (KRetry q) = RetryKey k q"
| "render k (KArchived q) = ArchivedKey k q"
| "render k (KCompleted q) = CompletedKey k q"
| "render k (KScheduled q) = ScheduledKey k q"
| "render k (KGroup q g) = GroupKey k q g"
| "render k (KGroupResult q g) = GroupResultKey k q g"
| "render k (KUnique q s) = UniqueKey k q s"
| "render k (KPeriodicDedup q i) = PeriodicDedupKey k q i"
| "render k KQueues = QueuesKey k"
| "render k KPaused = PausedKey k"
| "render k KSchedules = SchedulesKey k"
| "render k KLeader = LeaderKey k"
| "render k (KLastFired s) = ScheduleLastFiredKey k s"

fun queue_of :: "rkey \<Rightarrow> string option" where
  "queue_of (KStream q) = Some q"
| "queue_of (KTask q i) = Some q"
| "queue_of (KRetry q) = Some q"
| "queue_of (KArchived q) = Some q"
| "queue_of (KCompleted q) = Some q"
| "queue_of (KScheduled q) = Some q"
| "queue_of (KGroup q g) = Some q"
| "queue_of (KGroupResult q g) = Some q"
| "queue_of (KUnique q s) = Some q"
| "queue_of (KPeriodicDedup q i) = Some q"
| "queue_of _ = None"

definition qname_ok :: "string \<Rightarrow> bool" where
  "qname_ok q \<longleftrightarrow> CHR ''}'' \<notin> set q"

definition rkey_ok :: "rkey \<Rightarrow> bool" where
  "rkey_ok s \<longleftrightarrow> (case queue_of s of None \<Rightarrow> True | Some q \<Rightarrow> qname_ok q)"

definition strip :: "string \<Rightarrow> string \<Rightarrow> string option" where
  "strip p s = (if take (length p) s = p then Some (drop (length p) s) else None)"

definition strip_end :: "string \<Rightarrow> string \<Rightarrow> string option" where
  "strip_end p s = map_option rev (strip (rev p) (rev s))"

lemma strip_append [simp]: "strip p (p @ s) = Some s"
  by (simp add: strip_def)

lemma strip_end_append [simp]: "strip_end p (s @ p) = Some s"
  by (simp add: strip_end_def)

definition parse_body :: "string \<Rightarrow> string \<Rightarrow> rkey option" where
  "parse_body q b =
     (if b = ''stream'' then Some (KStream q)
      else if b = ''retry'' then Some (KRetry q)
      else if b = ''archived'' then Some (KArchived q)
      else if b = ''completed'' then Some (KCompleted q)
      else if b = ''scheduled'' then Some (KScheduled q)
      else case strip ''t:'' b of Some i \<Rightarrow> Some (KTask q i) | None \<Rightarrow>
        (case strip ''group:'' b of Some g \<Rightarrow> Some (KGroup q g) | None \<Rightarrow>
        (case strip ''groupresult:'' b of Some g \<Rightarrow> Some (KGroupResult q g) | None \<Rightarrow>
        (case strip ''unique:'' b of Some s \<Rightarrow> Some (KUnique q s) | None \<Rightarrow>
          map_option (KPeriodicDedup q) (strip ''pdedup:'' b)))))"

definition parse_global :: "string \<Rightarrow> rkey option" where
  "parse_global b =
     (if b = ''queues'' then Some KQueues
      else if b = ''paused'' then Some KPaused
      else if b = ''schedules'' then Some KSchedules
      else if b = ''leader'' then Some KLeader
      else case strip ''sched:'' b of None \<Rightarrow> None
        | Some s \<Rightarrow> map_option KLastFired (strip_end '':last'' s))"

definition parse_key :: "Keys \<Rightarrow> string \<Rightarrow> rkey option" where
  "parse_key k s =
     (case strip (prefix k @ '':'') s of
        None \<Rightarrow> None
      | Some r \<Rightarrow>
          (case strip ''{'' r of
             None \<Rightarrow> parse_global r
           | Some r' \<Rightarrow>
               (case strip ''}:'' (dropWhile (\<lambda>c. c \<noteq> CHR ''}'') r') of
                  None \<Rightarrow> None
                | Some b \<Rightarrow> parse_body (takeWhile (\<lambda>c. c \<noteq> CHR ''}'') r') b)))"

lemma parse_queue_key:
  assumes "qname_ok q"
  shows "parse_key k (QueueKeyPrefix k q @ b) = parse_body q b"
proof -
  have "strip (prefix k @ '':'') (QueueKeyPrefix k q @ b) = Some (''{'' @ q @ ''}:'' @ b)"
    using strip_append [of "prefix k @ '':''"] by (simp add: QueueKeyPrefix_def)
  moreover have "takeWhile (\<lambda>c. c \<noteq> CHR ''}'') (q @ ''}:'' @ b) = q"
    "dropWhile (\<lambda>c. c \<noteq> CHR ''}'') (q @ ''}:'' @ b) = ''}:'' @ b"
    using assms by (auto simp: qname_ok_def takeWhile_append dropWhile_append)
  ultimately show ?thesis
    using strip_append [of "''}:''" b] by (simp add: parse_key_def strip_def)
qed

lemma parse_global_key:
  "b \<noteq> [] \<Longrightarrow> hd b \<noteq> CHR ''{'' \<Longrightarrow> parse_key k (prefix k @ '':'' @ b) = parse_global b"
  using strip_append [of "prefix k @ '':''" b]
  by (cases b) (auto simp: parse_key_def strip_def)

lemma parse_globals:
  "parse_key k (QueuesKey k) = Some KQueues"
  "parse_key k (PausedKey k) = Some KPaused"
  "parse_key k (SchedulesKey k) = Some KSchedules"
  "parse_key k (LeaderKey k) = Some KLeader"
  using parse_global_key [of "''queues''" k] parse_global_key [of "''paused''" k]
    parse_global_key [of "''schedules''" k] parse_global_key [of "''leader''" k]
  by (simp_all add: QueuesKey_def PausedKey_def SchedulesKey_def LeaderKey_def parse_global_def)

lemma parse_last_fired: "parse_key k (ScheduleLastFiredKey k s) = Some (KLastFired s)"
proof -
  have "parse_key k (prefix k @ '':'' @ ''sched:'' @ s @ '':last'') =
    parse_global (''sched:'' @ s @ '':last'')"
    by (rule parse_global_key) auto
  also have "\<dots> = map_option KLastFired (strip_end '':last'' (s @ '':last''))"
    by (simp add: parse_global_def strip_def)
  also have "\<dots> = Some (KLastFired s)" by (simp only: strip_end_append option.map)
  finally show ?thesis by (simp add: ScheduleLastFiredKey_def)
qed

lemma parse_queue_families:
  assumes "qname_ok q"
  shows "parse_key k (StreamKey k q) = Some (KStream q)"
    "parse_key k (TaskKey k q i) = Some (KTask q i)"
    "parse_key k (RetryKey k q) = Some (KRetry q)"
    "parse_key k (ArchivedKey k q) = Some (KArchived q)"
    "parse_key k (CompletedKey k q) = Some (KCompleted q)"
    "parse_key k (ScheduledKey k q) = Some (KScheduled q)"
    "parse_key k (GroupKey k q i) = Some (KGroup q i)"
    "parse_key k (GroupResultKey k q i) = Some (KGroupResult q i)"
    "parse_key k (UniqueKey k q i) = Some (KUnique q i)"
    "parse_key k (PeriodicDedupKey k q i) = Some (KPeriodicDedup q i)"
  unfolding StreamKey_def TaskKey_def RetryKey_def ArchivedKey_def CompletedKey_def
    ScheduledKey_def GroupKey_def GroupResultKey_def UniqueKey_def PeriodicDedupKey_def
    parse_queue_key [OF assms]
  by (simp_all add: parse_body_def strip_def)

lemma parse_render: "rkey_ok s \<Longrightarrow> parse_key k (render k s) = Some s"
  by (cases s) (simp_all add: parse_globals parse_last_fired parse_queue_families rkey_ok_def)

lemma render_inject: "rkey_ok a \<Longrightarrow> rkey_ok b \<Longrightarrow> render k a = render k b \<longleftrightarrow> a = b"
  by (metis option.inject parse_render)



text \<open>
  The part of a key that a Redis cluster hashes to a slot: what is between the first opening
  brace and the next closing one, or the whole key when there is no such non-empty part.
\<close>

definition hash_tag :: "string \<Rightarrow> string" where
  "hash_tag key =
     (case dropWhile (\<lambda>c. c \<noteq> CHR ''{'') key of
        [] \<Rightarrow> key
      | _ # r \<Rightarrow>
          if CHR ''}'' \<in> set r then
            (let t = takeWhile (\<lambda>c. c \<noteq> CHR ''}'') r in if t = [] then key else t)
          else key)"

lemma hash_tag_queue_key:
  assumes "keys_ok k" "qname_ok q" "q \<noteq> []"
  shows "hash_tag (QueueKeyPrefix k q @ b) = q"
proof -
  have "dropWhile (\<lambda>c. c \<noteq> CHR ''{'') (QueueKeyPrefix k q @ b) = CHR ''{'' # q @ ''}:'' @ b"
    using assms(1) by (auto simp: QueueKeyPrefix_def keys_ok_def dropWhile_append)
  moreover have "takeWhile (\<lambda>c. c \<noteq> CHR ''}'') (q @ ''}:'' @ b) = q"
    using assms(2) by (auto simp: qname_ok_def takeWhile_append)
  ultimately show ?thesis using assms(3) by (simp add: hash_tag_def)
qed

lemma render_queue_key: "queue_of s = Some q \<Longrightarrow> \<exists>b. render k s = QueueKeyPrefix k q @ b"
  by (cases s) (auto simp: StreamKey_def TaskKey_def RetryKey_def ArchivedKey_def CompletedKey_def
    ScheduledKey_def GroupKey_def GroupResultKey_def UniqueKey_def PeriodicDedupKey_def)



text \<open>
  The empty queue name, which no enqueue option rejects, defeats this: its hash tag is empty,
  so a cluster hashes the whole key and the task body and the stream of the queue have different
  tags, although every script of the queue names both.
\<close>

theorem empty_queue_name_splits_slots:
  assumes "keys_ok k"
  shows "hash_tag (StreamKey k []) = StreamKey k [] \<and> hash_tag (TaskKey k [] i) = TaskKey k [] i \<and>
    StreamKey k [] \<noteq> TaskKey k [] i"
proof -
  have "hash_tag (QueueKeyPrefix k [] @ b) = QueueKeyPrefix k [] @ b" for b
    using assms by (auto simp: hash_tag_def QueueKeyPrefix_def keys_ok_def dropWhile_append)
  then show ?thesis by (simp add: StreamKey_def TaskKey_def)
qed

theorem empty_queue_name_splits_slots_witness:
  "hash_tag (StreamKey DefaultKeys []) = StreamKey DefaultKeys [] \<and>
   hash_tag (TaskKey DefaultKeys [] ''1'') = TaskKey DefaultKeys [] ''1'' \<and>
   StreamKey DefaultKeys [] \<noteq> TaskKey DefaultKeys [] ''1''"
  by (rule empty_queue_name_splits_slots) (simp add: keys_ok_def DefaultKeys_def DefaultPrefix_def)

subsection \<open>Namespaces\<close>

lemma append_rev_eq: "xs @ ys = us @ vs \<longleftrightarrow> rev ys @ rev xs = rev vs @ rev us"
  by (metis rev_append rev_is_rev_conv)

lemma render_global:
  assumes "queue_of s = None" "\<forall>i. s \<noteq> KLastFired i"
  shows "\<exists>g \<in> {'':queues'', '':paused'', '':schedules'', '':leader''}. render k s = prefix k @ g"
  using assms by (cases s) (auto simp: QueuesKey_def PausedKey_def SchedulesKey_def LeaderKey_def)



text \<open>
  The last-fired keys are the exception.  The prefixes \<^verbatim>\<open>a\<close> and \<^verbatim>\<open>a:sched:b\<close> are both accepted,
  and the last-fired key of schedule \<open>s\<close> in the second namespace is the last-fired key of schedule
  \<^verbatim>\<open>b:sched:s\<close> in the first, so the first namespace reads the second one's fire history.
\<close>

theorem last_fired_keys_collide:
  "NewKeys ''a'' = Inr \<lparr>prefix = ''a''\<rparr> \<and>
   NewKeys ''a:sched:b'' = Inr \<lparr>prefix = ''a:sched:b''\<rparr> \<and>
   ScheduleLastFiredKey \<lparr>prefix = ''a:sched:b''\<rparr> s =
     ScheduleLastFiredKey \<lparr>prefix = ''a''\<rparr> (''b:sched:'' @ s)"
  by (simp add: NewKeys_def NormalizePrefix_def trim_colons_def IsSpace_def IsControl_def
      ScheduleLastFiredKey_def)

declare render.simps [simp del]

end
