(* ===== verification/Base64.thy ===== *)
theory Base64
  imports Prelude
begin

section \<open>Standard base64 (encoding/base64)\<close>

text \<open>
  Byte slices travel as base64 text: \<^verbatim>\<open>encoding/json\<close> renders every \<^verbatim>\<open>[]byte\<close> field with
  \<^verbatim>\<open>base64.StdEncoding\<close>, and \<^verbatim>\<open>CompleteGroupMember\<close> stores a member's result in the same encoding
  so that the Lua script can paste it into the callback message.  Encoder and decoder are
  modelled here, with the round trip.
\<close>

definition b64_alphabet :: string where
  "b64_alphabet = ''ABCDEFGHIJKLMNOPQRSTUVWXYZabcdefghijklmnopqrstuvwxyz0123456789+/''"

definition b64_char :: "nat \<Rightarrow> char" where
  "b64_char n = b64_alphabet ! n"

fun index_of :: "char \<Rightarrow> string \<Rightarrow> nat option" where
  "index_of c [] = None"
| "index_of c (x # xs) = (if c = x then Some 0 else map_option Suc (index_of c xs))"

definition b64_val :: "char \<Rightarrow> nat option" where
  "b64_val c = index_of c b64_alphabet"

fun b64_encode :: "bytes \<Rightarrow> string" where
  "b64_encode [] = []"
| "b64_encode [a] =
     [b64_char (unat a div 4), b64_char (unat a mod 4 * 16), CHR ''='', CHR ''='']"
| "b64_encode [a, b] =
     [b64_char (unat a div 4), b64_char (unat a mod 4 * 16 + unat b div 16),
      b64_char (unat b mod 16 * 4), CHR ''='']"
| "b64_encode (a # b # c # bs) =
     b64_char (unat a div 4) # b64_char (unat a mod 4 * 16 + unat b div 16) #
     b64_char (unat b mod 16 * 4 + unat c div 64) # b64_char (unat c mod 64) # b64_encode bs"

text \<open>The decoder skips line breaks and accepts padding only at the end.\<close>

fun b64_quanta :: "string \<Rightarrow> bytes option" where
  "b64_quanta [] = Some []"
| "b64_quanta (w # x # y # z # r) =
     (case (b64_val w, b64_val x) of
        (Some i, Some j) \<Rightarrow>
          if y = CHR ''='' then
            (if z = CHR ''='' \<and> r = [] then Some [of_nat (i * 4 + j div 16)] else None)
          else (case b64_val y of
            None \<Rightarrow> None
          | Some k \<Rightarrow>
              if z = CHR ''='' then
                (if r = [] then Some [of_nat (i * 4 + j div 16), of_nat (j mod 16 * 16 + k div 4)]
                 else None)
              else (case b64_val z of
                None \<Rightarrow> None
              | Some l \<Rightarrow>
                  map_option (\<lambda>bs. of_nat (i * 4 + j div 16) # of_nat (j mod 16 * 16 + k div 4) #
                    of_nat (k mod 4 * 64 + l) # bs) (b64_quanta r)))
      | _ \<Rightarrow> None)"
| "b64_quanta _ = None"

definition b64_decode :: "string \<Rightarrow> bytes option" where
  "b64_decode s = b64_quanta (filter (\<lambda>c. c \<noteq> CHR 0x0A \<and> c \<noteq> CHR 0x0D) s)"

subsection \<open>Round trip\<close>

lemma length_b64_alphabet: "length b64_alphabet = 64"
  by (simp add: b64_alphabet_def)

lemma index_of_nth: "distinct xs \<Longrightarrow> n < length xs \<Longrightarrow> index_of (xs ! n) xs = Some n"
proof (induction xs arbitrary: n)
  case (Cons x xs)
  then show ?case by (cases n) auto
qed simp

lemma distinct_b64_alphabet: "distinct b64_alphabet"
  by (simp add: b64_alphabet_def)

lemma b64_val_char [simp]: "n < 64 \<Longrightarrow> b64_val (b64_char n) = Some n"
  by (simp add: b64_val_def b64_char_def index_of_nth distinct_b64_alphabet length_b64_alphabet)

lemma b64_char_in: "n < 64 \<Longrightarrow> b64_char n \<in> set b64_alphabet"
  by (simp add: b64_char_def length_b64_alphabet)

lemma b64_char_plain [simp]:
  "n < 64 \<Longrightarrow> b64_char n \<noteq> CHR ''='' \<and> b64_char n \<noteq> CHR 0x0A \<and> b64_char n \<noteq> CHR 0x0D"
  using b64_char_in [of n] by (auto simp: b64_alphabet_def)

lemma unat_byte [simp]: "unat (a :: byte) < 256"
  using unsigned_less [of a] by simp

lemma div_mod_pack:
  "x < m \<Longrightarrow> (y * m + x) div m = y" "x < m \<Longrightarrow> (y * m + x) mod m = x" for x y m :: nat
  by auto

lemma b64_index_arith:
  fixes a b c :: nat
  assumes "a < 256" "b < 256" "c < 256"
  shows "a div 4 < 64" "a mod 4 * 16 < 64" "a mod 4 * 16 + b div 16 < 64"
    "b mod 16 * 4 < 64" "b mod 16 * 4 + c div 64 < 64" "c mod 64 < 64"
proof -
  have d: "a div 4 < 64" "b div 16 < 16" "c div 64 < 4"
    using assms by (simp_all add: div_less_iff_less_mult)
  have m: "a mod 4 < 4" "b mod 16 < 16" "c mod 64 < 64" by simp_all
  show "a div 4 < 64" "a mod 4 * 16 < 64" "a mod 4 * 16 + b div 16 < 64"
    "b mod 16 * 4 < 64" "b mod 16 * 4 + c div 64 < 64" "c mod 64 < 64"
    using d m by linarith+
qed

lemma b64_byte_arith:
  fixes a b c :: nat
  assumes "a < 256" "b < 256" "c < 256"
  shows "a div 4 * 4 + (a mod 4 * 16 + b div 16) div 16 = a"
    "a div 4 * 4 + (a mod 4 * 16) div 16 = a"
    "(a mod 4 * 16 + b div 16) mod 16 * 16 + (b mod 16 * 4 + c div 64) div 4 = b"
    "(a mod 4 * 16 + b div 16) mod 16 * 16 + (b mod 16 * 4) div 4 = b"
    "(b mod 16 * 4 + c div 64) mod 4 * 64 + c mod 64 = c"
proof -
  have d: "b div 16 < 16" "c div 64 < 4"
    using assms by (simp_all add: div_less_iff_less_mult)
  show "a div 4 * 4 + (a mod 4 * 16 + b div 16) div 16 = a"
    "(a mod 4 * 16 + b div 16) mod 16 * 16 + (b mod 16 * 4 + c div 64) div 4 = b"
    "(a mod 4 * 16 + b div 16) mod 16 * 16 + (b mod 16 * 4) div 4 = b"
    "(b mod 16 * 4 + c div 64) mod 4 * 64 + c mod 64 = c"
    by (simp_all only: div_mod_pack(1) [OF d(1)] div_mod_pack(1) [OF d(2)] div_mod_pack(2) [OF d(1)]
        div_mod_pack(2) [OF d(2)] nonzero_mult_div_cancel_right zero_neq_numeral [symmetric]
        not_False_eq_True div_mult_mod_eq)
  show "a div 4 * 4 + (a mod 4 * 16) div 16 = a" by simp
qed

lemmas b64_indices [simp] = b64_index_arith [OF unat_byte unat_byte unat_byte]
lemmas b64_bytes = b64_byte_arith [OF unat_byte unat_byte unat_byte]

lemma unat_of_byte: "of_nat (unat a) = (a :: byte)"
  by simp

lemma b64_quanta_encode: "b64_quanta (b64_encode bs) = Some bs"
  by (induction bs rule: b64_encode.induct)
    (simp_all only: b64_encode.simps b64_quanta.simps b64_val_char b64_indices b64_char_plain
      b64_bytes prod.case option.case option.map if_True if_False simp_thms unat_of_byte)

lemma b64_encode_plain: "filter (\<lambda>c. c \<noteq> CHR 0x0A \<and> c \<noteq> CHR 0x0D) (b64_encode bs) = b64_encode bs"
  by (induction bs rule: b64_encode.induct) simp_all

lemma b64_decode_encode [simp]: "b64_decode (b64_encode bs) = Some bs"
  by (simp only: b64_decode_def b64_encode_plain b64_quanta_encode)

lemma b64_encode_Nil_iff [simp]: "b64_encode bs = [] \<longleftrightarrow> bs = []"
  by (induction bs rule: b64_encode.induct) simp_all

lemma b64_decode_Nil [simp]: "b64_decode [] = Some []"
  by (simp add: b64_decode_def)

end
