(* ===== verification/Task.thy ===== *)
theory Task
  imports Keys Base64 "HOL-Library.Monad_Syntax"
begin

section \<open>Task messages (internal/base/task.go)\<close>

text \<open>
  The message that is stored in a task's HASH, with its JSON encoding.  A JSON document is kept
  as a tree whose objects are finite maps (field order and white space carry no meaning); the
  tree is what \<^verbatim>\<open>json.Marshal\<close> writes for the struct tags of the source, with \<^verbatim>\<open>omitempty\<close>, base64
  for byte slices and the replacement of invalid UTF-8.  A nil and an empty slice are the same
  value of the model: no operation of the source tells them apart.
\<close>

subsection \<open>States\<close>

type_synonym TaskState = int

definition StatePending :: TaskState where "StatePending = 1"
definition StateActive :: TaskState where "StateActive = 2"
definition StateCompleted :: TaskState where "StateCompleted = 3"
definition StateRetry :: TaskState where "StateRetry = 4"
definition StateArchived :: TaskState where "StateArchived = 5"
definition StateScheduled :: TaskState where "StateScheduled = 6"

lemmas state_defs =
  StatePending_def StateActive_def StateCompleted_def StateRetry_def StateArchived_def
  StateScheduled_def

definition TaskState_String :: "TaskState \<Rightarrow> string" where
  "TaskState_String s =
     (if s = StatePending then ''pending''
      else if s = StateActive then ''active''
      else if s = StateCompleted then ''completed''
      else if s = StateRetry then ''retry''
      else if s = StateArchived then ''archived''
      else if s = StateScheduled then ''scheduled''
      else ''unknown'')"

subsection \<open>Messages\<close>

record GroupMemberLink =
  M_Kind :: string
  M_Payload :: bytes
  M_Queue :: string
  M_MaxRetry :: int
  M_Retention :: int
  M_Delay :: int

record ChainLink =
  L_Kind :: string
  L_Payload :: bytes
  L_Queue :: string
  L_MaxRetry :: int
  L_NoArchive :: bool
  L_Retention :: int
  L_Delay :: int
  L_Group :: "GroupMemberLink list"

record TaskMessage =
  ID :: string
  Kind :: string
  Payload :: bytes
  Queue :: string
  State :: TaskState
  Retried :: int
  MaxRetry :: int
  NoArchive :: bool
  UniqueLock :: string
  LastErr :: string
  Retention :: int
  CompletedAt :: int
  Chain :: "ChainLink list"
  ChainID :: string
  ChainIndex :: int
  GroupID :: string
  GroupQueue :: string
  GroupCallback :: "ChainLink option"
  Result :: bytes
  PrevResult :: bytes
  GroupResults :: "bytes list"
  GroupIndex :: int
  GroupSize :: int
  GroupMemberID :: string
  GroupCallbackChain :: "ChainLink list"

text \<open>The zero value of the struct, from which the sources build their messages.\<close>

definition zeroMessage :: TaskMessage where
  "zeroMessage =
     \<lparr>ID = [], Kind = [], Payload = [], Queue = [], State = 0, Retried = 0, MaxRetry = 0,
      NoArchive = False, UniqueLock = [], LastErr = [], Retention = 0, CompletedAt = 0,
      Chain = [], ChainID = [], ChainIndex = 0, GroupID = [], GroupQueue = [],
      GroupCallback = None, Result = [], PrevResult = [], GroupResults = [], GroupIndex = 0,
      GroupSize = 0, GroupMemberID = [], GroupCallbackChain = []\<rparr>"

subsection \<open>JSON documents\<close>

datatype json =
    JNull
  | JBool bool
  | JNum int
  | JStr string
  | JArr "json list"
  | JObj "string \<Rightarrow> json option"

fun jfield :: "json \<Rightarrow> string \<Rightarrow> json option" where
  "jfield (JObj f) k = f k"
| "jfield _ k = None"

definition obj :: "(string \<times> json option) list \<Rightarrow> json" where
  "obj xs = JObj (\<lambda>k. Option.bind (map_of xs k) (\<lambda>v. v))"

text \<open>
  \<^verbatim>\<open>json.Marshal\<close> replaces every byte that is not part of a valid UTF-8 sequence by \<open>U+FFFD\<close>.
\<close>

function to_valid :: "nat list \<Rightarrow> nat list" where
  "to_valid bs = (if bs = [] then []
     else case decode_rune bs of (r, w) \<Rightarrow>
       (if r = 65533 \<and> w = 1 then [239, 191, 189] else take w bs) @ to_valid (drop w bs))"
  by pat_completeness auto
termination
proof (relation "measure length")
  fix bs :: "nat list" and r w
  assume "bs \<noteq> []" "(r, w) = decode_rune bs"
  then show "(drop w bs, bs) \<in> measure length"
    using decode_rune_width [of bs] by (cases "decode_rune bs") auto
qed simp

declare to_valid.simps [simp del]

definition json_text :: "string \<Rightarrow> string" where
  "json_text s = map char_of (to_valid (map of_char s))"

definition utf8_ok :: "string \<Rightarrow> bool" where
  "utf8_ok s \<longleftrightarrow> json_text s = s"

definition jstr :: "string \<Rightarrow> json option" where
  "jstr s = Some (JStr (json_text s))"

definition jint :: "int \<Rightarrow> json option" where
  "jint n = Some (JNum n)"

definition jbytes :: "bytes \<Rightarrow> json option" where
  "jbytes b = Some (JStr (b64_encode b))"

definition omitempty :: "bool \<Rightarrow> json option \<Rightarrow> json option" where
  "omitempty e v = (if e then None else v)"

definition encode_member :: "GroupMemberLink \<Rightarrow> json" where
  "encode_member m = obj
     [(''kind'', jstr (M_Kind m)), (''payload'', jbytes (M_Payload m)),
      (''queue'', jstr (M_Queue m)), (''max_retry'', jint (M_MaxRetry m)),
      (''retention'', omitempty (M_Retention m = 0) (jint (M_Retention m))),
      (''delay'', omitempty (M_Delay m = 0) (jint (M_Delay m)))]"

definition encode_link :: "ChainLink \<Rightarrow> json" where
  "encode_link l = obj
     [(''kind'', jstr (L_Kind l)), (''payload'', jbytes (L_Payload l)),
      (''queue'', jstr (L_Queue l)), (''max_retry'', jint (L_MaxRetry l)),
      (''no_archive'', omitempty (\<not> L_NoArchive l) (Some (JBool (L_NoArchive l)))),
      (''retention'', omitempty (L_Retention l = 0) (jint (L_Retention l))),
      (''delay'', omitempty (L_Delay l = 0) (jint (L_Delay l))),
      (''group'', omitempty (L_Group l = []) (Some (JArr (map encode_member (L_Group l)))))]"

text \<open>A nil entry of a \<^verbatim>\<open>[][]byte\<close> is \<^verbatim>\<open>null\<close>.\<close>

definition encode_result :: "bytes \<Rightarrow> json" where
  "encode_result b = (if b = [] then JNull else JStr (b64_encode b))"

definition EncodeMessage :: "TaskMessage \<Rightarrow> json" where
  "EncodeMessage m = obj
     [(''id'', jstr (ID m)), (''kind'', jstr (Kind m)), (''payload'', jbytes (Payload m)),
      (''queue'', jstr (Queue m)), (''state'', jint (State m)),
      (''retried'', jint (Retried m)), (''max_retry'', jint (MaxRetry m)),
      (''no_archive'', Some (JBool (NoArchive m))), (''unique_key'', jstr (UniqueLock m)),
      (''last_err'', omitempty (LastErr m = []) (jstr (LastErr m))),
      (''retention'', omitempty (Retention m = 0) (jint (Retention m))),
      (''completed_at'', omitempty (CompletedAt m = 0) (jint (CompletedAt m))),
      (''chain'', omitempty (Chain m = []) (Some (JArr (map encode_link (Chain m))))),
      (''chain_id'', omitempty (ChainID m = []) (jstr (ChainID m))),
      (''chain_index'', omitempty (ChainIndex m = 0) (jint (ChainIndex m))),
      (''group_id'', omitempty (GroupID m = []) (jstr (GroupID m))),
      (''group_queue'', omitempty (GroupQueue m = []) (jstr (GroupQueue m))),
      (''group_callback'', map_option encode_link (GroupCallback m)),
      (''result'', omitempty (Result m = []) (jbytes (Result m))),
      (''prev_result'', omitempty (PrevResult m = []) (jbytes (PrevResult m))),
      (''group_results'',
         omitempty (GroupResults m = []) (Some (JArr (map encode_result (GroupResults m))))),
      (''group_index'', jint (GroupIndex m)),
      (''group_size'', omitempty (GroupSize m = 0) (jint (GroupSize m))),
      (''group_member_id'', omitempty (GroupMemberID m = []) (jstr (GroupMemberID m))),
      (''group_cb_chain'', omitempty (GroupCallbackChain m = [])
         (Some (JArr (map encode_link (GroupCallbackChain m)))))]"

subsection \<open>Decoding\<close>

text \<open>
  \<^verbatim>\<open>json.Unmarshal\<close>: an absent field and \<^verbatim>\<open>null\<close> leave the zero value, a value of the wrong kind or
  an integer outside 64 bits is an error, unknown fields are ignored.
\<close>

fun dstr :: "json option \<Rightarrow> string option" where
  "dstr None = Some []"
| "dstr (Some JNull) = Some []"
| "dstr (Some (JStr s)) = Some s"
| "dstr _ = None"

fun dint :: "json option \<Rightarrow> int option" where
  "dint None = Some 0"
| "dint (Some JNull) = Some 0"
| "dint (Some (JNum n)) = (if - (2 ^ 63) \<le> n \<and> n < 2 ^ 63 then Some n else None)"
| "dint _ = None"

fun dbool :: "json option \<Rightarrow> bool option" where
  "dbool None = Some False"
| "dbool (Some JNull) = Some False"
| "dbool (Some (JBool b)) = Some b"
| "dbool _ = None"

fun dbytes :: "json option \<Rightarrow> bytes option" where
  "dbytes None = Some []"
| "dbytes (Some JNull) = Some []"
| "dbytes (Some (JStr s)) = b64_decode s"
| "dbytes _ = None"

fun dlist :: "(json \<Rightarrow> 'a option) \<Rightarrow> json option \<Rightarrow> 'a list option" where
  "dlist f None = Some []"
| "dlist f (Some JNull) = Some []"
| "dlist f (Some (JArr xs)) = those (map f xs)"
| "dlist f _ = None"

fun is_object :: "json \<Rightarrow> bool" where
  "is_object (JObj f) = True"
| "is_object JNull = True"
| "is_object _ = False"

definition decode_member :: "json \<Rightarrow> GroupMemberLink option" where
  "decode_member j = (if \<not> is_object j then None else do {
     k \<leftarrow> dstr (jfield j ''kind''); p \<leftarrow> dbytes (jfield j ''payload'');
     q \<leftarrow> dstr (jfield j ''queue''); mr \<leftarrow> dint (jfield j ''max_retry'');
     r \<leftarrow> dint (jfield j ''retention''); d \<leftarrow> dint (jfield j ''delay'');
     Some \<lparr>M_Kind = k, M_Payload = p, M_Queue = q, M_MaxRetry = mr, M_Retention = r,
       M_Delay = d\<rparr> })"

definition decode_link :: "json \<Rightarrow> ChainLink option" where
  "decode_link j = (if \<not> is_object j then None else do {
     k \<leftarrow> dstr (jfield j ''kind''); p \<leftarrow> dbytes (jfield j ''payload'');
     q \<leftarrow> dstr (jfield j ''queue''); mr \<leftarrow> dint (jfield j ''max_retry'');
     na \<leftarrow> dbool (jfield j ''no_archive''); r \<leftarrow> dint (jfield j ''retention'');
     d \<leftarrow> dint (jfield j ''delay''); g \<leftarrow> dlist decode_member (jfield j ''group'');
     Some \<lparr>L_Kind = k, L_Payload = p, L_Queue = q, L_MaxRetry = mr, L_NoArchive = na,
       L_Retention = r, L_Delay = d, L_Group = g\<rparr> })"

fun dlink_ptr :: "json option \<Rightarrow> ChainLink option option" where
  "dlink_ptr None = Some None"
| "dlink_ptr (Some JNull) = Some None"
| "dlink_ptr (Some j) = map_option Some (decode_link j)"

definition DecodeMessage :: "json \<Rightarrow> TaskMessage option" where
  "DecodeMessage j = (if \<not> is_object j then None else do {
     i \<leftarrow> dstr (jfield j ''id''); k \<leftarrow> dstr (jfield j ''kind'');
     p \<leftarrow> dbytes (jfield j ''payload''); q \<leftarrow> dstr (jfield j ''queue'');
     st \<leftarrow> dint (jfield j ''state''); re \<leftarrow> dint (jfield j ''retried'');
     mr \<leftarrow> dint (jfield j ''max_retry''); na \<leftarrow> dbool (jfield j ''no_archive'');
     u \<leftarrow> dstr (jfield j ''unique_key''); le \<leftarrow> dstr (jfield j ''last_err'');
     rt \<leftarrow> dint (jfield j ''retention''); ca \<leftarrow> dint (jfield j ''completed_at'');
     c \<leftarrow> dlist decode_link (jfield j ''chain''); ci \<leftarrow> dstr (jfield j ''chain_id'');
     cx \<leftarrow> dint (jfield j ''chain_index''); gi \<leftarrow> dstr (jfield j ''group_id'');
     gq \<leftarrow> dstr (jfield j ''group_queue''); gc \<leftarrow> dlink_ptr (jfield j ''group_callback'');
     rs \<leftarrow> dbytes (jfield j ''result''); pr \<leftarrow> dbytes (jfield j ''prev_result'');
     gr \<leftarrow> dlist (\<lambda>v. dbytes (Some v)) (jfield j ''group_results'');
     gx \<leftarrow> dint (jfield j ''group_index''); gs \<leftarrow> dint (jfield j ''group_size'');
     gm \<leftarrow> dstr (jfield j ''group_member_id'');
     gcc \<leftarrow> dlist decode_link (jfield j ''group_cb_chain'');
     Some \<lparr>ID = i, Kind = k, Payload = p, Queue = q, State = st, Retried = re, MaxRetry = mr,
       NoArchive = na, UniqueLock = u, LastErr = le, Retention = rt, CompletedAt = ca,
       Chain = c, ChainID = ci, ChainIndex = cx, GroupID = gi, GroupQueue = gq,
       GroupCallback = gc, Result = rs, PrevResult = pr, GroupResults = gr, GroupIndex = gx,
       GroupSize = gs, GroupMemberID = gm, GroupCallbackChain = gcc\<rparr> })"

subsection \<open>Valid UTF-8\<close>

text \<open>Strings that the encoding keeps: closed under concatenation, and ASCII texts are among them.\<close>

lemma decode_rune_append:
  assumes "bs \<noteq> []" "decode_rune bs \<noteq> (65533, 1)"
  shows "decode_rune (bs @ cs) = decode_rune bs \<and> snd (decode_rune bs) \<le> length bs"
proof -
  consider b where "bs = [b]" | b c where "bs = [b, c]" | b c e where "bs = [b, c, e]"
    | b c e f r where "bs = b # c # e # f # r"
    using assms(1) by (metis list.exhaust)
  then show ?thesis
  proof cases
    case 1
    then show ?thesis using assms(2) by (simp add: decode_rune_def split: if_split_asm)
  next
    case 2
    then show ?thesis using assms(2) by (simp add: decode_rune_def split: if_split_asm)
  next
    case 3
    then show ?thesis using assms(2) by (simp add: decode_rune_def split: if_split_asm)
  next
    case 4
    then show ?thesis by (simp add: decode_rune_def)
  qed
qed

lemma to_valid_run:
  "bs \<noteq> [] \<Longrightarrow> decode_rune bs = (r, w) \<Longrightarrow> to_valid bs =
     (if r = 65533 \<and> w = 1 then [239, 191, 189] else take w bs) @ to_valid (drop w bs)"
  by (subst to_valid.simps) simp

lemma to_valid_Nil [simp]: "to_valid [] = []"
  by (simp add: to_valid.simps)

lemma to_valid_length: "length bs \<le> length (to_valid bs)"
proof (induction bs rule: to_valid.induct)
  case (1 bs)
  obtain r w where d: "decode_rune bs = (r, w)" by fastforce
  show ?case
  proof (cases "bs = []")
    case False
    have "length (drop w bs) \<le> length (to_valid (drop w bs))" using 1 False d by auto
    moreover have "w = 1 \<or> w \<le> length bs" using decode_rune_append [OF False] d by force
    ultimately show ?thesis using to_valid_run [OF False d] by auto
  qed simp
qed

lemma set_to_valid: "set (to_valid bs) \<subseteq> set bs \<union> {239, 191, 189}"
proof (induction bs rule: to_valid.induct)
  case (1 bs)
  obtain r w where d: "decode_rune bs = (r, w)" by fastforce
  show ?case
  proof (cases "bs = []")
    case False
    have "set (to_valid (drop w bs)) \<subseteq> set bs \<union> {239, 191, 189}"
      using 1 False d set_drop_subset [of w bs] by auto
    then show ?thesis using to_valid_run [OF False d] set_take_subset [of w bs] by auto
  qed simp
qed

lemma to_valid_append: "to_valid bs = bs \<Longrightarrow> to_valid (bs @ cs) = bs @ to_valid cs"
proof (induction bs rule: to_valid.induct)
  case (1 bs)
  obtain r w where d: "decode_rune bs = (r, w)" by fastforce
  show ?case
  proof (cases "bs = []")
    case False
    note run = to_valid_run [OF False d]
    have v: "\<not> (r = 65533 \<and> w = 1)"
    proof
      assume "r = 65533 \<and> w = 1"
      then have "length (to_valid bs) = 3 + length (to_valid (drop 1 bs))" using run by simp
      moreover have "length (to_valid bs) = length bs" using arg_cong [OF "1.prems", of length] .
      moreover have "length bs - 1 \<le> length (to_valid (drop 1 bs))"
        using to_valid_length [of "drop 1 bs"] by (simp only: length_drop)
      ultimately show False by linarith
    qed
    then have "take w bs @ to_valid (drop w bs) = bs" using "1.prems" run by auto
    then have "to_valid (drop w bs) = drop w bs" by (metis append_take_drop_id same_append_eq)
    then have IH: "to_valid (drop w bs @ cs) = drop w bs @ to_valid cs"
      using "1.IH" [OF False] d by auto
    have "decode_rune (bs @ cs) = (r, w)" "w \<le> length bs" using decode_rune_append [OF False] d v by auto
    then show ?thesis using to_valid_run [of "bs @ cs" r w] IH v False by auto
  qed simp
qed

lemma to_valid_ascii: "\<forall>b \<in> set bs. b < 128 \<Longrightarrow> to_valid bs = bs"
proof (induction bs)
  case (Cons b bs)
  then have "decode_rune (b # bs) = (b, 1)" by (simp add: decode_rune_def)
  then show ?case using Cons to_valid_run [of "b # bs" b 1] by auto
qed simp

lemma utf8_ok_bytes: "utf8_ok s \<longleftrightarrow> to_valid (map of_char s) = map of_char s"
proof
  assume "utf8_ok s"
  then have s: "map char_of (to_valid (map of_char s)) = s" by (simp add: utf8_ok_def json_text_def)
  have "b < 256" if "b \<in> set (to_valid (map of_char s))" for b
    using that set_to_valid [of "map of_char s"] by auto
  then have "map (of_char \<circ> char_of) (to_valid (map of_char s)) = to_valid (map of_char s)"
    by (intro map_idI) simp
  with s show "to_valid (map of_char s) = map of_char s" by (metis map_map)
qed (simp add: utf8_ok_def json_text_def comp_def)

lemma utf8_ok_append [simp]: "utf8_ok s \<Longrightarrow> utf8_ok t \<Longrightarrow> utf8_ok (s @ t)"
  by (simp add: utf8_ok_bytes to_valid_append)

lemma utf8_ok_ascii: "\<forall>c \<in> set s. of_char c < (128 :: nat) \<Longrightarrow> utf8_ok s"
  by (auto simp: utf8_ok_bytes intro!: to_valid_ascii)

lemma utf8_ok_Cons [simp]: "of_char c < (128 :: nat) \<Longrightarrow> utf8_ok s \<Longrightarrow> utf8_ok (c # s)"
  using utf8_ok_append [of "[c]" s] utf8_ok_ascii [of "[c]"] by simp

lemma utf8_ok_Nil [simp]: "utf8_ok []"
  by (simp add: utf8_ok_bytes)

lemma utf8_ok_dec [simp]: "utf8_ok (dec_nat n)" "utf8_ok (dec_int i)"
proof -
  show d: "utf8_ok (dec_nat n)" for n
  proof (induction n rule: dec_nat.induct)
    case (1 n)
    then show ?case by (subst dec_nat.simps) (auto simp: of_char_digit)
  qed
  show "utf8_ok (dec_int i)" using d by (simp add: dec_int_def)
qed

subsection \<open>Round trip\<close>

lemma jfield_obj [simp]: "jfield (obj xs) k = Option.bind (map_of xs k) (\<lambda>v. v)"
  by (simp add: obj_def)

lemma is_object_obj [simp]: "is_object (obj xs)"
  by (simp add: obj_def)

definition int64_ok :: "int \<Rightarrow> bool" where
  "int64_ok n \<longleftrightarrow> - (2 ^ 63) \<le> n \<and> n < 2 ^ 63"

lemma decode_fields [simp]:
  "utf8_ok s \<Longrightarrow> dstr (jstr s) = Some s"
  "utf8_ok s \<Longrightarrow> dstr (omitempty (s = []) (jstr s)) = Some s"
  "int64_ok n \<Longrightarrow> dint (jint n) = Some n"
  "int64_ok n \<Longrightarrow> dint (omitempty (n = 0) (jint n)) = Some n"
  "dbool (Some (JBool b)) = Some b"
  "dbool (omitempty (\<not> b) (Some (JBool b))) = Some b"
  "dbytes (jbytes bs) = Some bs"
  "dbytes (omitempty (bs = []) (jbytes bs)) = Some bs"
  "dbytes (Some (encode_result bs)) = Some bs"
  by (simp_all add: jstr_def jint_def jbytes_def omitempty_def utf8_ok_def int64_ok_def
      encode_result_def)

lemma those_map_inverse: "(\<And>x. x \<in> set xs \<Longrightarrow> f (g x) = Some x) \<Longrightarrow> those (map f (map g xs)) = Some xs"
  by (induction xs) auto

lemma dlist_inverse [simp]:
  "(\<And>x. x \<in> set xs \<Longrightarrow> f (g x) = Some x) \<Longrightarrow> dlist f (Some (JArr (map g xs))) = Some xs"
  "(\<And>x. x \<in> set xs \<Longrightarrow> f (g x) = Some x) \<Longrightarrow>
    dlist f (omitempty (xs = []) (Some (JArr (map g xs)))) = Some xs"
  using those_map_inverse [of xs f g] by (simp_all add: omitempty_def)

definition member_ok :: "GroupMemberLink \<Rightarrow> bool" where
  "member_ok m \<longleftrightarrow> utf8_ok (M_Kind m) \<and> utf8_ok (M_Queue m) \<and> int64_ok (M_MaxRetry m) \<and>
     int64_ok (M_Retention m) \<and> int64_ok (M_Delay m)"

definition link_ok :: "ChainLink \<Rightarrow> bool" where
  "link_ok l \<longleftrightarrow> utf8_ok (L_Kind l) \<and> utf8_ok (L_Queue l) \<and> int64_ok (L_MaxRetry l) \<and>
     int64_ok (L_Retention l) \<and> int64_ok (L_Delay l) \<and> list_all member_ok (L_Group l)"

text \<open>
  What the encoding needs of a message: its strings are valid UTF-8 and its integers fit the
  64-bit fields they come from.
\<close>

definition msg_ok :: "TaskMessage \<Rightarrow> bool" where
  "msg_ok m \<longleftrightarrow>
     list_all utf8_ok [ID m, Kind m, Queue m, UniqueLock m, LastErr m, ChainID m, GroupID m,
       GroupQueue m, GroupMemberID m] \<and>
     list_all int64_ok [State m, Retried m, MaxRetry m, Retention m, CompletedAt m, ChainIndex m,
       GroupIndex m, GroupSize m] \<and>
     list_all link_ok (Chain m) \<and> pred_option link_ok (GroupCallback m) \<and>
     list_all link_ok (GroupCallbackChain m)"

lemma decode_encode_member: "member_ok m \<Longrightarrow> decode_member (encode_member m) = Some m"
  by (simp add: decode_member_def encode_member_def member_ok_def)

lemma decode_encode_link: "link_ok l \<Longrightarrow> decode_link (encode_link l) = Some l"
  by (simp add: decode_link_def encode_link_def link_ok_def list_all_iff decode_encode_member)

lemma dlink_ptr_encode: "pred_option link_ok c \<Longrightarrow> dlink_ptr (map_option encode_link c) = Some c"
proof (cases c)
  case (Some l)
  obtain f where f: "encode_link l = JObj f" by (simp add: encode_link_def obj_def)
  assume "pred_option link_ok c"
  then show ?thesis using Some decode_encode_link [of l] by (simp add: f)
qed simp

text \<open>The text of the last error may be anything; bytes that are not UTF-8 are replaced.\<close>

lemma Decode_Encode_wire:
  "msg_ok (m\<lparr>LastErr := []\<rparr>) \<Longrightarrow>
   DecodeMessage (EncodeMessage m) = Some (m\<lparr>LastErr := json_text (LastErr m)\<rparr>)"
proof -
  have e: "json_text [] = []" by (simp add: json_text_def to_valid.simps)
  have "dstr (omitempty (LastErr m = []) (jstr (LastErr m))) = Some (json_text (LastErr m))"
    by (simp add: omitempty_def jstr_def e)
  then show "msg_ok (m\<lparr>LastErr := []\<rparr>) \<Longrightarrow> ?thesis"
    by (simp add: DecodeMessage_def EncodeMessage_def msg_ok_def list_all_iff decode_encode_link
        dlink_ptr_encode)
qed

lemma Decode_EncodeMessage [simp]: "msg_ok m \<Longrightarrow> DecodeMessage (EncodeMessage m) = Some m"
  by (simp add: DecodeMessage_def EncodeMessage_def msg_ok_def list_all_iff decode_encode_link
      dlink_ptr_encode)

end
