(* ===== verification/Redis.thy ===== *)
theory Redis
  imports Complex_Main Task "HOL-Library.Char_ord" "HOL-Library.List_Lexorder"
begin

section \<open>The Redis server, as the sources use it\<close>

text \<open>
  Redis is not part of the repository: the commands are the fields of a record \<open>R\<close> that every
  operation takes as an argument, and \<open>redis_laws R\<close> states the documented behaviour that the
  sources rely on, command by command, for keys that hold the type the command expects.  The
  commands work on a keyspace of typed values with an optional time to live.  \<open>mem_redis\<close> is an
  in-memory server that satisfies the laws; the witnesses run on it.

  Strings stored in Redis are kept as what they encode: plain text, a decimal number or a JSON
  document.  A stream entry identifier is an abstract number, ordered as Redis orders them.
\<close>

subsection \<open>Values\<close>

datatype rstr = Txt string | Num int | Doc json

type_synonym sid = nat
type_synonym score = rat
type_synonym zset = "(score \<times> string) list"

text \<open>
  The pending entries list of a consumer group holds, in identifier order, the delivered and not
  yet acknowledged entries with their consumer and their idle time in milliseconds.
\<close>

record grp =
  last_delivered :: sid
  pel :: "(sid \<times> string \<times> int) list"

record stream =
  entries :: "(sid \<times> string) list"
  last_id :: sid
  groups :: "string \<Rightarrow> grp option"

definition empty_stream :: stream where
  "empty_stream = \<lparr>entries = [], last_id = 0, groups = Map.empty\<rparr>"

datatype rdata =
    RStr rstr
  | RHash "string \<Rightarrow> rstr option"
  | RSet "string set"
  | RZSet zset
  | RStream stream

text \<open>A key is absent or holds a value with the remaining time to live in milliseconds, if any.\<close>

type_synonym entry = "(rdata \<times> int option) option"
type_synonym keyspace = "string \<Rightarrow> entry"

datatype rerr = WrongType | BusyGroup | NoGroup | BadArg

type_synonym 'a cmd = "keyspace \<Rightarrow> (rerr + 'a) \<times> keyspace"

subsection \<open>Reading and writing an entry\<close>

fun is_hash :: "entry \<Rightarrow> bool" where
  "is_hash None = True" | "is_hash (Some (RHash h, t)) = True" | "is_hash _ = False"

fun e_hash :: "entry \<Rightarrow> string \<Rightarrow> rstr option" where
  "e_hash (Some (RHash h, t)) = h" | "e_hash _ = Map.empty"

fun is_zset :: "entry \<Rightarrow> bool" where
  "is_zset None = True" | "is_zset (Some (RZSet z, t)) = True" | "is_zset _ = False"

fun e_zset :: "entry \<Rightarrow> zset" where
  "e_zset (Some (RZSet z, t)) = z" | "e_zset _ = []"

fun is_set :: "entry \<Rightarrow> bool" where
  "is_set None = True" | "is_set (Some (RSet S, t)) = True" | "is_set _ = False"

fun e_set :: "entry \<Rightarrow> string set" where
  "e_set (Some (RSet S, t)) = S" | "e_set _ = {}"

fun is_stream :: "entry \<Rightarrow> bool" where
  "is_stream None = True" | "is_stream (Some (RStream s, t)) = True" | "is_stream _ = False"

fun e_stream :: "entry \<Rightarrow> stream" where
  "e_stream (Some (RStream s, t)) = s" | "e_stream _ = empty_stream"

fun is_str :: "entry \<Rightarrow> bool" where
  "is_str None = True" | "is_str (Some (RStr s, t)) = True" | "is_str _ = False"

fun e_str :: "entry \<Rightarrow> rstr option" where
  "e_str (Some (RStr s, t)) = Some s" | "e_str _ = None"

definition e_ttl :: "entry \<Rightarrow> int option" where
  "e_ttl e = (case e of Some (v, t) \<Rightarrow> t | None \<Rightarrow> None)"

text \<open>
  Writing keeps the time to live; a hash, set or sorted set that becomes empty disappears, a
  stream does not.
\<close>

definition mk_hash :: "entry \<Rightarrow> (string \<Rightarrow> rstr option) \<Rightarrow> entry" where
  "mk_hash e h = (if h = Map.empty then None else Some (RHash h, e_ttl e))"

definition mk_zset :: "entry \<Rightarrow> zset \<Rightarrow> entry" where
  "mk_zset e z = (if z = [] then None else Some (RZSet z, e_ttl e))"

definition mk_set :: "entry \<Rightarrow> string set \<Rightarrow> entry" where
  "mk_set e S = (if S = {} then None else Some (RSet S, e_ttl e))"

definition mk_stream :: "entry \<Rightarrow> stream \<Rightarrow> entry" where
  "mk_stream e s = Some (RStream s, e_ttl e)"

definition mk_ttl :: "entry \<Rightarrow> int \<Rightarrow> entry" where
  "mk_ttl e ms = (case e of None \<Rightarrow> None | Some (v, t) \<Rightarrow> if 0 < ms then Some (v, Some ms) else None)"

lemma mk_simps [simp]:
  "is_hash (mk_hash e h)" "e_hash (mk_hash e h) = h" "mk_hash e h = None \<longleftrightarrow> h = Map.empty"
  "is_zset (mk_zset e z)" "e_zset (mk_zset e z) = z" "mk_zset e z = None \<longleftrightarrow> z = []"
  "is_set (mk_set e S)" "e_set (mk_set e S) = S" "mk_set e S = None \<longleftrightarrow> S = {}"
  "is_stream (mk_stream e s)" "e_stream (mk_stream e s) = s" "mk_stream e s \<noteq> None"
  by (simp_all add: mk_hash_def mk_zset_def mk_set_def mk_stream_def)

lemma mk_ttl_simps [simp]:
  "0 < ms \<Longrightarrow> is_hash (mk_ttl e ms) = is_hash e" "0 < ms \<Longrightarrow> e_hash (mk_ttl e ms) = e_hash e"
  "0 < ms \<Longrightarrow> is_set (mk_ttl e ms) = is_set e" "0 < ms \<Longrightarrow> e_set (mk_ttl e ms) = e_set e"
  "0 < ms \<Longrightarrow> is_str (mk_ttl e ms) = is_str e" "0 < ms \<Longrightarrow> e_str (mk_ttl e ms) = e_str e"
  "0 < ms \<Longrightarrow> mk_ttl e ms = None \<longleftrightarrow> e = None"
  "0 < ms \<Longrightarrow> e_ttl (mk_ttl e ms) = (if e = None then None else Some ms)"
  by (cases e rule: is_hash.cases; simp add: mk_ttl_def e_ttl_def)+

lemma e_ttl_mk [simp]:
  "e_ttl (mk_hash e h) = (if h = Map.empty then None else e_ttl e)"
  "e_ttl (mk_zset e z) = (if z = [] then None else e_ttl e)"
  "e_ttl (mk_set e S) = (if S = {} then None else e_ttl e)"
  "e_ttl (mk_stream e s) = e_ttl e"
  "e_ttl (Some (v, t)) = t" "e_ttl None = None"
  by (simp_all add: mk_hash_def mk_zset_def mk_set_def mk_stream_def e_ttl_def)

subsection \<open>Sorted sets\<close>

text \<open>Members in the order of Redis: by score, then by member.\<close>

fun z_insert :: "score \<Rightarrow> string \<Rightarrow> zset \<Rightarrow> zset" where
  "z_insert x m [] = [(x, m)]"
| "z_insert x m ((y, n) # z) =
     (if x < y \<or> x = y \<and> m \<le> n then (x, m) # (y, n) # z else (y, n) # z_insert x m z)"

definition z_rem :: "string \<Rightarrow> zset \<Rightarrow> zset" where
  "z_rem m z = filter (\<lambda>(x, n). n \<noteq> m) z"

definition z_add :: "score \<Rightarrow> string \<Rightarrow> zset \<Rightarrow> zset" where
  "z_add x m z = z_insert x m (z_rem m z)"

definition z_members :: "zset \<Rightarrow> string set" where
  "z_members z = snd ` set z"

definition z_limit :: "int \<Rightarrow> 'a list \<Rightarrow> 'a list" where
  "z_limit n xs = (if n < 0 then xs else take (nat n) xs)"

definition z_upto :: "score \<Rightarrow> int \<Rightarrow> zset \<Rightarrow> string list" where
  "z_upto mx n z = z_limit n (map snd (filter (\<lambda>(x, m). x \<le> mx) z))"

definition z_score :: "string \<Rightarrow> zset \<Rightarrow> score option" where
  "z_score m z = map_option fst (find (\<lambda>(x, n). n = m) z)"

lemma set_z_insert [simp]: "set (z_insert x m z) = insert (x, m) (set z)"
  by (induction z rule: z_insert.induct [of _ x m]) auto

lemma z_insert_Nil [simp]: "z_insert x m z \<noteq> []"
  by (cases "(x, m, z)" rule: z_insert.cases) auto

lemma z_members_simps [simp]:
  "z_members [] = {}" "z_members (p # z) = insert (snd p) (z_members z)"
  "z_members (z_insert x m z) = insert m (z_members z)"
  "z_members (z_rem m z) = z_members z - {m}"
  "z_members (z_add x m z) = insert m (z_members z)"
  by (auto simp: z_members_def z_rem_def z_add_def)

lemma z_add_Nil [simp]: "z_add x m z \<noteq> []"
  by (simp add: z_add_def)

lemma set_z_limit: "set (z_limit n xs) \<subseteq> set xs"
  by (auto simp: z_limit_def dest: in_set_takeD)

lemma z_upto_members: "set (z_upto mx n z) \<subseteq> z_members z"
  using set_z_limit [of n] by (fastforce simp: z_upto_def z_members_def)

subsection \<open>Streams\<close>

definition s_add :: "sid \<Rightarrow> string \<Rightarrow> stream \<Rightarrow> stream" where
  "s_add i v s = s\<lparr>entries := entries s @ [(i, v)], last_id := i\<rparr>"

definition s_group_create :: "string \<Rightarrow> stream \<Rightarrow> stream" where
  "s_group_create g s = s\<lparr>groups := (groups s)(g \<mapsto> \<lparr>last_delivered = 0, pel = []\<rparr>)\<rparr>"

definition s_new :: "grp \<Rightarrow> nat \<Rightarrow> stream \<Rightarrow> (sid \<times> string) list" where
  "s_new G n s = take n (filter (\<lambda>(i, v). last_delivered G < i) (entries s))"

definition s_deliver :: "string \<Rightarrow> string \<Rightarrow> grp \<Rightarrow> (sid \<times> string) list \<Rightarrow> stream \<Rightarrow> stream" where
  "s_deliver g c G new s = s\<lparr>groups := (groups s)(g \<mapsto>
     \<lparr>last_delivered = (if new = [] then last_delivered G else fst (last new)),
      pel = pel G @ map (\<lambda>(i, v). (i, c, 0)) new\<rparr>)\<rparr>"

definition s_map_pel ::
  "string \<Rightarrow> ((sid \<times> string \<times> int) list \<Rightarrow> (sid \<times> string \<times> int) list) \<Rightarrow> stream \<Rightarrow> stream" where
  "s_map_pel g f s = (case groups s g of None \<Rightarrow> s
     | Some G \<Rightarrow> s\<lparr>groups := (groups s)(g \<mapsto> G\<lparr>pel := f (pel G)\<rparr>)\<rparr>)"

definition s_ack :: "string \<Rightarrow> sid list \<Rightarrow> stream \<Rightarrow> stream" where
  "s_ack g is s = s_map_pel g (filter (\<lambda>(i, c, t). i \<notin> set is)) s"

definition s_del :: "sid list \<Rightarrow> stream \<Rightarrow> stream" where
  "s_del is s = s\<lparr>entries := filter (\<lambda>(i, v). i \<notin> set is) (entries s)\<rparr>"

text \<open>
  \<^verbatim>\<open>XCLAIM\<close> resets the idle time of the pending entries it is given; since Redis 7 an entry that
  was deleted from the stream leaves the pending list instead.
\<close>

definition s_claim :: "string \<Rightarrow> string \<Rightarrow> int \<Rightarrow> sid list \<Rightarrow> stream \<Rightarrow> stream" where
  "s_claim g c idle is s = s_map_pel g
     (\<lambda>p. map (\<lambda>(i, o', t). if i \<in> set is \<and> idle \<le> t then (i, c, 0) else (i, o', t))
        (filter (\<lambda>(i, o', t). i \<in> set is \<longrightarrow> i \<in> fst ` set (entries s)) p)) s"

text \<open>
  \<^verbatim>\<open>XAUTOCLAIM\<close> from the start of the pending list: it looks at no more than ten times \<open>count\<close>
  entries, drops those that were deleted from the stream and claims those that are idle for
  long enough, \<open>count\<close> in all.
\<close>

fun s_scan :: "(sid \<times> string) list \<Rightarrow> string \<Rightarrow> int \<Rightarrow> nat \<Rightarrow> nat \<Rightarrow> (sid \<times> string \<times> int) list \<Rightarrow>
    (sid \<times> string) list \<times> (sid \<times> string \<times> int) list" where
  "s_scan es c idle attempts n [] = ([], [])"
| "s_scan es c idle attempts n ((i, o', t) # p) =
     (if attempts = 0 \<or> n = 0 then ([], (i, o', t) # p)
      else case map_of es i of
        None \<Rightarrow> s_scan es c idle (attempts - 1) (n - 1) p
      | Some v \<Rightarrow>
          (if t < idle
           then (case s_scan es c idle (attempts - 1) n p of (cs, q) \<Rightarrow> (cs, (i, o', t) # q))
           else (case s_scan es c idle (attempts - 1) (n - 1) p of
                   (cs, q) \<Rightarrow> ((i, v) # cs, (i, c, 0) # q))))"

lemma stream_simps [simp]:
  "entries (s_add i v s) = entries s @ [(i, v)]" "last_id (s_add i v s) = i"
  "groups (s_add i v s) = groups s"
  "entries (s_group_create g s) = entries s" "last_id (s_group_create g s) = last_id s"
  "entries (s_deliver g c G new s) = entries s" "last_id (s_deliver g c G new s) = last_id s"
  "entries (s_map_pel g f s) = entries s" "last_id (s_map_pel g f s) = last_id s"
  "entries (s_ack g is s) = entries s" "last_id (s_ack g is s) = last_id s"
  "entries (s_claim g c idle is s) = entries s" "last_id (s_claim g c idle is s) = last_id s"
  "entries (s_del is s) = filter (\<lambda>(i, v). i \<notin> set is) (entries s)"
  "last_id (s_del is s) = last_id s" "groups (s_del is s) = groups s"
  by (simp_all add: s_add_def s_group_create_def s_deliver_def s_map_pel_def s_ack_def
      s_claim_def s_del_def split: option.split)

subsection \<open>Commands\<close>

text \<open>
  One field per command that the sources issue, with the options that they use.  A reply that no
  caller looks at is \<open>unit\<close>; \<open>None\<close> is the nil reply.
\<close>

record redis =
  HSET :: "string \<Rightarrow> (string \<times> rstr) list \<Rightarrow> unit cmd"
  HGET :: "string \<Rightarrow> string \<Rightarrow> rstr option cmd"
  HMGET :: "string \<Rightarrow> string list \<Rightarrow> rstr option list cmd"
  HGETALL :: "string \<Rightarrow> (string \<times> rstr) list cmd"
  HDEL :: "string \<Rightarrow> string list \<Rightarrow> unit cmd"
  XADD :: "string \<Rightarrow> string \<Rightarrow> sid cmd"
  XGROUP_CREATE :: "string \<Rightarrow> string \<Rightarrow> unit cmd"
  XREADGROUP :: "string \<Rightarrow> string \<Rightarrow> string \<Rightarrow> nat \<Rightarrow> int option \<Rightarrow> (sid \<times> string) list option cmd"
  XACK :: "string \<Rightarrow> string \<Rightarrow> sid list \<Rightarrow> unit cmd"
  XDEL :: "string \<Rightarrow> sid list \<Rightarrow> unit cmd"
  XCLAIM_JUSTID :: "string \<Rightarrow> string \<Rightarrow> string \<Rightarrow> int \<Rightarrow> sid list \<Rightarrow> unit cmd"
  XAUTOCLAIM :: "string \<Rightarrow> string \<Rightarrow> string \<Rightarrow> int \<Rightarrow> nat \<Rightarrow> (sid \<times> string) list cmd"
  XLEN :: "string \<Rightarrow> int cmd"
  XPENDING :: "string \<Rightarrow> string \<Rightarrow> int cmd"
  ZADD :: "string \<Rightarrow> score \<Rightarrow> string \<Rightarrow> unit cmd"
  ZREM :: "string \<Rightarrow> string \<Rightarrow> int cmd"
  ZRANGEBYSCORE :: "string \<Rightarrow> score \<Rightarrow> int \<Rightarrow> string list cmd"
  ZRANGE :: "string \<Rightarrow> int \<Rightarrow> (score \<times> string) list cmd"
  ZCARD :: "string \<Rightarrow> int cmd"
  ZSCORE :: "string \<Rightarrow> string \<Rightarrow> score option cmd"
  SADD :: "string \<Rightarrow> string list \<Rightarrow> unit cmd"
  SREM :: "string \<Rightarrow> string \<Rightarrow> unit cmd"
  SMEMBERS :: "string \<Rightarrow> string list cmd"
  SCARD :: "string \<Rightarrow> int cmd"
  EXISTS :: "string \<Rightarrow> bool cmd"
  DEL :: "string list \<Rightarrow> unit cmd"
  PEXPIRE :: "string \<Rightarrow> int \<Rightarrow> unit cmd"
  PTTL :: "string \<Rightarrow> int cmd"
  SET_NX_PX :: "string \<Rightarrow> rstr \<Rightarrow> int \<Rightarrow> bool cmd"
  SET_PX :: "string \<Rightarrow> rstr \<Rightarrow> int \<Rightarrow> unit cmd"
  SET :: "string \<Rightarrow> rstr \<Rightarrow> unit cmd"
  GET :: "string \<Rightarrow> rstr option cmd"
  PUBLISH :: "string \<Rightarrow> string \<Rightarrow> unit cmd"
  SCAN :: "string \<Rightarrow> string \<Rightarrow> string list cmd"
  cjson_decode :: "json \<Rightarrow> json"
  cjson_encode :: "json \<Rightarrow> json"

text \<open>\<^verbatim>\<open>EXPIRE\<close> is \<^verbatim>\<open>PEXPIRE\<close> with a time to live in seconds.\<close>

definition EXPIRE :: "redis \<Rightarrow> string \<Rightarrow> int \<Rightarrow> unit cmd" where
  "EXPIRE R k secs = PEXPIRE R k (1000 * secs)"

text \<open>
  Scripts and transactions are sequences of commands; an error of a command ends a script and
  leaves what was written before it.
\<close>

definition call :: "'a cmd \<Rightarrow> ('a \<Rightarrow> 'b cmd) \<Rightarrow> 'b cmd" where
  "call c f d = (case c d of (Inl e, d') \<Rightarrow> (Inl e, d') | (Inr a, d') \<Rightarrow> f a d')"

definition ret :: "'a \<Rightarrow> 'a cmd" where
  "ret a d = (Inr a, d)"

fun foreach :: "'a list \<Rightarrow> ('a \<Rightarrow> unit cmd) \<Rightarrow> unit cmd" where
  "foreach [] f = ret ()"
| "foreach (x # xs) f = call (f x) (\<lambda>_. foreach xs f)"

lemma call_Inr [simp]: "c d = (Inr a, d') \<Longrightarrow> call c f d = f a d'"
  by (simp add: call_def)

lemma ret_apply [simp]: "ret a d = (Inr a, d)"
  by (simp add: ret_def)

definition upd_stream :: "string \<Rightarrow> (stream \<Rightarrow> stream) \<Rightarrow> keyspace \<Rightarrow> keyspace" where
  "upd_stream k f d = (if d k = None then d else d(k := mk_stream (d k) (f (e_stream (d k)))))"

definition e_pttl :: "entry \<Rightarrow> int" where
  "e_pttl e = (case e of None \<Rightarrow> -2 | Some (v, None) \<Rightarrow> -1 | Some (v, Some t) \<Rightarrow> t)"

text \<open>
  cjson prints integers with fourteen significant digits and cannot tell an empty array from an
  empty object; a document without either is not changed by decoding and encoding it.
\<close>

primrec cjson_safe :: "json \<Rightarrow> bool" where
  "cjson_safe JNull = True"
| "cjson_safe (JBool b) = True"
| "cjson_safe (JNum n) = (\<bar>n\<bar> < 10 ^ 14)"
| "cjson_safe (JStr s) = True"
| "cjson_safe (JArr xs) = (xs \<noteq> [] \<and> list_all (\<lambda>b. b) (map cjson_safe xs))"
| "cjson_safe (JObj f) = (\<forall>k. pred_option (\<lambda>b. b) ((map_option cjson_safe \<circ> f) k))"

text \<open>The identifier that \<^verbatim>\<open>XADD\<close> assigns.\<close>

definition new_id :: "redis \<Rightarrow> string \<Rightarrow> string \<Rightarrow> keyspace \<Rightarrow> sid" where
  "new_id R k v d = (case fst (XADD R k v d) of Inr i \<Rightarrow> i | Inl e \<Rightarrow> 0)"

subsection \<open>Documented behaviour\<close>

locale redis_laws =
  fixes R :: redis
  assumes HSET: "is_hash (d k) \<Longrightarrow> fvs \<noteq> [] \<Longrightarrow>
      HSET R k fvs d = (Inr (), d(k := mk_hash (d k) (e_hash (d k) ++ map_of (rev fvs))))"
    and HGET: "is_hash (d k) \<Longrightarrow> HGET R k f d = (Inr (e_hash (d k) f), d)"
    and HMGET: "is_hash (d k) \<Longrightarrow> fs \<noteq> [] \<Longrightarrow> HMGET R k fs d = (Inr (map (e_hash (d k)) fs), d)"
    and HGETALL: "is_hash (d k) \<Longrightarrow> finite (dom (e_hash (d k))) \<Longrightarrow>
      \<exists>fvs. HGETALL R k d = (Inr fvs, d) \<and> distinct (map fst fvs) \<and> map_of fvs = e_hash (d k)"
    and HDEL: "is_hash (d k) \<Longrightarrow> fs \<noteq> [] \<Longrightarrow>
      HDEL R k fs d = (Inr (), d(k := mk_hash (d k) (e_hash (d k) |` (- set fs))))"
    and XADD: "is_stream (d k) \<Longrightarrow> \<exists>i. last_id (e_stream (d k)) < i \<and>
      XADD R k u d = (Inr i, d(k := mk_stream (d k) (s_add i u (e_stream (d k)))))"
    and XGROUP_CREATE: "is_stream (d k) \<Longrightarrow> groups (e_stream (d k)) g = None \<Longrightarrow>
      XGROUP_CREATE R k g d =
        (Inr (), d(k := mk_stream (d k) (s_group_create g (e_stream (d k)))))"
    and XGROUP_CREATE_busy: "is_stream (d k) \<Longrightarrow> groups (e_stream (d k)) g = Some G \<Longrightarrow>
      XGROUP_CREATE R k g d = (Inl BusyGroup, d)"
    and XREADGROUP: "is_stream (d k) \<Longrightarrow> groups (e_stream (d k)) g = Some G \<Longrightarrow> 0 < n \<Longrightarrow>
      pred_option (\<lambda>b. 0 < b) block \<Longrightarrow>
      XREADGROUP R g c k n block d =
        (let new = s_new G n (e_stream (d k))
         in if new = [] then (Inr None, d)
            else (Inr (Some new), d(k := mk_stream (d k) (s_deliver g c G new (e_stream (d k))))))"
    and XREADGROUP_nogroup: "is_stream (d k) \<Longrightarrow> groups (e_stream (d k)) g = None \<Longrightarrow>
      XREADGROUP R g c k n block d = (Inl NoGroup, d)"
    and XACK: "is_stream (d k) \<Longrightarrow> XACK R k g is d = (Inr (), upd_stream k (s_ack g is) d)"
    and XDEL: "is_stream (d k) \<Longrightarrow> XDEL R k is d = (Inr (), upd_stream k (s_del is) d)"
    and XCLAIM_JUSTID: "is_stream (d k) \<Longrightarrow> groups (e_stream (d k)) g = Some G \<Longrightarrow>
      XCLAIM_JUSTID R k g c idle is d =
        (Inr (), d(k := mk_stream (d k) (s_claim g c idle is (e_stream (d k)))))"
    and XCLAIM_JUSTID_nogroup: "is_stream (d k) \<Longrightarrow> groups (e_stream (d k)) g = None \<Longrightarrow>
      XCLAIM_JUSTID R k g c idle is d = (Inl NoGroup, d)"
    and XAUTOCLAIM: "is_stream (d k) \<Longrightarrow> groups (e_stream (d k)) g = Some G \<Longrightarrow> 0 < n \<Longrightarrow>
      XAUTOCLAIM R k g c idle n d =
        (case s_scan (entries (e_stream (d k))) c idle (10 * n) n (pel G) of
           (cs, p) \<Rightarrow> (Inr cs, d(k := mk_stream (d k) (s_map_pel g (\<lambda>_. p) (e_stream (d k))))))"
    and XAUTOCLAIM_nogroup: "is_stream (d k) \<Longrightarrow> groups (e_stream (d k)) g = None \<Longrightarrow>
      XAUTOCLAIM R k g c idle n d = (Inl NoGroup, d)"
    and XLEN: "is_stream (d k) \<Longrightarrow> XLEN R k d = (Inr (int (length (entries (e_stream (d k))))), d)"
    and XPENDING: "is_stream (d k) \<Longrightarrow> groups (e_stream (d k)) g = Some G \<Longrightarrow>
      XPENDING R k g d = (Inr (int (length (pel G))), d)"
    and XPENDING_nogroup: "is_stream (d k) \<Longrightarrow> groups (e_stream (d k)) g = None \<Longrightarrow>
      XPENDING R k g d = (Inl NoGroup, d)"
    and ZADD: "is_zset (d k) \<Longrightarrow>
      ZADD R k x m d = (Inr (), d(k := mk_zset (d k) (z_add x m (e_zset (d k)))))"
    and ZREM: "is_zset (d k) \<Longrightarrow> ZREM R k m d =
      (Inr (if m \<in> z_members (e_zset (d k)) then 1 else 0),
       d(k := mk_zset (d k) (z_rem m (e_zset (d k)))))"
    and ZRANGEBYSCORE: "is_zset (d k) \<Longrightarrow>
      ZRANGEBYSCORE R k mx cnt d = (Inr (z_upto mx cnt (e_zset (d k))), d)"
    and ZRANGE: "is_zset (d k) \<Longrightarrow> 0 \<le> stop \<Longrightarrow>
      ZRANGE R k stop d = (Inr (take (nat stop + 1) (e_zset (d k))), d)"
    and ZCARD: "is_zset (d k) \<Longrightarrow> ZCARD R k d = (Inr (int (length (e_zset (d k)))), d)"
    and ZSCORE: "is_zset (d k) \<Longrightarrow> ZSCORE R k m d = (Inr (z_score m (e_zset (d k))), d)"
    and SADD: "is_set (d k) \<Longrightarrow> us \<noteq> [] \<Longrightarrow>
      SADD R k us d = (Inr (), d(k := mk_set (d k) (e_set (d k) \<union> set us)))"
    and SREM: "is_set (d k) \<Longrightarrow> SREM R k m d = (Inr (), d(k := mk_set (d k) (e_set (d k) - {m})))"
    and SMEMBERS: "is_set (d k) \<Longrightarrow> finite (e_set (d k)) \<Longrightarrow>
      \<exists>us. SMEMBERS R k d = (Inr us, d) \<and> distinct us \<and> set us = e_set (d k)"
    and SCARD: "is_set (d k) \<Longrightarrow> SCARD R k d = (Inr (int (card (e_set (d k)))), d)"
    and EXISTS: "EXISTS R k d = (Inr (d k \<noteq> None), d)"
    and DEL: "DEL R ks d = (Inr (), fold (\<lambda>k d. d(k := None)) ks d)"
    and PEXPIRE: "PEXPIRE R k ms d = (Inr (), d(k := mk_ttl (d k) ms))"
    and PTTL: "PTTL R k d = (Inr (e_pttl (d k)), d)"
    and SET_NX_PX: "0 < ms \<Longrightarrow> SET_NX_PX R k v ms d =
      (if d k = None then (Inr True, d(k := Some (RStr v, Some ms))) else (Inr False, d))"
    and SET_PX: "0 < ms \<Longrightarrow> SET_PX R k v ms d = (Inr (), d(k := Some (RStr v, Some ms)))"
    and SET: "SET R k v d = (Inr (), d(k := Some (RStr v, None)))"
    and GET: "is_str (d k) \<Longrightarrow> GET R k d = (Inr (e_str (d k)), d)"
    and PUBLISH: "PUBLISH R ch m d = (Inr (), d)"
    and SCAN: "finite (dom d) \<Longrightarrow> \<exists>ks. SCAN R p s d = (Inr ks, d) \<and>
      set ks = {k \<in> dom d. \<exists>m. k = p @ m @ s}"
    and SCAN_only: "snd (SCAN R p s d) = d \<and>
      (\<forall>ks. fst (SCAN R p s d) = Inr ks \<longrightarrow> set ks \<subseteq> {k. \<exists>m. k = p @ m @ s})"
    and cjson_decode: "cjson_safe j \<Longrightarrow> cjson_decode R j = j"
    and cjson_encode: "cjson_safe j \<Longrightarrow> cjson_encode R j = j"
begin

lemma EXPIRE: "EXPIRE R k secs d = (Inr (), d(k := mk_ttl (d k) (1000 * secs)))"
  by (simp add: EXPIRE_def PEXPIRE)

lemma XADD_new:
  assumes "is_stream (d k)"
  shows "XADD R k v d =
      (Inr (new_id R k v d), d(k := mk_stream (d k) (s_add (new_id R k v d) v (e_stream (d k)))))"
    and "last_id (e_stream (d k)) < new_id R k v d"
  using XADD [of d k v] assms by (auto simp: new_id_def)

lemmas commands =
  HSET HGET HMGET HDEL XADD_new(1) XGROUP_CREATE XGROUP_CREATE_busy XREADGROUP XREADGROUP_nogroup
  XACK XDEL XCLAIM_JUSTID XCLAIM_JUSTID_nogroup XAUTOCLAIM XAUTOCLAIM_nogroup XLEN XPENDING
  XPENDING_nogroup ZADD ZREM ZRANGEBYSCORE ZRANGE ZCARD ZSCORE SADD SREM SCARD EXISTS DEL PEXPIRE
  EXPIRE PTTL SET_NX_PX SET_PX SET GET PUBLISH cjson_decode cjson_encode

end

subsection \<open>An in-memory server\<close>

definition typed :: "bool \<Rightarrow> (rerr + 'a) \<times> keyspace \<Rightarrow> keyspace \<Rightarrow> (rerr + 'a) \<times> keyspace" where
  "typed ok r d = (if ok then r else (Inl WrongType, d))"

definition on_group ::
  "string \<Rightarrow> string \<Rightarrow> (grp \<Rightarrow> stream \<Rightarrow> (rerr + 'a) \<times> keyspace) \<Rightarrow> 'a cmd" where
  "on_group k g f d = typed (is_stream (d k))
     (case groups (e_stream (d k)) g of None \<Rightarrow> (Inl NoGroup, d) | Some G \<Rightarrow> f G (e_stream (d k))) d"

definition mem_redis :: redis where
  "mem_redis = \<lparr>
     HSET = (\<lambda>k fvs d. typed (is_hash (d k))
       (Inr (), d(k := mk_hash (d k) (e_hash (d k) ++ map_of (rev fvs)))) d),
     HGET = (\<lambda>k f d. typed (is_hash (d k)) (Inr (e_hash (d k) f), d) d),
     HMGET = (\<lambda>k fs d. typed (is_hash (d k)) (Inr (map (e_hash (d k)) fs), d) d),
     HGETALL = (\<lambda>k d. typed (is_hash (d k))
       (Inr (map (\<lambda>f. (f, the (e_hash (d k) f))) (sorted_list_of_set (dom (e_hash (d k))))), d) d),
     HDEL = (\<lambda>k fs d. typed (is_hash (d k))
       (Inr (), d(k := mk_hash (d k) (e_hash (d k) |` (- set fs)))) d),
     XADD = (\<lambda>k v d. typed (is_stream (d k))
       (Inr (Suc (last_id (e_stream (d k)))),
        d(k := mk_stream (d k) (s_add (Suc (last_id (e_stream (d k)))) v (e_stream (d k))))) d),
     XGROUP_CREATE = (\<lambda>k g d. typed (is_stream (d k))
       (if groups (e_stream (d k)) g = None
        then (Inr (), d(k := mk_stream (d k) (s_group_create g (e_stream (d k)))))
        else (Inl BusyGroup, d)) d),
     XREADGROUP = (\<lambda>g c k n block d. on_group k g (\<lambda>G s.
       if s_new G n s = [] then (Inr None, d)
       else (Inr (Some (s_new G n s)),
             d(k := mk_stream (d k) (s_deliver g c G (s_new G n s) s)))) d),
     XACK = (\<lambda>k g is d. typed (is_stream (d k)) (Inr (), upd_stream k (s_ack g is) d) d),
     XDEL = (\<lambda>k is d. typed (is_stream (d k)) (Inr (), upd_stream k (s_del is) d) d),
     XCLAIM_JUSTID = (\<lambda>k g c idle is d. on_group k g (\<lambda>G s.
       (Inr (), d(k := mk_stream (d k) (s_claim g c idle is s)))) d),
     XAUTOCLAIM = (\<lambda>k g c idle n d. on_group k g (\<lambda>G s.
       (Inr (fst (s_scan (entries s) c idle (10 * n) n (pel G))),
        d(k := mk_stream (d k)
           (s_map_pel g (\<lambda>_. snd (s_scan (entries s) c idle (10 * n) n (pel G))) s)))) d),
     XLEN = (\<lambda>k d. typed (is_stream (d k)) (Inr (int (length (entries (e_stream (d k))))), d) d),
     XPENDING = (\<lambda>k g d. on_group k g (\<lambda>G s. (Inr (int (length (pel G))), d)) d),
     ZADD = (\<lambda>k x m d. typed (is_zset (d k))
       (Inr (), d(k := mk_zset (d k) (z_add x m (e_zset (d k))))) d),
     ZREM = (\<lambda>k m d. typed (is_zset (d k))
       (Inr (if m \<in> z_members (e_zset (d k)) then 1 else 0),
        d(k := mk_zset (d k) (z_rem m (e_zset (d k))))) d),
     ZRANGEBYSCORE = (\<lambda>k mx n d. typed (is_zset (d k)) (Inr (z_upto mx n (e_zset (d k))), d) d),
     ZRANGE = (\<lambda>k stop d. typed (is_zset (d k)) (Inr (take (nat stop + 1) (e_zset (d k))), d) d),
     ZCARD = (\<lambda>k d. typed (is_zset (d k)) (Inr (int (length (e_zset (d k)))), d) d),
     ZSCORE = (\<lambda>k m d. typed (is_zset (d k)) (Inr (z_score m (e_zset (d k))), d) d),
     SADD = (\<lambda>k us d. typed (is_set (d k))
       (Inr (), d(k := mk_set (d k) (e_set (d k) \<union> set us))) d),
     SREM = (\<lambda>k m d. typed (is_set (d k))
       (Inr (), d(k := mk_set (d k) (e_set (d k) - {m}))) d),
     SMEMBERS = (\<lambda>k d. typed (is_set (d k)) (Inr (sorted_list_of_set (e_set (d k))), d) d),
     SCARD = (\<lambda>k d. typed (is_set (d k)) (Inr (int (card (e_set (d k)))), d) d),
     EXISTS = (\<lambda>k d. (Inr (d k \<noteq> None), d)),
     DEL = (\<lambda>ks d. (Inr (), fold (\<lambda>k d. d(k := None)) ks d)),
     PEXPIRE = (\<lambda>k ms d. (Inr (), d(k := mk_ttl (d k) ms))),
     PTTL = (\<lambda>k d. (Inr (e_pttl (d k)), d)),
     SET_NX_PX = (\<lambda>k v ms d. if ms \<le> 0 then (Inl BadArg, d)
       else if d k = None then (Inr True, d(k := Some (RStr v, Some ms))) else (Inr False, d)),
     SET_PX = (\<lambda>k v ms d. if ms \<le> 0 then (Inl BadArg, d)
       else (Inr (), d(k := Some (RStr v, Some ms)))),
     SET = (\<lambda>k v d. (Inr (), d(k := Some (RStr v, None)))),
     GET = (\<lambda>k d. typed (is_str (d k)) (Inr (e_str (d k)), d) d),
     PUBLISH = (\<lambda>ch m d. (Inr (), d)),
     SCAN = (\<lambda>p s d.
       (Inr (sorted_list_of_set {k \<in> dom d. \<exists>m. k = p @ m @ s}), d)),
     cjson_decode = (\<lambda>j. j),
     cjson_encode = (\<lambda>j. j)\<rparr>"

lemma map_of_enum:
  assumes "finite (dom h)"
  shows "map_of (map (\<lambda>f. (f, the (h f))) (sorted_list_of_set (dom h))) = h"
proof
  fix k
  have "map_of (map (\<lambda>f. (f, the (h f))) xs) k = (if k \<in> set xs then Some (the (h k)) else None)"
    for xs by (induction xs) auto
  with assms show "map_of (map (\<lambda>f. (f, the (h f))) (sorted_list_of_set (dom h))) k = h k"
    by (auto simp: dom_def)
qed

interpretation mem: redis_laws mem_redis
proof
  fix d :: keyspace and k p s
  show "\<exists>fvs. HGETALL mem_redis k d = (Inr fvs, d) \<and> distinct (map fst fvs) \<and>
    map_of fvs = e_hash (d k)" if "is_hash (d k)" "finite (dom (e_hash (d k)))"
    using that map_of_enum [of "e_hash (d k)"] by (simp add: mem_redis_def typed_def comp_def)
  show "\<exists>ks. SCAN mem_redis p s d = (Inr ks, d) \<and> set ks = {k \<in> dom d. \<exists>m. k = p @ m @ s}"
    if "finite (dom d)"
    using that by (simp add: mem_redis_def)
  have "set (sorted_list_of_set {k \<in> dom d. \<exists>m. k = p @ m @ s}) \<subseteq> {k. \<exists>m. k = p @ m @ s}"
    by (cases "finite {k \<in> dom d. \<exists>m. k = p @ m @ s}") auto
  then show "snd (SCAN mem_redis p s d) = d \<and>
      (\<forall>ks. fst (SCAN mem_redis p s d) = Inr ks \<longrightarrow> set ks \<subseteq> {k. \<exists>m. k = p @ m @ s})"
    by (simp add: mem_redis_def)
qed (auto simp: mem_redis_def typed_def on_group_def Let_def split: prod.split)

subsection \<open>Time\<close>

text \<open>
  What the passing of \<open>n\<close> milliseconds does to a keyspace: times to live run down and keys
  disappear when they reach zero, pending entries become idle.
\<close>

definition s_elapse :: "int \<Rightarrow> stream \<Rightarrow> stream" where
  "s_elapse n s = s\<lparr>groups := (\<lambda>g. map_option
     (\<lambda>G. G\<lparr>pel := map (\<lambda>(i, c, t). (i, c, t + n)) (pel G)\<rparr>) (groups s g))\<rparr>"

definition age_data :: "int \<Rightarrow> rdata \<Rightarrow> rdata" where
  "age_data n v = (case v of RStream s \<Rightarrow> RStream (s_elapse n s) | _ \<Rightarrow> v)"

definition age :: "int \<Rightarrow> entry \<Rightarrow> entry" where
  "age n e = (case e of
     None \<Rightarrow> None
   | Some (v, None) \<Rightarrow> Some (age_data n v, None)
   | Some (v, Some r) \<Rightarrow> if r \<le> n then None else Some (age_data n v, Some (r - n)))"

definition elapse :: "int \<Rightarrow> keyspace \<Rightarrow> keyspace" where
  "elapse n d = (\<lambda>k. age n (d k))"

end
