(* ===== verification/Store.thy ===== *)
theory Store
  imports Redis
begin

section \<open>The typed key layout and the client's round trips\<close>

text \<open>
  Two things that every operation of internal/rdb rests on.  First the typing of the key layout:
  which Redis type the keys of each family hold (\<open>wt\<close>), so that no command ever meets a value of
  the wrong type.  Second the world in which an operation runs: the keyspace, the queues that
  this process has already registered, and a list of events, one per round trip, that says what
  the other processes did to the keyspace before the round trip and how the round trip itself
  fails, if it does.  The transitions that the process makes are recorded in \<open>trace\<close>.
\<close>

subsection \<open>Types of the key families\<close>

definition s_ok :: "stream \<Rightarrow> bool" where
  "s_ok s \<longleftrightarrow> sorted_wrt (<) (map fst (entries s)) \<and>
     (\<forall>(i, v) \<in> set (entries s). 0 < i \<and> i \<le> last_id s) \<and>
     (\<forall>g G. groups s g = Some G \<longrightarrow> last_delivered G \<le> last_id s \<and>
        sorted_wrt (<) (map fst (pel G)) \<and>
        (\<forall>(i, c, t) \<in> set (pel G). i \<le> last_delivered G))"

definition z_ok :: "zset \<Rightarrow> bool" where
  "z_ok z \<longleftrightarrow> sorted_wrt (\<lambda>(x, m) (y, n). x < y \<or> x = y \<and> m < n) z \<and> distinct (map snd z)"

fun e_ok :: "entry \<Rightarrow> bool" where
  "e_ok (Some (RHash h, t)) = (h \<noteq> Map.empty \<and> finite (dom h))"
| "e_ok (Some (RSet S, t)) = (S \<noteq> {} \<and> finite S)"
| "e_ok (Some (RZSet z, t)) = (z \<noteq> [] \<and> z_ok z)"
| "e_ok (Some (RStream s, t)) = (s_ok s \<and> t = None)"
| "e_ok _ = True"

fun type_of :: "rkey \<Rightarrow> entry \<Rightarrow> bool" where
  "type_of (KStream q) = is_stream"
| "type_of (KTask q i) = is_hash"
| "type_of (KRetry q) = is_zset"
| "type_of (KArchived q) = is_zset"
| "type_of (KCompleted q) = is_zset"
| "type_of (KScheduled q) = is_zset"
| "type_of (KGroup q g) = is_set"
| "type_of (KGroupResult q g) = is_hash"
| "type_of (KUnique q s) = is_str"
| "type_of (KPeriodicDedup q i) = is_str"
| "type_of KQueues = is_set"
| "type_of KPaused = is_set"
| "type_of KSchedules = is_hash"
| "type_of KLeader = is_str"
| "type_of (KLastFired s) = is_str"

text \<open>Every key of the namespace is absent or holds a well-formed value of its family's type.\<close>

definition wt :: "Keys \<Rightarrow> keyspace \<Rightarrow> bool" where
  "wt K d \<longleftrightarrow> (\<forall>rk. rkey_ok rk \<longrightarrow> type_of rk (d (render K rk)) \<and> e_ok (d (render K rk)))"

text \<open>Proofs about several keys treat them as rendered layout terms, which are injective.\<close>

lemmas key_render = render.simps [symmetric]

lemma rkey_ok_simps [simp]:
  "rkey_ok (KStream q) = qname_ok q" "rkey_ok (KTask q i) = qname_ok q"
  "rkey_ok (KRetry q) = qname_ok q" "rkey_ok (KArchived q) = qname_ok q"
  "rkey_ok (KCompleted q) = qname_ok q" "rkey_ok (KScheduled q) = qname_ok q"
  "rkey_ok (KGroup q g) = qname_ok q" "rkey_ok (KGroupResult q g) = qname_ok q"
  "rkey_ok (KUnique q s) = qname_ok q" "rkey_ok (KPeriodicDedup q i) = qname_ok q"
  "rkey_ok KQueues" "rkey_ok KPaused" "rkey_ok KSchedules" "rkey_ok KLeader"
  "rkey_ok (KLastFired s)"
  by (simp_all add: rkey_ok_def)

lemma render_eq [simp]: "rkey_ok a \<Longrightarrow> rkey_ok b \<Longrightarrow> render k a = render k b \<longleftrightarrow> a = b"
  by (rule render_inject)

lemma wtD: "wt K d \<Longrightarrow> rkey_ok rk \<Longrightarrow> type_of rk (d (render K rk))"
  by (simp add: wt_def)

lemma wt_eok: "wt K d \<Longrightarrow> rkey_ok rk \<Longrightarrow> e_ok (d (render K rk))"
  by (simp add: wt_def)

lemma wt_types [simp]:
  "wt K d \<Longrightarrow> qname_ok q \<Longrightarrow> is_stream (d (render K (KStream q)))"
  "wt K d \<Longrightarrow> qname_ok q \<Longrightarrow> is_hash (d (render K (KTask q i)))"
  "wt K d \<Longrightarrow> qname_ok q \<Longrightarrow> is_zset (d (render K (KRetry q)))"
  "wt K d \<Longrightarrow> qname_ok q \<Longrightarrow> is_zset (d (render K (KArchived q)))"
  "wt K d \<Longrightarrow> qname_ok q \<Longrightarrow> is_zset (d (render K (KCompleted q)))"
  "wt K d \<Longrightarrow> qname_ok q \<Longrightarrow> is_zset (d (render K (KScheduled q)))"
  "wt K d \<Longrightarrow> qname_ok q \<Longrightarrow> is_set (d (render K (KGroup q g)))"
  "wt K d \<Longrightarrow> qname_ok q \<Longrightarrow> is_hash (d (render K (KGroupResult q g)))"
  "wt K d \<Longrightarrow> qname_ok q \<Longrightarrow> is_str (d (render K (KUnique q s)))"
  "wt K d \<Longrightarrow> qname_ok q \<Longrightarrow> is_str (d (render K (KPeriodicDedup q i)))"
  "wt K d \<Longrightarrow> is_set (d (render K KQueues))" "wt K d \<Longrightarrow> is_set (d (render K KPaused))"
  "wt K d \<Longrightarrow> is_hash (d (render K KSchedules))" "wt K d \<Longrightarrow> is_str (d (render K KLeader))"
  "wt K d \<Longrightarrow> is_str (d (render K (KLastFired z)))"
  using wtD [of K d "KStream q"] wtD [of K d "KTask q i"] wtD [of K d "KRetry q"]
    wtD [of K d "KArchived q"] wtD [of K d "KCompleted q"] wtD [of K d "KScheduled q"]
    wtD [of K d "KGroup q g"] wtD [of K d "KGroupResult q g"] wtD [of K d "KUnique q s"]
    wtD [of K d "KPeriodicDedup q i"] wtD [of K d KQueues] wtD [of K d KPaused]
    wtD [of K d KSchedules] wtD [of K d KLeader] wtD [of K d "KLastFired z"]
  by simp_all

lemma wt_upd:
  "wt K d \<Longrightarrow> rkey_ok rk \<Longrightarrow> type_of rk e \<Longrightarrow> e_ok e \<Longrightarrow> wt K (d(render K rk := e))"
  by (auto simp: wt_def)

lemma wt_None [simp]: "wt K d \<Longrightarrow> rkey_ok rk \<Longrightarrow> wt K (d(render K rk := None))"
  by (rule wt_upd) (cases rk; simp)+

subsection \<open>Well-formedness is preserved by the writers\<close>

lemma z_rem_ok: "z_ok z \<Longrightarrow> z_ok (z_rem m z)"
  by (auto simp: z_ok_def z_rem_def sorted_wrt_filter distinct_map_filter)

lemma sorted_z_insert:
  "sorted_wrt (\<lambda>(x, m) (y, n). x < y \<or> x = y \<and> m < n) z \<Longrightarrow> m \<notin> snd ` set z \<Longrightarrow>
   sorted_wrt (\<lambda>(x, m) (y, n). x < y \<or> x = y \<and> m < n) (z_insert x m z)"
  by (induction z rule: z_insert.induct [of _ x m]) (auto simp: order.strict_iff_order)

lemma distinct_z_insert:
  "distinct (map snd z) \<Longrightarrow> m \<notin> snd ` set z \<Longrightarrow> distinct (map snd (z_insert x m z))"
  by (induction z rule: z_insert.induct [of _ x m]) auto

lemma z_rem_notin: "m \<notin> snd ` set (z_rem m z)"
  by (auto simp: z_rem_def)

lemma z_add_ok: "z_ok z \<Longrightarrow> z_ok (z_add x m z)"
  using z_rem_ok [of z m] sorted_z_insert [OF _ z_rem_notin] distinct_z_insert [OF _ z_rem_notin]
  by (simp add: z_ok_def z_add_def)

lemma s_ok_add: "s_ok s \<Longrightarrow> last_id s < i \<Longrightarrow> s_ok (s_add i v s)"
  by (fastforce simp: s_ok_def s_add_def sorted_wrt_append)

lemma s_ok_empty [simp]: "s_ok empty_stream"
  by (simp add: s_ok_def empty_stream_def)

lemma s_ok_del: "s_ok s \<Longrightarrow> s_ok (s_del is s)"
  by (auto simp: s_ok_def s_del_def sorted_wrt_map sorted_wrt_filter)

lemma s_ok_create: "s_ok s \<Longrightarrow> s_ok (s_group_create g s)"
  by (auto simp: s_ok_def s_group_create_def)

lemma s_ok_map_pel:
  assumes "s_ok s"
    and "\<And>p. sorted_wrt (<) (map fst p) \<Longrightarrow> sorted_wrt (<) (map fst (f p))"
    and "\<And>p. fst ` set (f p) \<subseteq> fst ` set p"
  shows "s_ok (s_map_pel g f s)"
proof -
  have "i \<le> last_delivered G" if "s_ok s" "groups s g = Some G" "(i, c, t) \<in> set (f (pel G))"
    for G i c t
    using that assms(3) [of "pel G"] by (fastforce simp: s_ok_def)
  with assms(1,2) show ?thesis
    by (auto simp: s_ok_def s_map_pel_def split: option.splits)
qed

lemma sorted_map_filter: "sorted_wrt (<) (map f xs) \<Longrightarrow> sorted_wrt (<) (map f (filter P xs))"
  by (simp add: sorted_wrt_map sorted_wrt_filter)

lemma s_ok_ack: "s_ok s \<Longrightarrow> s_ok (s_ack g is s)"
  unfolding s_ack_def by (rule s_ok_map_pel) (auto simp: sorted_map_filter)

lemma s_ok_claim: "s_ok s \<Longrightarrow> s_ok (s_claim g c idle is s)"
proof (unfold s_claim_def, rule s_ok_map_pel)
  fix p :: "(sid \<times> string \<times> int) list"
  let ?m = "\<lambda>(i, o', t). if i \<in> set is \<and> idle \<le> t then (i, c, 0) else (i, o', t)"
  have f: "fst \<circ> ?m = fst" by (auto simp: fun_eq_iff)
  show "sorted_wrt (<) (map fst p) \<Longrightarrow> sorted_wrt (<) (map fst (map ?m
    (filter (\<lambda>(i, o', t). i \<in> set is \<longrightarrow> i \<in> fst ` set (entries s)) p)))"
    by (simp add: f sorted_map_filter)
  let ?F = "filter (\<lambda>(i, o', t). i \<in> set is \<longrightarrow> i \<in> fst ` set (entries s)) p"
  have "fst ` set (map ?m ?F) = fst ` set ?F"
    unfolding set_map image_comp f ..
  also have "\<dots> \<subseteq> fst ` set p" by (rule image_mono) simp
  finally show "fst ` set (map ?m ?F) \<subseteq> fst ` set p" .
qed

definition pel_le :: "(sid \<times> string \<times> int) list \<Rightarrow> (sid \<times> string \<times> int) list \<Rightarrow> bool" where
  "pel_le p' p \<longleftrightarrow> fst ` set p' \<subseteq> fst ` set p \<and>
     (sorted_wrt (<) (map fst p) \<longrightarrow> sorted_wrt (<) (map fst p'))"

lemma pel_le_refl: "pel_le p p"
  by (simp add: pel_le_def)

lemma pel_le_drop: "pel_le p' p \<Longrightarrow> pel_le p' (x # p)"
  by (auto simp: pel_le_def)

lemma pel_le_keep:
  assumes "pel_le p' p" "fst x = fst y"
  shows "pel_le (x # p') (y # p)"
proof -
  have "\<forall>z \<in> set p'. fst y < fst z" if "\<forall>z \<in> set p. fst y < fst z"
    using assms(1) that by (fastforce simp: pel_le_def)
  with assms show ?thesis by (auto simp: pel_le_def)
qed

lemma s_scan_pel: "pel_le (snd (s_scan es c idle a n p)) p"
proof (induction es c idle a n p rule: s_scan.induct)
  case (2 es c idle a n i o' t p)
  show ?case
  proof (cases "a = 0 \<or> n = 0")
    case False
    note IH = "2.IH" [OF False]
    show ?thesis
    proof (cases "map_of es i")
      case None
      then show ?thesis using IH(1) False by (simp add: pel_le_drop)
    next
      case (Some v)
      then show ?thesis
        using IH(2) [OF Some] IH(3) [OF Some] False by (simp add: split_beta pel_le_keep)
    qed
  qed (auto simp: pel_le_refl)
qed (simp add: pel_le_refl)

lemma s_ok_deliver:
  assumes "s_ok s" "groups s g = Some G" "new = s_new G n s"
  shows "s_ok (s_deliver g c G new s)"
proof -
  have sub: "set new \<subseteq> {(i, v) \<in> set (entries s). last_delivered G < i}"
    using assms(3) by (auto simp: s_new_def dest: in_set_takeD)
  have "sorted_wrt (<) (map fst (filter (\<lambda>(i, v). last_delivered G < i) (entries s)))"
    using assms(1) by (auto simp: s_ok_def sorted_map_filter)
  then have srt: "sorted_wrt (<) (map fst new)"
    using assms(3) by (simp add: s_new_def sorted_wrt_take flip: take_map)
  have le: "i \<le> fst (last new)" if "(i, v) \<in> set new" for i v
  proof -
    have "i \<in> set (map fst new)" "new \<noteq> []" using that by force+
    then show ?thesis using sorted_le_last [OF srt] by (simp add: last_map)
  qed
  have ld: "last_delivered G \<le> last_id s" "\<forall>(i, c, t) \<in> set (pel G). i \<le> last_delivered G"
    "sorted_wrt (<) (map fst (pel G))"
    using assms(1,2) by (auto simp: s_ok_def)
  show ?thesis
  proof (cases "new = []")
    case True
    then show ?thesis using assms(1,2) by (auto simp: s_ok_def s_deliver_def)
  next
    case False
    then have l: "last new \<in> set (entries s)" "last_delivered G < fst (last new)"
      using subsetD [OF sub last_in_set [OF False]] by (simp_all add: split_beta)
    then have "fst (last new) \<le> last_id s" using assms(1) by (fastforce simp: s_ok_def)
    moreover have "map (fst \<circ> (\<lambda>(i, v). (i, c, 0::int))) new = map fst new" by auto
    moreover have "\<forall>x \<in> fst ` set (pel G). \<forall>y \<in> fst ` set new. x < y"
      using ld(2) sub by fastforce
    ultimately have p: "sorted_wrt (<) (map fst (pel G @ map (\<lambda>(i, v). (i, c, 0::int)) new))"
      "\<forall>(i, c, t) \<in> set (pel G @ map (\<lambda>(i, v). (i, c, 0::int)) new). i \<le> fst (last new)"
      "fst (last new) \<le> last_id s"
      using ld srt le l(2) by (auto simp: sorted_wrt_append intro: order.trans less_imp_le
          simp del: map_eq_conv)
    have s: "sorted_wrt (<) (map fst (entries s))"
      "\<forall>(i, v) \<in> set (entries s). 0 < i \<and> i \<le> last_id s"
      "\<And>g G. groups s g = Some G \<Longrightarrow> last_delivered G \<le> last_id s \<and>
        sorted_wrt (<) (map fst (pel G)) \<and> (\<forall>(i, c, t) \<in> set (pel G). i \<le> last_delivered G)"
      using assms(1) by (auto simp: s_ok_def)
    show ?thesis
      unfolding s_ok_def s_deliver_def using p s False by simp
  qed
qed

lemma e_ok_parts:
  "e_ok e \<Longrightarrow> finite (dom (e_hash e))" "e_ok e \<Longrightarrow> z_ok (e_zset e)" "e_ok e \<Longrightarrow> finite (e_set e)"
  "e_ok e \<Longrightarrow> s_ok (e_stream e)" "e_ok e \<Longrightarrow> is_stream e \<Longrightarrow> e_ttl e = None"
  "e_ok e \<Longrightarrow> is_set e \<Longrightarrow> e_set e = {} \<longleftrightarrow> e = None"
  "e_ok e \<Longrightarrow> is_hash e \<Longrightarrow> e_hash e = Map.empty \<longleftrightarrow> e = None"
  by (cases e rule: e_ok.cases; simp add: z_ok_def)+

lemma e_ok_mk:
  "finite (dom h) \<Longrightarrow> e_ok (mk_hash e h)" "z_ok z \<Longrightarrow> e_ok (mk_zset e z)"
  "finite S \<Longrightarrow> e_ok (mk_set e S)" "s_ok s \<Longrightarrow> e_ttl e = None \<Longrightarrow> e_ok (mk_stream e s)"
  by (simp_all add: mk_hash_def mk_zset_def mk_set_def mk_stream_def)

lemma e_ok_mk_ttl: "e_ok e \<Longrightarrow> \<not> is_stream e \<or> e = None \<Longrightarrow> e_ok (mk_ttl e ms)"
  by (cases e rule: e_ok.cases) (auto simp: mk_ttl_def)

text \<open>Writing well-formed values to keys of the right family keeps the layout typed.\<close>

lemma wt_stream:
  "wt K d \<Longrightarrow> qname_ok q \<Longrightarrow> s_ok s \<Longrightarrow> wt K (d(render K (KStream q) := mk_stream (d (render K (KStream q))) s))"
  using wt_eok [of K d "KStream q"] by (intro wt_upd) (auto intro: e_ok_mk dest: e_ok_parts)

lemma wt_zset:
  assumes "wt K d" "rkey_ok rk" "type_of rk = is_zset" "z_ok z"
  shows "wt K (d(render K rk := mk_zset e z))"
  using assms by (intro wt_upd) (auto intro: e_ok_mk)

lemma wt_hash:
  assumes "wt K d" "rkey_ok rk" "type_of rk = is_hash" "finite (dom h)"
  shows "wt K (d(render K rk := mk_hash e h))"
  using assms by (intro wt_upd) (auto intro: e_ok_mk)

lemma wt_set:
  assumes "wt K d" "rkey_ok rk" "type_of rk = is_set" "finite S"
  shows "wt K (d(render K rk := mk_set e S))"
  using assms by (intro wt_upd) (auto intro: e_ok_mk)

lemma wt_str:
  assumes "wt K d" "rkey_ok rk" "type_of rk = is_str"
  shows "wt K (d(render K rk := Some (RStr v, t)))"
  using assms by (intro wt_upd) auto

lemma wt_ttl:
  assumes "wt K d" "rkey_ok rk" "type_of rk \<noteq> is_stream"
  shows "wt K (d(render K rk := mk_ttl (d (render K rk)) ms))"
proof -
  have t: "type_of rk (mk_ttl e ms)" if "type_of rk e" for e
    using that by (cases rk; cases e rule: e_ok.cases) (auto simp: mk_ttl_def)
  have "\<not> is_stream (d (render K rk)) \<or> d (render K rk) = None"
    using wtD [OF assms(1,2)] assms(3) by (cases rk; cases "d (render K rk)" rule: e_ok.cases) auto
  then show ?thesis
    using assms t wtD [OF assms(1,2)] wt_eok [OF assms(1,2)] by (intro wt_upd e_ok_mk_ttl) auto
qed

lemma wt_parts:
  "wt K d \<Longrightarrow> rkey_ok rk \<Longrightarrow> finite (dom (e_hash (d (render K rk))))"
  "wt K d \<Longrightarrow> rkey_ok rk \<Longrightarrow> z_ok (e_zset (d (render K rk)))"
  "wt K d \<Longrightarrow> rkey_ok rk \<Longrightarrow> finite (e_set (d (render K rk)))"
  "wt K d \<Longrightarrow> rkey_ok rk \<Longrightarrow> s_ok (e_stream (d (render K rk)))"
  using e_ok_parts [OF wt_eok [of K d rk]] by blast+

lemma upd_stream_apply:
  "upd_stream k f d k' = (if k' = k \<and> d k \<noteq> None then mk_stream (d k) (f (e_stream (d k))) else d k')"
  by (cases "d k") (simp_all add: upd_stream_def)

lemma e_stream_upd [simp]:
  "f empty_stream = empty_stream \<Longrightarrow> e_stream (upd_stream k f d k) = f (e_stream (d k))"
  by (cases "d k") (simp_all add: upd_stream_apply)

lemma upd_stream_other [simp]: "k' \<noteq> k \<Longrightarrow> upd_stream k f d k' = d k'"
  by (simp add: upd_stream_apply)

lemma empty_stream_fix [simp]:
  "s_ack g is empty_stream = empty_stream" "s_del is empty_stream = empty_stream"
  by (simp_all add: s_ack_def s_del_def s_map_pel_def empty_stream_def)

lemma is_stream_upd [simp]: "is_stream (d k) \<Longrightarrow> is_stream (upd_stream k f d k)"
  by (simp add: upd_stream_apply)

lemma wt_upd_stream:
  assumes "wt K d" "qname_ok q" "\<And>s. s_ok s \<Longrightarrow> s_ok (f s)"
  shows "wt K (upd_stream (render K (KStream q)) f d)"
  using assms wt_stream [OF assms(1,2), of "f (e_stream (d (render K (KStream q))))"]
    wt_parts(4) [OF assms(1), of "KStream q"]
  by (simp add: upd_stream_def)

lemma finite_dom_add: "finite (dom h) \<Longrightarrow> finite (dom (h ++ map_of fvs))"
  by (simp add: finite_dom_map_of)

lemmas wt_intros =
  wt_stream wt_zset wt_hash wt_set wt_str wt_ttl wt_upd_stream wt_None finite_dom_add
  z_add_ok z_rem_ok s_ok_add s_ok_ack s_ok_del s_ok_create s_ok_claim

subsection \<open>Effects of the commands on a typed keyspace\<close>

definition hput :: "string \<Rightarrow> (string \<times> rstr) list \<Rightarrow> keyspace \<Rightarrow> keyspace" where
  "hput k fvs d = d(k := mk_hash (d k) (e_hash (d k) ++ map_of (rev fvs)))"

definition hrem :: "string \<Rightarrow> string list \<Rightarrow> keyspace \<Rightarrow> keyspace" where
  "hrem k fs d = d(k := mk_hash (d k) (e_hash (d k) |` (- set fs)))"

definition xpush :: "redis \<Rightarrow> string \<Rightarrow> string \<Rightarrow> keyspace \<Rightarrow> keyspace" where
  "xpush R k v d = d(k := mk_stream (d k) (s_add (new_id R k v d) v (e_stream (d k))))"

definition zput :: "string \<Rightarrow> score \<Rightarrow> string \<Rightarrow> keyspace \<Rightarrow> keyspace" where
  "zput k x m d = d(k := mk_zset (d k) (z_add x m (e_zset (d k))))"

definition zdel :: "string \<Rightarrow> string \<Rightarrow> keyspace \<Rightarrow> keyspace" where
  "zdel k m d = d(k := mk_zset (d k) (z_rem m (e_zset (d k))))"

definition sput :: "string \<Rightarrow> string list \<Rightarrow> keyspace \<Rightarrow> keyspace" where
  "sput k us d = d(k := mk_set (d k) (e_set (d k) \<union> set us))"

definition sdel :: "string \<Rightarrow> string \<Rightarrow> keyspace \<Rightarrow> keyspace" where
  "sdel k m d = d(k := mk_set (d k) (e_set (d k) - {m}))"

definition tput :: "string \<Rightarrow> int \<Rightarrow> keyspace \<Rightarrow> keyspace" where
  "tput k ms d = d(k := mk_ttl (d k) ms)"

definition kdel :: "string \<Rightarrow> keyspace \<Rightarrow> keyspace" where
  "kdel k d = d(k := None)"

definition vput :: "string \<Rightarrow> rstr \<Rightarrow> int option \<Rightarrow> keyspace \<Rightarrow> keyspace" where
  "vput k v t d = d(k := Some (RStr v, t))"

lemmas effect_defs =
  hput_def hrem_def xpush_def zput_def zdel_def sput_def sdel_def tput_def kdel_def vput_def

lemma effect_other [simp]:
  "k' \<noteq> k \<Longrightarrow> hput k fvs d k' = d k'" "k' \<noteq> k \<Longrightarrow> hrem k fs d k' = d k'"
  "k' \<noteq> k \<Longrightarrow> xpush R k v d k' = d k'" "k' \<noteq> k \<Longrightarrow> zput k x m d k' = d k'"
  "k' \<noteq> k \<Longrightarrow> zdel k m d k' = d k'" "k' \<noteq> k \<Longrightarrow> sput k us d k' = d k'"
  "k' \<noteq> k \<Longrightarrow> sdel k m d k' = d k'" "k' \<noteq> k \<Longrightarrow> tput k ms d k' = d k'"
  "k' \<noteq> k \<Longrightarrow> kdel k d k' = d k'" "k' \<noteq> k \<Longrightarrow> vput k u t d k' = d k'"
  by (simp_all add: effect_defs)

lemma effect_same [simp]:
  "e_hash (hput k fvs d k) = e_hash (d k) ++ map_of (rev fvs)"
  "e_hash (hrem k fs d k) = e_hash (d k) |` (- set fs)"
  "e_stream (xpush R k v d k) = s_add (new_id R k v d) v (e_stream (d k))"
  "e_zset (zput k x m d k) = z_add x m (e_zset (d k))"
  "e_zset (zdel k m d k) = z_rem m (e_zset (d k))"
  "e_set (sput k us d k) = e_set (d k) \<union> set us"
  "e_set (sdel k m d k) = e_set (d k) - {m}"
  "kdel k d k = None" "vput k u t d k = Some (RStr u, t)" "tput k ms d k = mk_ttl (d k) ms"
  by (simp_all add: effect_defs)

lemma effect_exists [simp]:
  "hput k fvs d k = None \<longleftrightarrow> e_hash (d k) ++ map_of (rev fvs) = Map.empty"
  "sput k us d k = None \<longleftrightarrow> e_set (d k) \<union> set us = {}"
  "sdel k m d k = None \<longleftrightarrow> e_set (d k) - {m} = {}"
  by (simp_all add: effect_defs del: map_add_None Un_empty)

lemma wt_effects [simp]:
  "wt K d \<Longrightarrow> rkey_ok rk \<Longrightarrow> type_of rk = is_hash \<Longrightarrow> wt K (hput (render K rk) fvs d)"
  "wt K d \<Longrightarrow> rkey_ok rk \<Longrightarrow> type_of rk = is_hash \<Longrightarrow> wt K (hrem (render K rk) fs d)"
  "wt K d \<Longrightarrow> rkey_ok rk \<Longrightarrow> type_of rk = is_zset \<Longrightarrow> wt K (zput (render K rk) x m d)"
  "wt K d \<Longrightarrow> rkey_ok rk \<Longrightarrow> type_of rk = is_zset \<Longrightarrow> wt K (zdel (render K rk) m d)"
  "wt K d \<Longrightarrow> rkey_ok rk \<Longrightarrow> type_of rk = is_set \<Longrightarrow> wt K (sput (render K rk) us d)"
  "wt K d \<Longrightarrow> rkey_ok rk \<Longrightarrow> type_of rk = is_set \<Longrightarrow> wt K (sdel (render K rk) m d)"
  "wt K d \<Longrightarrow> rkey_ok rk \<Longrightarrow> type_of rk \<noteq> is_stream \<Longrightarrow> wt K (tput (render K rk) ms d)"
  "wt K d \<Longrightarrow> rkey_ok rk \<Longrightarrow> wt K (kdel (render K rk) d)"
  "wt K d \<Longrightarrow> rkey_ok rk \<Longrightarrow> type_of rk = is_str \<Longrightarrow> wt K (vput (render K rk) v t d)"
  by (auto simp: effect_defs intro!: wt_intros wt_parts finite_Int)

lemma wt_ack_del [simp]:
  "wt K d \<Longrightarrow> qname_ok q \<Longrightarrow> wt K (upd_stream (render K (KStream q)) (s_ack g is) d)"
  "wt K d \<Longrightarrow> qname_ok q \<Longrightarrow> wt K (upd_stream (render K (KStream q)) (s_del is) d)"
  by (auto intro: wt_intros)

lemma type_of_neq [simp]:
  "is_set \<noteq> is_stream" "is_hash \<noteq> is_stream" "is_str \<noteq> is_stream" "is_zset \<noteq> is_stream"
  by (metis is_set.simps is_stream.simps is_hash.simps is_str.simps is_zset.simps)+

context redis_laws
begin

lemma wt_xpush [simp]: "wt K d \<Longrightarrow> qname_ok q \<Longrightarrow> wt K (xpush R (render K (KStream q)) v d)"
  using XADD_new(2) [of d "render K (KStream q)" v] wt_parts(4) [of K d "KStream q"]
  by (auto simp: xpush_def intro!: wt_intros)

text \<open>The commands on the keys of the layout: no reply is a type error.\<close>

lemma typed_commands:
  assumes "wt K d" "rkey_ok rk"
  shows "type_of rk = is_hash \<Longrightarrow> fvs \<noteq> [] \<Longrightarrow> HSET R (render K rk) fvs d = (Inr (), hput (render K rk) fvs d)"
    and "type_of rk = is_hash \<Longrightarrow> HGET R (render K rk) f d = (Inr (e_hash (d (render K rk)) f), d)"
    and "type_of rk = is_hash \<Longrightarrow> fs \<noteq> [] \<Longrightarrow>
      HMGET R (render K rk) fs d = (Inr (map (e_hash (d (render K rk))) fs), d)"
    and "type_of rk = is_hash \<Longrightarrow> fs \<noteq> [] \<Longrightarrow> HDEL R (render K rk) fs d = (Inr (), hrem (render K rk) fs d)"
    and "type_of rk = is_stream \<Longrightarrow>
      XADD R (render K rk) v d = (Inr (new_id R (render K rk) v d), xpush R (render K rk) v d)"
    and "type_of rk = is_stream \<Longrightarrow>
      XACK R (render K rk) g is d = (Inr (), upd_stream (render K rk) (s_ack g is) d)"
    and "type_of rk = is_stream \<Longrightarrow>
      XDEL R (render K rk) is d = (Inr (), upd_stream (render K rk) (s_del is) d)"
    and "type_of rk = is_zset \<Longrightarrow> ZADD R (render K rk) x m d = (Inr (), zput (render K rk) x m d)"
    and "type_of rk = is_zset \<Longrightarrow> ZREM R (render K rk) m d =
      (Inr (if m \<in> z_members (e_zset (d (render K rk))) then 1 else 0), zdel (render K rk) m d)"
    and "type_of rk = is_zset \<Longrightarrow>
      ZRANGEBYSCORE R (render K rk) x n d = (Inr (z_upto x n (e_zset (d (render K rk)))), d)"
    and "type_of rk = is_zset \<Longrightarrow> 0 \<le> n \<Longrightarrow>
      ZRANGE R (render K rk) n d = (Inr (take (nat n + 1) (e_zset (d (render K rk)))), d)"
    and "type_of rk = is_zset \<Longrightarrow>
      ZCARD R (render K rk) d = (Inr (int (length (e_zset (d (render K rk))))), d)"
    and "type_of rk = is_set \<Longrightarrow> us \<noteq> [] \<Longrightarrow> SADD R (render K rk) us d = (Inr (), sput (render K rk) us d)"
    and "type_of rk = is_set \<Longrightarrow> SREM R (render K rk) m d = (Inr (), sdel (render K rk) m d)"
    and "type_of rk = is_set \<Longrightarrow> SCARD R (render K rk) d = (Inr (int (card (e_set (d (render K rk))))), d)"
    and "type_of rk = is_str \<Longrightarrow> GET R (render K rk) d = (Inr (e_str (d (render K rk))), d)"
  using wtD [OF assms] by (simp_all add: commands effect_defs)

lemma untyped_commands:
  "EXISTS R k d = (Inr (d k \<noteq> None), d)"
  "DEL R ks d = (Inr (), fold kdel ks d)"
  "PEXPIRE R k ms d = (Inr (), tput k ms d)"
  "EXPIRE R k secs d = (Inr (), tput k (1000 * secs) d)"
  "0 < ms \<Longrightarrow> SET_NX_PX R k v ms d = (if d k = None then (Inr True, vput k v (Some ms) d) else (Inr False, d))"
  "0 < ms \<Longrightarrow> SET_PX R k v ms d = (Inr (), vput k v (Some ms) d)"
  "SET R k v d = (Inr (), vput k v None d)"
  "PTTL R k d = (Inr (e_pttl (d k)), d)"
  by (simp_all add: commands effect_defs [abs_def])

text \<open>Commands with a boolean reply, in the position where a script uses them.\<close>

lemma bool_calls:
  "call (EXISTS R k) f d = f (d k \<noteq> None) d"
  "0 < ms \<Longrightarrow> call (SET_NX_PX R k v ms) f d =
    (if d k = None then f True (vput k v (Some ms) d) else f False d)"
  by (simp_all add: call_def untyped_commands)

end

subsection \<open>Round trips\<close>

text \<open>
  How a round trip fails: \<open>Cut n\<close> loses the connection after the server has executed the first
  \<open>n\<close> commands of the request, so that the caller sees an error while the effects may or may not
  have happened; \<open>Dup\<close> is a request that the client library sends again after a lost reply.
\<close>

datatype fault = Fine | Cut nat | Dup

type_synonym event = "(keyspace \<Rightarrow> keyspace) \<times> fault"

record world =
  db :: keyspace
  knownQueues :: "string set"
  events :: "event list"
  trace :: "(keyspace \<times> keyspace) list"

text \<open>
  The errors that the operations return; \<open>ErrAt what i e\<close> is an error wrapped with the position of
  the builder element that it concerns.
\<close>

datatype err =
    NetErr
  | RedisErr rerr
  | RedisNil
  | ErrNoTask
  | ErrDuplicateTask
  | ErrDecode
  | ErrParse
  | ErrGroupEmpty
  | ErrNoCallback
  | ErrCallbackQueue
  | ErrEncodeArgs
  | ErrEmptyChain
  | ErrGroupFirst
  | ErrNoArchiveMidChain
  | ErrTaskIDInChain
  | ErrUniqueInChain
  | ErrProcessAtInChain
  | ErrNilChainMember
  | ErrEmptyChainMember
  | ErrNestedStage
  | ErrDiscardMember
  | ErrNilGroup
  | ErrChainMemberInStage
  | ErrExceedsGroupTTL
  | ErrNoOnComplete
  | ErrNoQueues
  | ErrTaskNotFound
  | ErrInvalidState
  | ErrInterval
  | ErrCronSpec
  | ErrAt string nat err

type_synonym 'a go = "world \<Rightarrow> (err + 'a) \<times> world"

definition env_of :: "world \<Rightarrow> keyspace \<Rightarrow> keyspace" where
  "env_of w = (case events w of [] \<Rightarrow> id | (e, f) # _ \<Rightarrow> e)"

definition fault_of :: "world \<Rightarrow> fault" where
  "fault_of w = (case events w of [] \<Rightarrow> Fine | (e, f) # _ \<Rightarrow> f)"

text \<open>A transition of this process: the environment acts first, then the request is executed.\<close>

definition commit :: "(keyspace \<Rightarrow> keyspace) \<Rightarrow> world \<Rightarrow> world" where
  "commit f w = w\<lparr>db := f (env_of w (db w)), events := tl (events w),
     trace := (env_of w (db w), f (env_of w (db w))) # trace w\<rparr>"

definition lift_err :: "rerr + 'a \<Rightarrow> err + 'a" where
  "lift_err r = (case r of Inl e \<Rightarrow> Inl (RedisErr e) | Inr a \<Rightarrow> Inr a)"

definition rt :: "'a cmd \<Rightarrow> 'a go" where
  "rt c w =
     (case fault_of w of
        Fine \<Rightarrow> (lift_err (fst (c (env_of w (db w)))), commit (\<lambda>d. snd (c d)) w)
      | Cut n \<Rightarrow> (Inl NetErr, commit (if n = 0 then id else (\<lambda>d. snd (c d))) w)
      | Dup \<Rightarrow> (lift_err (fst (c (snd (c (env_of w (db w)))))), commit (\<lambda>d. snd (c (snd (c d)))) w))"

text \<open>
  A pipeline sends several commands in one round trip.  A failing connection may cut it off after any of them;
  other clients are not interleaved between them.
\<close>

fun run_all :: "'a cmd list \<Rightarrow> keyspace \<Rightarrow> (rerr + 'a) list \<times> keyspace" where
  "run_all [] d = ([], d)"
| "run_all (c # cs) d = (case c d of (r, d') \<Rightarrow> (case run_all cs d' of (rs, d'') \<Rightarrow> (r # rs, d'')))"

definition pipeline :: "'a cmd list \<Rightarrow> (rerr + 'a) list go" where
  "pipeline cs w =
     (case fault_of w of
        Fine \<Rightarrow> (Inr (fst (run_all cs (env_of w (db w)))), commit (\<lambda>d. snd (run_all cs d)) w)
      | Cut n \<Rightarrow> (Inl NetErr, commit (\<lambda>d. snd (run_all (take n cs) d)) w)
      | Dup \<Rightarrow> (Inr (fst (run_all cs (snd (run_all cs (env_of w (db w)))))),
                commit (\<lambda>d. snd (run_all cs (snd (run_all cs d)))) w))"

text \<open>A transaction pipeline is one atomic request; the first failing reply is its error.\<close>

definition first_err :: "(rerr + 'a) list \<Rightarrow> rerr + unit" where
  "first_err rs = (case filter isl rs of Inl e # _ \<Rightarrow> Inl e | _ \<Rightarrow> Inr ())"

definition tx :: "unit cmd list \<Rightarrow> unit cmd" where
  "tx cs d = (case run_all cs d of (rs, d') \<Rightarrow> (first_err rs, d'))"

text \<open>\<^verbatim>\<open>if err != nil { return err }\<close>.\<close>

definition andthen :: "'a go \<Rightarrow> ('a \<Rightarrow> 'b go) \<Rightarrow> 'b go" where
  "andthen g f w = (case g w of (Inl e, w') \<Rightarrow> (Inl e, w') | (Inr a, w') \<Rightarrow> f a w')"

definition return :: "'a \<Rightarrow> 'a go" where
  "return a w = (Inr a, w)"

definition fail :: "err \<Rightarrow> 'a go" where
  "fail e w = (Inl e, w)"

lemma andthen_simps [simp]:
  "g w = (Inr a, w') \<Longrightarrow> andthen g f w = f a w'" "g w = (Inl e, w') \<Longrightarrow> andthen g f w = (Inl e, w')"
  "return a w = (Inr a, w)" "fail e w = (Inl e, w)"
  by (simp_all add: andthen_def return_def fail_def)

text \<open>A calm world: this process runs alone and no request fails.\<close>

abbreviation calm :: "world \<Rightarrow> bool" where
  "calm w \<equiv> events w = []"

definition stepped :: "keyspace \<Rightarrow> world \<Rightarrow> world" where
  "stepped d w = w\<lparr>db := d, trace := (db w, d) # trace w\<rparr>"

lemma stepped_simps [simp]:
  "db (stepped d w) = d" "knownQueues (stepped d w) = knownQueues w" "events (stepped d w) = events w"
  by (simp_all add: stepped_def)

lemma rt_calm: "calm w \<Longrightarrow> c (db w) = (r, d) \<Longrightarrow> rt c w = (lift_err r, stepped d w)"
  by (simp add: rt_def fault_of_def env_of_def commit_def stepped_def)

lemma rt_calm_Inr [simp]: "calm w \<Longrightarrow> c (db w) = (Inr a, d) \<Longrightarrow> rt c w = (Inr a, stepped d w)"
  by (simp add: rt_calm lift_err_def)

lemma rt_calm_Inl [simp]: "calm w \<Longrightarrow> c (db w) = (Inl e, d) \<Longrightarrow> rt c w = (Inl (RedisErr e), stepped d w)"
  by (simp add: rt_calm lift_err_def)

lemma pipeline_calm [simp]:
  "calm w \<Longrightarrow> run_all cs (db w) = (rs, d) \<Longrightarrow> pipeline cs w = (Inr rs, stepped d w)"
  by (simp add: pipeline_def fault_of_def env_of_def commit_def stepped_def)

lemma tx_Nil [simp]: "tx [] d = (Inr (), d)"
  by (simp add: tx_def first_err_def)

lemma tx_Cons [simp]: "c d = (Inr (), d') \<Longrightarrow> tx (c # cs) d = tx cs d'"
  by (simp add: tx_def first_err_def split: prod.split)

end
