(* ===== verification/Rely.thy ===== *)
theory Rely
  imports Store
begin

section \<open>Interference\<close>

text \<open>
  A rely/guarantee calculus for the operations.  An operation runs in a world whose events let the
  other processes change the keyspace before every round trip, and the round trips themselves may
  fail half-way or be executed twice.  \<open>triple I S P f Q\<close> says: whatever the events are, as long as
  the steps of the others respect the relation \<open>S\<close>, every step of \<open>f\<close> respects it too, the
  invariant \<open>I\<close> holds throughout, and the result satisfies \<open>Q\<close> when \<open>P\<close> held at the start.  The
  last section composes processes: if every process is sound by itself, every step of an arbitrary
  interleaving of their round trips respects \<open>S\<close>.
\<close>

subsection \<open>Runs of one process\<close>

text \<open>The steps that a process made, newest first, each with the keyspace before and after.\<close>

type_synonym run = "(keyspace \<times> keyspace) list"

fun cur :: "keyspace \<Rightarrow> run \<Rightarrow> keyspace" where
  "cur d [] = d"
| "cur d ((a, b) # ts) = b"

text \<open>The environment respected \<open>S\<close> before each step; the process respects it as long as it did.\<close>

fun envs :: "(keyspace \<Rightarrow> keyspace \<Rightarrow> bool) \<Rightarrow> keyspace \<Rightarrow> run \<Rightarrow> bool" where
  "envs S d [] = True"
| "envs S d ((a, b) # ts) = (S (cur d ts) a \<and> envs S d ts)"

fun guar :: "(keyspace \<Rightarrow> keyspace \<Rightarrow> bool) \<Rightarrow> keyspace \<Rightarrow> run \<Rightarrow> bool" where
  "guar S d [] = True"
| "guar S d ((a, b) # ts) = ((envs S d ((a, b) # ts) \<longrightarrow> S a b) \<and> guar S d ts)"

lemma envs_append: "envs S d (ts @ us) \<Longrightarrow> envs S d us"
  by (induction ts) auto

lemma guar_append: "guar S d (ts @ us) \<Longrightarrow> guar S d us"
  by (induction ts) auto

definition holds ::
  "(keyspace \<Rightarrow> bool) \<Rightarrow> (keyspace \<Rightarrow> keyspace \<Rightarrow> bool) \<Rightarrow> keyspace \<Rightarrow> world \<Rightarrow> (keyspace \<Rightarrow> bool) \<Rightarrow> bool"
where
  "holds I S d w P \<longleftrightarrow> db w = cur d (trace w) \<and> guar S d (trace w) \<and>
     (envs S d (trace w) \<longrightarrow> I (db w) \<and> P (db w))"

definition triple ::
  "(keyspace \<Rightarrow> bool) \<Rightarrow> (keyspace \<Rightarrow> keyspace \<Rightarrow> bool) \<Rightarrow> (keyspace \<Rightarrow> bool) \<Rightarrow>
   (world \<Rightarrow> 'r \<times> world) \<Rightarrow> ('r \<Rightarrow> keyspace \<Rightarrow> bool) \<Rightarrow> bool"
where
  "triple I S P f Q \<longleftrightarrow>
     (\<forall>d w r w'. holds I S d w P \<longrightarrow> f w = (r, w') \<longrightarrow>
        holds I S d w' (\<lambda>x. Q r x \<and> S (db w) x) \<and> (\<exists>ts. trace w' = ts @ trace w))"

text \<open>A condition that survives every step which respects \<open>S\<close>.\<close>

definition stable ::
  "(keyspace \<Rightarrow> bool) \<Rightarrow> (keyspace \<Rightarrow> keyspace \<Rightarrow> bool) \<Rightarrow> (keyspace \<Rightarrow> bool) \<Rightarrow> bool" where
  "stable I S P \<longleftrightarrow> (\<forall>d d'. I d \<longrightarrow> P d \<longrightarrow> S d d' \<longrightarrow> P d')"

text \<open>A postcondition that promises nothing when the operation fails.\<close>

definition onok :: "('a \<Rightarrow> keyspace \<Rightarrow> bool) \<Rightarrow> err + 'a \<Rightarrow> keyspace \<Rightarrow> bool" where
  "onok Q r d = (case r of Inl e \<Rightarrow> True | Inr a \<Rightarrow> Q a d)"

lemma onok_simps [simp]: "onok Q (Inl e) d" "onok Q (Inr a) d = Q a d"
  by (simp_all add: onok_def)

lemma stable_const [simp]: "stable I S (\<lambda>_. b)"
  by (simp add: stable_def)

lemma stable_conj: "stable I S P \<Longrightarrow> stable I S Q \<Longrightarrow> stable I S (\<lambda>d. P d \<and> Q d)"
  by (auto simp: stable_def)

lemma stable_all: "(\<And>x. stable I S (P x)) \<Longrightarrow> stable I S (\<lambda>d. \<forall>x. P x d)"
  unfolding stable_def by blast

lemma stable_ball: "(\<And>x. x \<in> A \<Longrightarrow> stable I S (P x)) \<Longrightarrow> stable I S (\<lambda>d. \<forall>x \<in> A. P x d)"
  unfolding stable_def by blast

lemma stable_imp: "(b \<Longrightarrow> stable I S P) \<Longrightarrow> stable I S (\<lambda>d. b \<longrightarrow> P d)"
  unfolding stable_def by blast

lemma stable_ex: "(\<And>x. stable I S (P x)) \<Longrightarrow> stable I S (\<lambda>d. \<exists>x. P x d)"
  unfolding stable_def by blast

lemma tripleI:
  assumes "\<And>d w r w'. db w = cur d (trace w) \<Longrightarrow> guar S d (trace w) \<Longrightarrow>
      (envs S d (trace w) \<Longrightarrow> I (db w) \<and> P (db w)) \<Longrightarrow> f w = (r, w') \<Longrightarrow>
      holds I S d w' (\<lambda>x. Q r x \<and> S (db w) x) \<and> (\<exists>ts. trace w' = ts @ trace w)"
  shows "triple I S P f Q"
  using assms unfolding triple_def holds_def by blast

lemma tripleD:
  assumes "triple I S P f Q" "holds I S d w P" "f w = (r, w')"
  shows "holds I S d w' (\<lambda>x. Q r x \<and> S (db w) x)" "\<exists>ts. trace w' = ts @ trace w"
  using assms unfolding triple_def by blast+

subsection \<open>Histories of many agents\<close>

text \<open>
  A history lists, newest first, the keyspaces after each step together with the agents whose run
  the step belongs to.  A goroutine counts the steps of the one that started it, up to the start,
  as its own, so a step may belong to several agents.
\<close>

type_synonym 'a history = "('a set \<times> keyspace) list"

fun hcur :: "keyspace \<Rightarrow> 'a history \<Rightarrow> keyspace" where
  "hcur d [] = d"
| "hcur d ((as, x) # H) = x"

fun view :: "'a \<Rightarrow> keyspace \<Rightarrow> 'a history \<Rightarrow> run" where
  "view a d [] = []"
| "view a d ((as, x) # H) = (if a \<in> as then (hcur d H, x) # view a d H else view a d H)"

fun steps :: "(keyspace \<Rightarrow> keyspace \<Rightarrow> bool) \<Rightarrow> keyspace \<Rightarrow> 'a history \<Rightarrow> bool" where
  "steps S d [] = True"
| "steps S d ((as, x) # H) = (S (hcur d H) x \<and> steps S d H)"

definition owned :: "'a history \<Rightarrow> bool" where
  "owned H \<longleftrightarrow> (\<forall>(as, x) \<in> set H. as \<noteq> {})"

text \<open>
  A history is an execution of the agents' programs when what each agent sees of it is what its
  program does up to some point, under some events.
\<close>

definition execution :: "('a \<Rightarrow> world \<Rightarrow> world) \<Rightarrow> keyspace \<Rightarrow> 'a history \<Rightarrow> bool" where
  "execution prog d H \<longleftrightarrow> owned H \<and>
     (\<forall>a. \<exists>w ts. db w = d \<and> trace w = [] \<and> trace (prog a w) = ts @ view a d H)"

locale rely =
  fixes I :: "keyspace \<Rightarrow> bool" and S :: "keyspace \<Rightarrow> keyspace \<Rightarrow> bool"
  assumes refl: "S d d"
    and trans: "S a b \<Longrightarrow> S b c \<Longrightarrow> S a c"
    and keeps: "I d \<Longrightarrow> S d d' \<Longrightarrow> I d'"
begin

subsection \<open>Rules\<close>

lemma pure: "(\<And>d. I d \<Longrightarrow> P d \<Longrightarrow> Q r d) \<Longrightarrow> triple I S P (\<lambda>w. (r, w)) Q"
  by (rule tripleI) (auto simp: holds_def refl)

lemma known: "(\<And>d. I d \<Longrightarrow> P d \<Longrightarrow> Q r d) \<Longrightarrow> triple I S P (\<lambda>w. (r, w\<lparr>knownQueues := g w\<rparr>)) Q"
  by (rule tripleI) (auto simp: holds_def refl)

lemma conseq:
  assumes "triple I S P f Q" "\<And>d. I d \<Longrightarrow> P' d \<Longrightarrow> P d" "\<And>r d. I d \<Longrightarrow> Q r d \<Longrightarrow> Q' r d"
  shows "triple I S P' f Q'"
  using assms unfolding triple_def holds_def by blast

lemma frame:
  assumes "triple I S P f Q" "stable I S F"
  shows "triple I S (\<lambda>d. P d \<and> F d) f (\<lambda>r d. Q r d \<and> F d)"
proof (rule tripleI)
  fix d w r w'
  assume w: "db w = cur d (trace w)" "guar S d (trace w)" "f w = (r, w')"
    and e: "envs S d (trace w) \<Longrightarrow> I (db w) \<and> P (db w) \<and> F (db w)"
  have "holds I S d w P" using w e by (auto simp: holds_def)
  note D = tripleD [OF assms(1) this w(3)]
  then obtain ts where ts: "trace w' = ts @ trace w" by blast
  have F: "F (db w')" if new: "envs S d (trace w')"
  proof -
    have "envs S d (trace w)" using new ts envs_append by metis
    then have "I (db w)" "F (db w)" using e by blast+
    moreover have "S (db w) (db w')" using D(1) new unfolding holds_def by blast
    ultimately show ?thesis using assms(2) unfolding stable_def by blast
  qed
  show "holds I S d w' (\<lambda>x. (Q r x \<and> F x) \<and> S (db w) x) \<and> (\<exists>ts. trace w' = ts @ trace w)"
    using D F unfolding holds_def by blast
qed

text \<open>The rest may rely on what is true of every result, whatever the state.\<close>

lemma bind_result:
  assumes "triple I S P f Q" "\<And>r. T r \<Longrightarrow> triple I S (Q r) (k r) Q'" "\<And>w. T (fst (f w))"
  shows "triple I S P (\<lambda>w. case f w of (r, w') \<Rightarrow> k r w') Q'"
proof (rule tripleI)
  fix d w r w'
  assume w: "db w = cur d (trace w)" "guar S d (trace w)"
    and e: "envs S d (trace w) \<Longrightarrow> I (db w) \<and> P (db w)"
    and run: "(case f w of (r, w') \<Rightarrow> k r w') = (r, w')"
  obtain q w1 where f: "f w = (q, w1)" by fastforce
  have k: "k q w1 = (r, w')" using run f by simp
  have "holds I S d w P" using w e by (auto simp: holds_def)
  note D1 = tripleD [OF assms(1) this f]
  then have "holds I S d w1 (Q q)" by (auto simp: holds_def)
  note D2 = tripleD [OF assms(2) [OF assms(3) [of w, unfolded f fst_conv]] this k]
  obtain us where us: "trace w' = us @ trace w1" using D2(2) by blast
  have "S (db w) (db w')" if new: "envs S d (trace w')"
  proof -
    have "envs S d (trace w1)" using new us envs_append by metis
    then have "S (db w) (db w1)" using D1(1) unfolding holds_def by blast
    moreover have "S (db w1) (db w')" using D2(1) new unfolding holds_def by blast
    ultimately show ?thesis by (rule trans)
  qed
  with D2(1) have "holds I S d w' (\<lambda>x. Q' r x \<and> S (db w) x)"
    unfolding holds_def by blast
  moreover obtain ts where "trace w1 = ts @ trace w" using D1(2) by blast
  ultimately show "holds I S d w' (\<lambda>x. Q' r x \<and> S (db w) x) \<and> (\<exists>ts. trace w' = ts @ trace w)"
    using us append_assoc by metis
qed

lemma bind:
  assumes "triple I S P f Q" "\<And>r. triple I S (Q r) (k r) Q'"
  shows "triple I S P (\<lambda>w. case f w of (r, w') \<Rightarrow> k r w') Q'"
  by (rule bind_result [OF assms(1), where T = "\<lambda>_. True"]) (simp_all add: assms(2))

lemma andthen:
  assumes "triple I S P g (onok Q)" "\<And>a. triple I S (Q a) (f a) (onok Q')"
  shows "triple I S P (andthen g f) (onok Q')"
proof -
  have "triple I S (onok Q r) (\<lambda>w. case r of Inl e \<Rightarrow> (Inl e, w) | Inr a \<Rightarrow> f a w) (onok Q')" for r
  proof (cases r)
    case (Inl e)
    then show ?thesis using pure [of "onok Q (Inl e)" "onok Q'" "Inl e"] by simp
  next
    case (Inr a)
    then show ?thesis using assms(2) [of a] by (simp add: onok_def [abs_def])
  qed
  from bind [OF assms(1) this] show ?thesis
    by (rule back_subst [of "\<lambda>h. triple I S P h (onok Q')"])
      (auto simp: andthen_def fun_eq_iff split: sum.splits)
qed

lemma return: "(\<And>d. I d \<Longrightarrow> P d \<Longrightarrow> Q a d) \<Longrightarrow> triple I S P (return a) (onok Q)"
  using pure [of P "onok Q" "Inr a"] by (simp add: return_def [abs_def])

lemma fail: "triple I S P (fail e) (onok Q)"
  using pure [of P "onok Q" "Inl e"] by (simp add: fail_def [abs_def])

text \<open>One step: the state that the environment left, and the state that the request made of it.\<close>

lemma step:
  assumes "stable I S P"
    and f: "\<And>x. I x \<Longrightarrow> P x \<Longrightarrow> S x (f x) \<and> Q (g x) (f x)"
    and w: "db w = cur d (trace w)" "guar S d (trace w)" "envs S d (trace w) \<Longrightarrow> I (db w) \<and> P (db w)"
  shows "holds I S d (commit f w) (\<lambda>x. Q (g (env_of w (db w))) x \<and> S (db w) x) \<and>
    (\<exists>ts. trace (commit f w) = ts @ trace w)"
proof -
  let ?a = "env_of w (db w)"
  have main: "S ?a (f ?a) \<and> Q (g ?a) (f ?a) \<and> S (db w) (f ?a) \<and> I (f ?a)"
    if e: "S (db w) ?a" "envs S d (trace w)"
  proof -
    have "I ?a" "P ?a" using w(3) e assms(1) keeps unfolding stable_def by blast+
    then show ?thesis using f e trans keeps by blast
  qed
  have tr: "trace (commit f w) = (?a, f ?a) # trace w" and db: "db (commit f w) = f ?a"
    by (simp_all add: commit_def)
  show ?thesis
    unfolding holds_def tr db using main w(1,2) by simp
qed

lemma rt:
  assumes "stable I S P"
    and c: "\<And>x. I x \<Longrightarrow> P x \<Longrightarrow> S x (snd (c x)) \<and> (\<forall>a. fst (c x) = Inr a \<longrightarrow> Q a (snd (c x)))"
  shows "triple I S P (rt c) (onok Q)"
proof (rule tripleI)
  fix d w r w'
  assume w: "db w = cur d (trace w)" "guar S d (trace w)"
      "envs S d (trace w) \<Longrightarrow> I (db w) \<and> P (db w)" and run: "rt c w = (r, w')"
  have again: "I (snd (c x)) \<and> P (snd (c x))" if "I x" "P x" for x
    using c [OF that] that assms(1) keeps unfolding stable_def by blast
  have ok: "onok Q (lift_err (fst (c x))) (snd (c x))" if "I x" "P x" for x
    using c [OF that] by (auto simp: lift_err_def split: sum.split)
  show "holds I S d w' (\<lambda>x. onok Q r x \<and> S (db w) x) \<and> (\<exists>ts. trace w' = ts @ trace w)"
  proof (cases "fault_of w")
    case Fine
    then have r: "w' = commit (\<lambda>d. snd (c d)) w" "r = lift_err (fst (c (env_of w (db w))))"
      using run by (simp_all add: rt_def)
    show ?thesis unfolding r by (rule step [OF assms(1) _ w]) (use c ok in blast)
  next
    case (Cut n)
    then have r: "w' = commit (if n = 0 then id else (\<lambda>d. snd (c d))) w" "r = Inl NetErr"
      using run by (simp_all add: rt_def)
    show ?thesis unfolding r by (rule step [OF assms(1) _ w]) (use c refl in auto)
  next
    case Dup
    then have r: "w' = commit (\<lambda>d. snd (c (snd (c d)))) w"
        "r = lift_err (fst (c (snd (c (env_of w (db w))))))"
      using run by (simp_all add: rt_def)
    show ?thesis unfolding r
      by (rule step [OF assms(1) _ w]) (use c ok again trans in blast)
  qed
qed

lemma run_all_safe:
  assumes "stable I S P" "\<And>c x. c \<in> set cs \<Longrightarrow> I x \<Longrightarrow> P x \<Longrightarrow> S x (snd (c x))" "I x" "P x"
  shows "S x (snd (run_all cs x)) \<and> I (snd (run_all cs x)) \<and> P (snd (run_all cs x))"
  using assms(2-)
proof (induction cs arbitrary: x)
  case (Cons c cs)
  obtain r y where c: "c x = (r, y)" by fastforce
  have "S x y" using Cons.prems(1) [of c x] Cons.prems(2,3) c by simp
  moreover have "I y" "P y" using \<open>S x y\<close> Cons.prems(2,3) assms(1) keeps unfolding stable_def by blast+
  moreover have "S y (snd (run_all cs y)) \<and> I (snd (run_all cs y)) \<and> P (snd (run_all cs y))"
    using Cons.IH Cons.prems(1) \<open>I y\<close> \<open>P y\<close> by simp
  ultimately show ?case using c trans by (auto split: prod.split)
qed (simp add: refl)

lemma pipeline:
  assumes "stable I S P"
    and c: "\<And>c x. c \<in> set cs \<Longrightarrow> I x \<Longrightarrow> P x \<Longrightarrow> S x (snd (c x))"
    and q: "\<And>x. I x \<Longrightarrow> P x \<Longrightarrow> Q (fst (run_all cs x)) (snd (run_all cs x))"
  shows "triple I S P (pipeline cs) (onok Q)"
proof (rule tripleI)
  fix d w r w'
  assume w: "db w = cur d (trace w)" "guar S d (trace w)"
      "envs S d (trace w) \<Longrightarrow> I (db w) \<and> P (db w)" and run: "pipeline cs w = (r, w')"
  have all: "S x (snd (run_all cs x)) \<and> I (snd (run_all cs x)) \<and> P (snd (run_all cs x))"
    if "I x" "P x" for x
    using run_all_safe [OF assms(1)] c that by blast
  show "holds I S d w' (\<lambda>x. onok Q r x \<and> S (db w) x) \<and> (\<exists>ts. trace w' = ts @ trace w)"
  proof (cases "fault_of w")
    case Fine
    then have r: "w' = commit (\<lambda>d. snd (run_all cs d)) w" "r = Inr (fst (run_all cs (env_of w (db w))))"
      using run by (simp_all add: pipeline_def)
    show ?thesis unfolding r by (rule step [OF assms(1) _ w]) (use all q in simp)
  next
    case (Cut n)
    then have r: "w' = commit (\<lambda>d. snd (run_all (take n cs) d)) w" "r = Inl NetErr"
      using run by (simp_all add: pipeline_def)
    have "S x (snd (run_all (take n cs) x))" if "I x" "P x" for x
      using run_all_safe [OF assms(1), of "take n cs"] c that in_set_takeD by metis
    then show ?thesis unfolding r by (intro step [OF assms(1) _ w]) auto
  next
    case Dup
    then have r: "w' = commit (\<lambda>d. snd (run_all cs (snd (run_all cs d)))) w"
        "r = Inr (fst (run_all cs (snd (run_all cs (env_of w (db w))))))"
      using run by (simp_all add: pipeline_def)
    show ?thesis unfolding r
      by (rule step [OF assms(1) _ w]) (use all q trans in \<open>auto; blast\<close>)
  qed
qed

lemma sum_case:
  assumes "triple I S P f Q"
    and "\<And>e. triple I S (Q (Inl e)) (kl e) Q'" "\<And>a. triple I S (Q (Inr a)) (kr a) Q'"
  shows "triple I S P (\<lambda>w. case f w of (Inl e, w1) \<Rightarrow> kl e w1 | (Inr a, w1) \<Rightarrow> kr a w1) Q'"
proof -
  have "triple I S (Q r) (\<lambda>w. case r of Inl e \<Rightarrow> kl e w | Inr a \<Rightarrow> kr a w) Q'" for r
    using assms(2,3) by (cases r) simp_all
  from bind [OF assms(1) this] show ?thesis
    by (rule back_subst [of "\<lambda>h. triple I S P h Q'"]) (auto split: sum.splits)
qed

lemma cond:
  assumes "triple I S P f Q" "triple I S P g Q"
  shows "triple I S P (\<lambda>w. if b w then f w else g w) Q"
proof (rule tripleI)
  fix d w r w'
  assume w: "db w = cur d (trace w)" "guar S d (trace w)" "envs S d (trace w) \<Longrightarrow> I (db w) \<and> P (db w)"
    and run: "(if b w then f w else g w) = (r, w')"
  have h: "holds I S d w P" using w by (auto simp: holds_def)
  show "holds I S d w' (\<lambda>x. Q r x \<and> S (db w) x) \<and> (\<exists>ts. trace w' = ts @ trace w)"
    using run tripleD [OF assms(1) h] tripleD [OF assms(2) h] by (auto split: if_splits)
qed

text \<open>An operation whose result the caller ignores.\<close>

lemma ignore:
  assumes "triple I S P f Q" "\<And>r d. I d \<Longrightarrow> Q r d \<Longrightarrow> Q' () d"
  shows "triple I S P (\<lambda>w. ((), snd (f w))) Q'"
proof -
  have "triple I S (Q r) (\<lambda>w. ((), w)) Q'" for r by (rule pure) (rule assms(2))
  from bind [OF assms(1) this] show ?thesis by (simp add: split_beta)
qed

text \<open>Soundness of an operation by itself: it needs nothing and promises nothing but its steps.\<close>

lemma any: "triple I S P f Q \<Longrightarrow> triple I S P f (\<lambda>_ _. True)"
  by (erule conseq) auto

subsection \<open>Composition\<close>

text \<open>
  If each agent respects \<open>S\<close> as long as the others do, everybody always does: the earliest
  offending step would be one of an agent whose environment has not offended yet.
\<close>

lemma between:
  assumes "steps S d H"
  shows "S (cur d (view a d H)) (hcur d H)"
  using assms
proof (induction H)
  case (Cons h H)
  then show ?case by (cases h) (auto simp: refl intro: trans)
qed (simp add: refl)

lemma view_envs: "steps S d H \<Longrightarrow> envs S d (view a d H)"
proof (induction H)
  case (Cons h H)
  then show ?case using between [of d H a] by (cases h) auto
qed simp

lemma compose:
  assumes "\<And>a. guar S d (view a d H)" "owned H"
  shows "steps S d H"
  using assms
proof (induction H)
  case (Cons h H)
  obtain as x where h: "h = (as, x)" by fastforce
  with Cons.prems(2) obtain a where a: "a \<in> as" "owned H" by (auto simp: owned_def)
  have "guar S d (view b d H)" for b using Cons.prems(1) [of b] h by (auto split: if_splits)
  with Cons.IH a have H: "steps S d H" by blast
  have "envs S d ((hcur d H, x) # view a d H) \<longrightarrow> S (hcur d H) x"
    using Cons.prems(1) [of a] h a by simp
  with H view_envs [OF H, of a] between [OF H, of a] show ?case by (simp add: h)
qed simp

lemma steps_invariant: "I d \<Longrightarrow> steps S d H \<Longrightarrow> I (hcur d H)"
  by (induction H) (auto dest: keeps)

lemma all_invariant: "I d \<Longrightarrow> steps S d H \<Longrightarrow> x \<in> snd ` set H \<Longrightarrow> I x"
proof (induction H)
  case (Cons h H)
  then show ?case using keeps [OF steps_invariant [of d H]] by (cases h) auto
qed simp

lemma executions:
  assumes "execution prog d H" "I d" "\<And>a. triple I S (\<lambda>_. True) (\<lambda>w. ((), prog a w)) (\<lambda>_ _. True)"
  shows "steps S d H \<and> (\<forall>x \<in> snd ` set H. I x)"
proof -
  have "guar S d (view a d H)" for a
  proof -
    obtain w ts where w: "db w = d" "trace w = []" "trace (prog a w) = ts @ view a d H"
      using assms(1) unfolding execution_def by blast
    then have "holds I S d w (\<lambda>_. True)" using assms(2) by (simp add: holds_def)
    from tripleD(1) [OF assms(3) this] have "guar S d (trace (prog a w))" by (simp add: holds_def)
    then show ?thesis using w(3) guar_append by metis
  qed
  moreover have "owned H" using assms(1) by (simp add: execution_def)
  ultimately have "steps S d H" by (rule compose)
  with assms(2) all_invariant show ?thesis by blast
qed

end

end
