(* ===== verification/Score.thy ===== *)
theory Score
  imports Redis
begin

section \<open>Sorted-set scores (scheduleScore of internal/rdb/schedule.go)\<close>

text \<open>
  A score is an IEEE double.  The model rounds exact rationals to 53 significant bits, ties to
  even, as the arithmetic of \<^verbatim>\<open>float64\<close> does in the range of the times that occur.  The lemmas give
  what the forwarder relies on: whole seconds are exact, the score is monotone in the time, and
  it is off by less than a microsecond.
\<close>

fun bits :: "nat \<Rightarrow> nat" where
  "bits n = (if n = 0 then 0 else Suc (bits (n div 2)))"

declare bits.simps [simp del]

definition round_even :: "rat \<Rightarrow> int" where
  "round_even x =
     (let f = \<lfloor>x\<rfloor>; r = x - of_int f
      in if r < 1 / 2 then f else if 1 / 2 < r then f + 1 else if even f then f else f + 1)"

text \<open>
  The exponent of the last place of a positive number not below \<open>2 ^ -64\<close>: the number lies between
  \<open>2 ^ 52\<close> and \<open>2 ^ 53\<close> units of the last place.
\<close>

definition ulp_exp :: "rat \<Rightarrow> int" where
  "ulp_exp x = int (bits (nat \<lfloor>x * 2 ^ 64\<rfloor>)) - 117"

definition fl_pos :: "rat \<Rightarrow> rat" where
  "fl_pos x = of_int (round_even (x / 2 powi ulp_exp x)) * 2 powi ulp_exp x"

definition float64 :: "rat \<Rightarrow> rat" where
  "float64 x = (if x = 0 then 0 else if x < 0 then - fl_pos (- x) else fl_pos x)"

definition scheduleScore :: "time \<Rightarrow> score" where
  "scheduleScore t =
     float64 (float64 (of_int (Unix t)) + float64 (of_int (Nanosecond t) / 10 ^ 9))"

subsection \<open>Rounding\<close>

lemma bits_bounds: "0 < n \<Longrightarrow> 2 ^ (bits n - 1) \<le> n \<and> n < 2 ^ bits n \<and> 0 < bits n"
proof (induction n rule: bits.induct)
  case (1 n)
  show ?case
  proof (cases "n div 2 = 0")
    case True
    with 1(2) have "n = 1" by linarith
    then show ?thesis by (simp add: bits.simps)
  next
    case False
    with 1 have IH: "2 ^ (bits (n div 2) - 1) \<le> n div 2" "n div 2 < 2 ^ bits (n div 2)"
      "0 < bits (n div 2)" by auto
    have b: "bits n = Suc (bits (n div 2))" using 1(2) by (simp add: bits.simps [of n])
    have "2 * 2 ^ (bits (n div 2) - 1) \<le> n" "n < 2 * 2 ^ bits (n div 2)"
      using IH(1,2) by linarith+
    then show ?thesis using IH(3) by (simp add: b flip: power_Suc)
  qed
qed

lemma round_even_near: "\<bar>of_int (round_even x) - x\<bar> \<le> 1 / 2"
  unfolding round_even_def Let_def by (simp add: abs_if) linarith

lemma round_even_int [simp]: "round_even (of_int n) = n"
  by (simp add: round_even_def)

lemma round_even_mono:
  assumes "x \<le> y"
  shows "round_even x \<le> round_even y"
proof (cases "\<lfloor>x\<rfloor> = \<lfloor>y\<rfloor>")
  case True
  with assms show ?thesis by (auto simp: round_even_def Let_def)
next
  case False
  with assms have "\<lfloor>x\<rfloor> + 1 \<le> \<lfloor>y\<rfloor>" using floor_mono [OF assms] by linarith
  then show ?thesis by (auto simp: round_even_def Let_def)
qed

lemma ulp_exp_bounds:
  assumes "1 / 2 ^ 64 \<le> x"
  shows "2 ^ 52 \<le> x / 2 powi ulp_exp x \<and> x / 2 powi ulp_exp x < 2 ^ 53"
proof -
  define n where "n = nat \<lfloor>x * 2 ^ 64\<rfloor>"
  have "1 \<le> x * 2 ^ 64" using assms by (simp add: field_simps)
  then have n0: "0 < n" and nf: "int n = \<lfloor>x * 2 ^ 64\<rfloor>" by (simp_all add: n_def)
  have b: "2 ^ (bits n - 1) \<le> n" "n < 2 ^ bits n" "0 < bits n" using bits_bounds [OF n0] by auto
  have lo: "(2::rat) ^ (bits n - 1) \<le> x * 2 ^ 64"
  proof -
    have "(2::rat) ^ (bits n - 1) \<le> of_nat n" using b(1) by (metis of_nat_le_iff of_nat_numeral of_nat_power)
    also have "\<dots> \<le> x * 2 ^ 64" using nf by (metis of_int_floor_le of_int_of_nat_eq)
    finally show ?thesis .
  qed
  have hi: "x * 2 ^ 64 < (2::rat) ^ bits n"
  proof -
    have "x * 2 ^ 64 < of_nat (n + 1)" using nf floor_correct [of "x * 2 ^ 64"]
      by (metis of_int_1 of_int_add of_int_of_nat_eq of_nat_1 of_nat_add)
    also have "\<dots> \<le> 2 ^ bits n" using b(2) by (metis Suc_eq_plus1 Suc_leI of_nat_le_iff of_nat_numeral of_nat_power)
    finally show ?thesis .
  qed
  have u: "ulp_exp x = int (bits n) - 117" by (simp add: ulp_exp_def n_def)
  have p: "(2::rat) powi (int (bits n) - 117) = 2 ^ bits n / 2 ^ 117"
    by (simp add: power_int_diff)
  have pm: "(2::rat) ^ bits n = 2 * 2 ^ (bits n - 1)"
    using b(3) by (metis power_minus_mult mult.commute)
  show ?thesis
    unfolding u p using lo hi by (simp add: field_simps pm)
qed

lemma float_mono_pos:
  assumes "1 / 2 ^ 64 \<le> x" "x \<le> y"
  shows "fl_pos x \<le> fl_pos y"
proof -
  have y: "1 / 2 ^ 64 \<le> y" using assms by linarith
  note bx = ulp_exp_bounds [OF assms(1)] and bY = ulp_exp_bounds [OF y]
  have pos: "0 < (2::rat) powi e" for e by simp
  show ?thesis
  proof (cases "ulp_exp x = ulp_exp y")
    case True
    then have "x / 2 powi ulp_exp x \<le> y / 2 powi ulp_exp y"
      using assms(2) pos by (simp add: divide_right_mono)
    then show ?thesis
      unfolding fl_pos_def using round_even_mono True pos
      by (simp add: mult_right_mono)
  next
    case False
    have "ulp_exp x < ulp_exp y"
    proof (rule ccontr)
      assume "\<not> ?thesis"
      with False have "ulp_exp y + 1 \<le> ulp_exp x" by simp
      then have "(2::rat) powi (ulp_exp y + 1) \<le> 2 powi ulp_exp x"
        by (intro power_int_increasing) auto
      then have "2 * 2 powi ulp_exp y \<le> (2::rat) powi ulp_exp x" by (simp add: power_int_add_1)
      moreover have "2 ^ 52 * 2 powi ulp_exp x \<le> x" using bx pos [of "ulp_exp x"] by (simp add: field_simps)
      moreover have "y < 2 ^ 53 * 2 powi ulp_exp y" using bY pos [of "ulp_exp y"] by (simp add: field_simps)
      ultimately show False using assms(2) by simp
    qed
    then have le: "2 * (2::rat) powi ulp_exp x \<le> 2 powi ulp_exp y"
      using power_int_increasing [of "ulp_exp x + 1" "ulp_exp y" "2::rat"] by (simp add: power_int_add_1)
    have "round_even (x / 2 powi ulp_exp x) \<le> round_even (of_int (2 ^ 53))"
      using bx by (intro round_even_mono) simp
    then have rx: "round_even (x / 2 powi ulp_exp x) \<le> 2 ^ 53" by (simp only: round_even_int)
    have "round_even (of_int (2 ^ 52)) \<le> round_even (y / 2 powi ulp_exp y)"
      using bY by (intro round_even_mono) simp
    then have ry: "2 ^ 52 \<le> round_even (y / 2 powi ulp_exp y)" by (simp only: round_even_int)
    have "fl_pos x \<le> 2 ^ 53 * 2 powi ulp_exp x"
      unfolding fl_pos_def using rx pos [of "ulp_exp x"]
      by (intro mult_right_mono) (metis of_int_le_iff of_int_numeral of_int_power, simp)
    also have "\<dots> \<le> 2 ^ 52 * 2 powi ulp_exp y" using le by simp
    also have "\<dots> \<le> fl_pos y"
      unfolding fl_pos_def using ry pos [of "ulp_exp y"]
      by (intro mult_right_mono) (metis of_int_le_iff of_int_numeral of_int_power, simp)
    finally show ?thesis .
  qed
qed

lemma float64_mono:
  assumes "x = 0 \<or> 1 / 2 ^ 64 \<le> x" "x \<le> y"
  shows "float64 x \<le> float64 y"
proof (cases "x = 0")
  case True
  have "0 \<le> fl_pos z" if "0 < z" for z
  proof -
    have "round_even (of_int 0) \<le> round_even (z / 2 powi ulp_exp z)"
      using that by (intro round_even_mono) simp
    then have "0 \<le> round_even (z / 2 powi ulp_exp z)" by (simp only: round_even_int)
    then show ?thesis by (simp add: fl_pos_def)
  qed
  with True assms show ?thesis by (auto simp: float64_def)
next
  case False
  with assms have "1 / 2 ^ 64 \<le> x" "(0::rat) < 1 / 2 ^ 64" by simp_all
  then have "0 < x" by linarith
  with assms False show ?thesis by (simp add: float64_def float_mono_pos)
qed

lemma float64_error:
  assumes "1 / 2 ^ 64 \<le> x" "x < 2 ^ k"
  shows "\<bar>float64 x - x\<bar> \<le> 2 ^ k / 2 ^ 54"
proof -
  let ?u = "(2::rat) powi ulp_exp x"
  have pos: "0 < ?u" by simp
  have x0: "0 < x" using assms(1) by (rule order.strict_trans2 [rotated]) simp
  have b: "2 ^ 52 * ?u \<le> x" using ulp_exp_bounds [OF assms(1)] pos by (simp add: field_simps)
  have "\<bar>of_int (round_even (x / ?u)) - x / ?u\<bar> * ?u \<le> 1 / 2 * ?u"
    using round_even_near [of "x / ?u"] pos by (intro mult_right_mono) auto
  then have "\<bar>(of_int (round_even (x / ?u)) - x / ?u) * ?u\<bar> \<le> ?u / 2"
    using pos by (simp add: abs_mult)
  then have e: "\<bar>fl_pos x - x\<bar> \<le> ?u / 2"
    using pos by (simp add: fl_pos_def left_diff_distrib)
  have "ulp_exp x + 53 \<le> int k"
  proof (rule ccontr)
    assume "\<not> ?thesis"
    then have "(2::rat) powi int k \<le> 2 powi (ulp_exp x + 52)" by (intro power_int_increasing) auto
    then have "(2::rat) ^ k \<le> 2 ^ 52 * ?u" by (simp add: power_int_add)
    with b assms(2) show False by linarith
  qed
  then have "(2::rat) powi (ulp_exp x + 53) \<le> 2 powi int k" by (intro power_int_increasing) auto
  then have "2 ^ 53 * ?u \<le> 2 ^ k" by (simp add: power_int_add)
  with e x0 show ?thesis by (simp add: float64_def)
qed

lemma float64_int [simp]:
  assumes "0 \<le> n" "n < 2 ^ 53"
  shows "float64 (of_int n) = of_int n"
proof (cases "n = 0")
  case False
  with assms have n1: "1 \<le> n" by simp
  let ?x = "of_int n :: rat"
  have x1: "1 / 2 ^ 64 \<le> ?x" using n1 by (simp add: field_simps)
  have "ulp_exp ?x \<le> 0"
  proof (rule ccontr)
    assume "\<not> ?thesis"
    then have "(2::rat) powi 1 \<le> 2 powi ulp_exp ?x" by (intro power_int_increasing) auto
    moreover have "2 ^ 52 * 2 powi ulp_exp ?x \<le> ?x"
      using ulp_exp_bounds [OF x1] by (simp add: field_simps)
    ultimately have "2 ^ 53 \<le> ?x" by simp
    with assms(2) show False by (metis not_less of_int_less_iff of_int_numeral of_int_power)
  qed
  then obtain k where k: "ulp_exp ?x = - int k" by (metis int_nat_eq minus_equation_iff neg_0_le_iff_le nat_0_le)
  then have u: "(2::rat) powi ulp_exp ?x = 1 / 2 ^ k" by (simp add: power_int_minus field_simps)
  then have "?x / 2 powi ulp_exp ?x = of_int (n * 2 ^ k)" by simp
  then show ?thesis using n1 u by (simp only: float64_def fl_pos_def round_even_int) simp
qed (simp add: float64_def)

text \<open>A number is rounded to \<open>v\<close> units of its last place when it is nearest to that.\<close>

lemma ulp_exp_eqI:
  assumes "1 / 2 ^ 64 \<le> x" "2 ^ 52 \<le> x / 2 powi e" "x / 2 powi e < 2 ^ 53"
  shows "ulp_exp x = e"
proof (rule ccontr)
  assume "ulp_exp x \<noteq> e"
  then consider "ulp_exp x + 1 \<le> e" | "e + 1 \<le> ulp_exp x" by linarith
  then show False
  proof cases
    case 1
    then have "(2::rat) powi (ulp_exp x + 1) \<le> 2 powi e" by (intro power_int_increasing) auto
    then have "2 powi ulp_exp x * 2 \<le> (2::rat) powi e" by (simp add: power_int_add_1)
    with ulp_exp_bounds [OF assms(1)] assms(2) show False by (simp add: field_simps)
  next
    case 2
    then have "(2::rat) powi (e + 1) \<le> 2 powi ulp_exp x" by (intro power_int_increasing) auto
    then have "2 powi e * 2 \<le> (2::rat) powi ulp_exp x" by (simp add: power_int_add_1)
    with ulp_exp_bounds [OF assms(1)] assms(3) show False by (simp add: field_simps)
  qed
qed

lemma float64_eqI:
  assumes "1 / 2 ^ 64 \<le> x" "2 ^ 52 \<le> x / 2 powi e" "x / 2 powi e < 2 ^ 53"
    "\<bar>x / 2 powi e - of_int v\<bar> < 1 / 2"
  shows "float64 x = of_int v * 2 powi e"
proof -
  have "\<bar>of_int (round_even (x / 2 powi e)) - of_int v\<bar> < (1::rat)"
    using round_even_near [of "x / 2 powi e"] assms(4) by linarith
  then have "round_even (x / 2 powi e) = v" by linarith
  moreover have "0 < x" using assms(1) by (rule order.strict_trans2 [rotated]) simp
  ultimately show ?thesis using ulp_exp_eqI [OF assms(1-3)] by (simp add: float64_def fl_pos_def)
qed

subsection \<open>Scores of times\<close>

lemma frac_score:
  assumes "0 \<le> n" "n < 10 ^ 9"
  shows "float64 (of_int n / 10 ^ 9) = 0 \<and> n = 0 \<or> 1 / 2 ^ 64 \<le> float64 (of_int n / 10 ^ 9)"
    and "0 \<le> float64 (of_int n / 10 ^ 9)" "float64 (of_int n / 10 ^ 9) \<le> 1"
    and "\<bar>float64 (of_int n / 10 ^ 9) - of_int n / 10 ^ 9\<bar> \<le> 1 / 2 ^ 54"
proof -
  let ?x = "of_int n / 10 ^ 9 :: rat"
  have n0: "n = 0 \<or> 1 \<le> n" using assms by linarith
  have "?x < 1" using assms(2) by (simp add: field_simps)
  moreover have x: "?x = 0 \<and> n = 0 \<or> 1 / 10 ^ 9 \<le> ?x \<and> 1 / 2 ^ 64 \<le> ?x"
    using n0 by (auto simp: field_simps)
  ultimately have "float64 ?x \<le> float64 1" by (intro float64_mono) auto
  moreover have "float64 1 = 1" using float64_int [of 1] by simp
  ultimately show "float64 ?x \<le> 1" by metis
  have e: "?x \<noteq> 0 \<Longrightarrow> \<bar>float64 ?x - ?x\<bar> \<le> 2 ^ 0 / 2 ^ 54"
    using x \<open>?x < 1\<close> by (intro float64_error) auto
  have z: "float64 0 = 0" by (simp add: float64_def)
  then show "\<bar>float64 ?x - ?x\<bar> \<le> 1 / 2 ^ 54" using e by (cases "?x = 0") auto
  have g: "1 / 2 ^ 64 \<le> float64 ?x" if "n \<noteq> 0"
  proof -
    have "1 / 10 ^ 9 \<le> ?x" "?x \<noteq> 0" using x that by auto
    moreover have "(1::rat) / 2 ^ 64 \<le> 1 / 10 ^ 9 - 2 ^ 0 / 2 ^ 54" by simp
    ultimately show ?thesis using e unfolding abs_le_iff by linarith
  qed
  then show "float64 ?x = 0 \<and> n = 0 \<or> 1 / 2 ^ 64 \<le> float64 ?x"
    using z by (cases "n = 0") auto
  then show "0 \<le> float64 ?x" by (auto intro: order.trans [rotated])
qed

lemma Nanosecond_range: "0 \<le> Nanosecond t" "Nanosecond t < 10 ^ 9"
  by (simp_all add: Nanosecond_def Second_def)

lemmas frac_nano = frac_score [OF Nanosecond_range]

lemma scheduleScore_eq:
  "0 \<le> t \<Longrightarrow> Unix t < 2 ^ 53 \<Longrightarrow>
   scheduleScore t = float64 (of_int (Unix t) + float64 (of_int (Nanosecond t) / 10 ^ 9))"
  by (simp add: scheduleScore_def Unix_def Second_def pos_imp_zdiv_nonneg_iff)

lemma Unix_nonneg: "0 \<le> t \<Longrightarrow> 0 \<le> Unix t"
  by (simp add: Unix_def Second_def pos_imp_zdiv_nonneg_iff)

lemma score_arg:
  assumes "0 \<le> t"
  shows "of_int (Unix t) + float64 (of_int (Nanosecond t) / 10 ^ 9) = (0::rat) \<or>
    1 / 2 ^ 64 \<le> of_int (Unix t) + float64 (of_int (Nanosecond t) / 10 ^ 9)"
proof (cases "Unix t = 0")
  case True
  with frac_nano(1) [of t] show ?thesis by auto
next
  case False
  with Unix_nonneg [OF assms] have "1 \<le> Unix t" by simp
  then have "(1::rat) \<le> of_int (Unix t)" by simp
  with frac_nano(2) [of t] show ?thesis by (auto intro: order.trans [of _ 1])
qed

lemma scheduleScore_mono:
  assumes "0 \<le> t" "t \<le> u" "Unix u < 2 ^ 53"
  shows "scheduleScore t \<le> scheduleScore u"
proof -
  have ut: "Unix t \<le> Unix u" using assms(2) by (rule Unix_mono)
  have "of_int (Unix t) + float64 (of_int (Nanosecond t) / 10 ^ 9) \<le>
    (of_int (Unix u) + float64 (of_int (Nanosecond u) / 10 ^ 9) :: rat)"
  proof (cases "Unix t = Unix u")
    case True
    then have "Nanosecond t \<le> Nanosecond u"
      using assms(2) Unix_Nanosecond [of t] Unix_Nanosecond [of u] by simp
    then have "float64 (of_int (Nanosecond t) / 10 ^ 9) \<le> float64 (of_int (Nanosecond u) / 10 ^ 9)"
      using Nanosecond_range [of t]
      by (intro float64_mono) (auto simp: field_simps)
    with True show ?thesis by simp
  next
    case False
    with ut have "Unix t + 1 \<le> Unix u" by simp
    then have "(of_int (Unix t) :: rat) + 1 \<le> of_int (Unix u)"
      by (metis of_int_1 of_int_add of_int_le_iff)
    with frac_nano(3) [of t] frac_nano(2) [of u] show ?thesis by linarith
  qed
  moreover have "0 \<le> u" "Unix t < 2 ^ 53" using assms ut by linarith+
  ultimately show ?thesis
    using score_arg [OF assms(1)] scheduleScore_eq [of u] scheduleScore_eq [of t] assms
    by (metis float64_mono)
qed

lemma scheduleScore_error:
  assumes "0 \<le> t" "Unix t < 2 ^ 32 - 1"
  shows "\<bar>scheduleScore t - of_int t / 10 ^ 9\<bar> \<le> 1 / 2 ^ 22 + 1 / 2 ^ 54"
proof -
  let ?f = "float64 (of_int (Nanosecond t) / 10 ^ 9)" and ?n = "of_int (Nanosecond t) / 10 ^ 9 :: rat"
  let ?x = "of_int (Unix t) + ?f"
  have "Unix t \<le> 2 ^ 32 - 2" using assms(2) by simp
  then have "(of_int (Unix t) :: rat) \<le> of_int (2 ^ 32 - 2)" by (simp only: of_int_le_iff)
  then have "?x < 2 ^ 32" using frac_nano(3) [of t] by simp
  then have e: "\<bar>float64 ?x - ?x\<bar> \<le> 1 / 2 ^ 22"
    using float64_error [of ?x 32] score_arg [OF assms(1)] by (auto simp: float64_def)
  have "of_int t / 10 ^ 9 = (of_int (Unix t) + ?n :: rat)"
    by (subst Unix_Nanosecond [of t, symmetric]) (simp add: Second_def field_simps)
  moreover have "scheduleScore t = float64 ?x" using assms by (intro scheduleScore_eq) auto
  ultimately show ?thesis using e frac_nano(4) [of t] by linarith
qed

lemma scheduleScore_seconds: "0 \<le> s \<Longrightarrow> s < 2 ^ 53 \<Longrightarrow> scheduleScore (s * Second) = of_int s"
  by (simp add: scheduleScore_def Nanosecond_def float64_def [of 0])



text \<open>
  The integer part of a score is not always the Unix time: for the last nanosecond of a
  second, the sum rounds up to the next whole second.
\<close>

theorem scheduleScore_truncation:
  "scheduleScore 1700000000999999999 = 1700000001 \<and> Unix 1700000000999999999 = 1700000000"
proof -
  have u: "Unix 1700000000999999999 = 1700000000" "Nanosecond 1700000000999999999 = 999999999"
    by (simp_all add: Unix_def Nanosecond_def Second_def)
  have f: "float64 (of_int 999999999 / 10 ^ 9) = of_int 9007199245733793 * 2 powi (- 53)"
    by (rule float64_eqI) (simp_all add: power_int_minus field_simps)
  have "float64 (of_int 1700000000 + of_int 9007199245733793 * 2 powi (- 53)) =
    of_int (1700000001 * 2 ^ 22) * 2 powi (- 22)"
    by (rule float64_eqI) (simp_all add: power_int_minus field_simps)
  moreover have "float64 (of_int 1700000000) = of_int 1700000000" by (rule float64_int) simp_all
  ultimately have "scheduleScore 1700000000999999999 = of_int (1700000001 * 2 ^ 22) * 2 powi (- 22)"
    unfolding scheduleScore_def u f by metis
  then show ?thesis using u by (simp add: power_int_minus)
qed

end
