(* ===== verification/Sha256.thy ===== *)
theory Sha256
  imports Prelude
begin

section \<open>SHA-256 (package crypto/sha256) and hexadecimal\<close>

text \<open>
  The hash of the standard library, as FIPS 180-4 defines it, on 32-bit words.  The unique-lock
  suffix of internal/base/unique.go and the schedule identifiers of scheduler.go are built from
  it.
\<close>

unbundle bit_operations_syntax

type_synonym w32 = "32 word"

text \<open>
  The constants of the standard are the leading 32 bits of the fractional parts of the cube roots
  of the first 64 primes and of the square roots of the first eight; the integer root is found bit
  by bit, and reducing it to a word keeps the fractional part.
\<close>

definition primes_upto :: "nat \<Rightarrow> nat list" where
  "primes_upto n = filter (\<lambda>p. list_all (\<lambda>d. p mod d \<noteq> 0) [2..<p]) [2..<Suc n]"

definition iroot :: "nat \<Rightarrow> nat \<Rightarrow> nat" where
  "iroot k x = fold (\<lambda>b r. if (r + 2 ^ b) ^ k \<le> x then r + 2 ^ b else r) (rev [0..<36]) 0"

definition sha_k :: "w32 list" where
  "sha_k = map (\<lambda>p. word_of_nat (iroot 3 (p * 2 ^ 96))) (primes_upto 311)"

definition sha_init :: "w32 list" where
  "sha_init = map (\<lambda>p. word_of_nat (iroot 2 (p * 2 ^ 64))) (primes_upto 19)"

definition rotr :: "nat \<Rightarrow> w32 \<Rightarrow> w32" where
  "rotr n x = word_rotr n x"

definition Ch :: "w32 \<Rightarrow> w32 \<Rightarrow> w32 \<Rightarrow> w32" where
  "Ch x y z = (x AND y) XOR (NOT x AND z)"

definition Maj :: "w32 \<Rightarrow> w32 \<Rightarrow> w32 \<Rightarrow> w32" where
  "Maj x y z = (x AND y) XOR (x AND z) XOR (y AND z)"

definition Sigma0 :: "w32 \<Rightarrow> w32" where
  "Sigma0 x = rotr 2 x XOR rotr 13 x XOR rotr 22 x"

definition Sigma1 :: "w32 \<Rightarrow> w32" where
  "Sigma1 x = rotr 6 x XOR rotr 11 x XOR rotr 25 x"

definition sigma0 :: "w32 \<Rightarrow> w32" where
  "sigma0 x = rotr 7 x XOR rotr 18 x XOR drop_bit 3 x"

definition sigma1 :: "w32 \<Rightarrow> w32" where
  "sigma1 x = rotr 17 x XOR rotr 19 x XOR drop_bit 10 x"

text \<open>Padding to a multiple of 64 bytes: the bit 1, zeros, the length in bits as 64 bits.\<close>

definition be64 :: "nat \<Rightarrow> bytes" where
  "be64 n = map (\<lambda>i. word_of_nat (n div 256 ^ (7 - i))) [0..<8]"

definition sha_pad :: "bytes \<Rightarrow> bytes" where
  "sha_pad bs = bs @ [0x80] @ replicate ((119 - length bs mod 64) mod 64) 0 @ be64 (8 * length bs)"

fun be32 :: "bytes \<Rightarrow> w32 list" where
  "be32 (a # b # c # d # bs) =
     (push_bit 24 (ucast a) OR push_bit 16 (ucast b) OR push_bit 8 (ucast c) OR ucast d) # be32 bs"
| "be32 _ = []"

text \<open>The message schedule, latest word first while it is built.\<close>

fun msg_schedule :: "nat \<Rightarrow> w32 list \<Rightarrow> w32 list" where
  "msg_schedule 0 ws = ws"
| "msg_schedule (Suc n) ws =
     msg_schedule n ((sigma1 (ws ! 1) + ws ! 6 + sigma0 (ws ! 14) + ws ! 15) # ws)"

fun sha_round :: "w32 list \<Rightarrow> w32 \<times> w32 \<Rightarrow> w32 list" where
  "sha_round [a, b, c, d, e, f, g, h] (k, w) =
     (let t1 = h + Sigma1 e + Ch e f g + k + w; t2 = Sigma0 a + Maj a b c
      in [t1 + t2, a, b, c, d + t1, e, f, g])"
| "sha_round hs _ = hs"

definition sha_block :: "w32 list \<Rightarrow> w32 list \<Rightarrow> w32 list" where
  "sha_block hs ws =
     map2 (+) hs (foldl sha_round hs (zip sha_k (rev (msg_schedule 48 (rev ws)))))"

function sha_blocks :: "w32 list \<Rightarrow> w32 list \<Rightarrow> w32 list" where
  "sha_blocks hs ws =
     (if ws = [] then hs else sha_blocks (sha_block hs (take 16 ws)) (drop 16 ws))"
  by pat_completeness auto
termination
  by (relation "measure (length \<circ> snd)") auto

declare sha_blocks.simps [simp del]

definition bytes_of_w32 :: "w32 \<Rightarrow> bytes" where
  "bytes_of_w32 w = map (\<lambda>i. ucast (drop_bit (8 * (3 - i)) w)) [0..<4]"

definition Sum256 :: "bytes \<Rightarrow> bytes" where
  "Sum256 bs = concat (map bytes_of_w32 (sha_blocks sha_init (be32 (sha_pad bs))))"

text \<open>\<^verbatim>\<open>hex.EncodeToString\<close>.\<close>

definition hex_digit :: "nat \<Rightarrow> char" where
  "hex_digit n = (if n < 10 then char_of (48 + n) else char_of (87 + n))"

definition hex_encode :: "bytes \<Rightarrow> string" where
  "hex_encode bs = concat (map (\<lambda>b. [hex_digit (unat b div 16), hex_digit (unat b mod 16)]) bs)"

subsection \<open>Shape of a digest\<close>

lemma sha_round_length: "length hs = 8 \<Longrightarrow> length (sha_round hs kw) = 8"
  by (induction hs kw rule: sha_round.induct) (auto simp: Let_def)

lemma sha_rounds_length: "length hs = 8 \<Longrightarrow> length (foldl sha_round hs kws) = 8"
  by (induction kws arbitrary: hs) (auto simp: sha_round_length)

lemma sha_blocks_length: "length hs = 8 \<Longrightarrow> length (sha_blocks hs ws) = 8"
proof (induction hs ws rule: sha_blocks.induct)
  case (1 hs ws)
  have "length (sha_block hs (take 16 ws)) = 8"
    using 1(2) sha_rounds_length by (simp add: sha_block_def)
  with 1 show ?case by (subst sha_blocks.simps) simp
qed

lemma length_concat_const: "(\<And>x. x \<in> set xs \<Longrightarrow> length (f x) = n) \<Longrightarrow> length (concat (map f xs)) = n * length xs"
  by (induction xs) auto

lemma sha_init_length: "length sha_init = 8"
  by (simp add: sha_init_def primes_upto_def upt_conv_Cons)

lemma Sum256_length [simp]: "length (Sum256 bs) = 32"
  using sha_blocks_length [OF sha_init_length, of "be32 (sha_pad bs)"]
  by (simp add: Sum256_def length_concat_const [where n = 4] bytes_of_w32_def)

lemma hex_encode_length [simp]: "length (hex_encode bs) = 2 * length bs"
  by (simp add: hex_encode_def length_concat_const [where n = 2])

lemma of_char_hex_digit: "k < 16 \<Longrightarrow> (of_char (hex_digit k) :: nat) = (if k < 10 then 48 + k else 87 + k)"
  by (simp add: hex_digit_def of_char_of)

lemma hex_digit_inject:
  assumes "m < 16" "n < 16" "hex_digit m = hex_digit n"
  shows "m = n"
proof -
  have "(if m < 10 then 48 + m else 87 + m) = (if n < 10 then 48 + n else 87 + n)"
    using assms(3) by (simp only: of_char_hex_digit [OF assms(1), symmetric] of_char_hex_digit [OF assms(2), symmetric])
  with assms(1,2) show ?thesis by (simp split: if_splits)
qed

lemma hex_encode_inject: "hex_encode a = hex_encode b \<Longrightarrow> a = b"
proof (induction a arbitrary: b)
  case (Cons x a)
  then obtain y c where b: "b = y # c" by (cases b) (auto simp: hex_encode_def)
  have "unat z < 256" for z :: byte using unsigned_less [of z] by simp
  from this [of x] this [of y] have lt: "unat x div 16 < 16" "unat y div 16 < 16" by linarith+
  have eq: "hex_digit (unat x div 16) = hex_digit (unat y div 16)"
    "hex_digit (unat x mod 16) = hex_digit (unat y mod 16)" "hex_encode a = hex_encode c"
    using Cons.prems by (auto simp: hex_encode_def b)
  then have "unat x div 16 = unat y div 16" "unat x mod 16 = unat y mod 16"
    using hex_digit_inject lt by auto
  then have "unat x = unat y" by (metis div_mult_mod_eq)
  then have "x = y" by (metis word_unat_eq_iff)
  with Cons.IH [OF eq(3)] b show ?case by simp
qed (auto simp: hex_encode_def)

end
