(* ===== verification/Rdb_Core.thy ===== *)
theory Rdb_Core
  imports Store Score Sha256
begin

section \<open>Queue operations (internal/rdb/rdb.go, schedule.go, retry.go, forward.go)\<close>

text \<open>
  Storing a task, claiming it through the consumer group, acknowledging it, moving it to a sorted
  set and forwarding it back to the stream.  Each Lua script is a function of the keys and
  arguments that the caller passes, in the order of the source; each method of \<^verbatim>\<open>RDB\<close> is a function
  of the server \<open>R\<close>, the key layout \<open>K\<close> and its own arguments, with \<^verbatim>\<open>time.Now()\<close> passed in.  A
  method that stores a message sets its state first; the updated message is what is encoded.
\<close>

subsection \<open>Definitions\<close>

definition ConsumerGroup :: string where
  "ConsumerGroup = ''chronos''"

text \<open>The double that Redis stores for a score given as a decimal integer.\<close>

definition int_score :: "int \<Rightarrow> score" where
  "int_score n = float64 (of_int n)"

text \<open>Decoding what a hash field holds.\<close>

fun decode_body :: "rstr \<Rightarrow> TaskMessage option" where
  "decode_body (Doc j) = DecodeMessage j"
| "decode_body _ = None"

definition registerQueue :: "redis \<Rightarrow> Keys \<Rightarrow> string \<Rightarrow> unit go" where
  "registerQueue R K qname w =
     (if qname \<in> knownQueues w then (Inr (), w)
      else andthen (rt (SADD R (QueuesKey K) [qname]))
             (\<lambda>_ w. (Inr (), w\<lparr>knownQueues := insert qname (knownQueues w)\<rparr>)) w)"

definition enqueueCmd ::
  "redis \<Rightarrow> string \<Rightarrow> string \<Rightarrow> string \<Rightarrow> string \<Rightarrow> rstr \<Rightarrow> rstr \<Rightarrow> string \<Rightarrow> int cmd" where
  "enqueueCmd R k1 k2 k3 k4 a1 a2 a3 =
     call (HSET R k1 [(''msg'', a1), (''state'', a2)]) (\<lambda>_.
     call (XADD R k2 a3) (\<lambda>_.
     call (ZREM R k3 a3) (\<lambda>_.
     call (ZREM R k4 a3) (\<lambda>_.
     ret 1))))"

definition Enqueue :: "redis \<Rightarrow> Keys \<Rightarrow> TaskMessage \<Rightarrow> unit go" where
  "Enqueue R K msg0 =
     (let msg = msg0\<lparr>State := StatePending\<rparr>
      in andthen (registerQueue R K (Queue msg)) (\<lambda>_.
         andthen (rt (enqueueCmd R (TaskKey K (Queue msg) (ID msg)) (StreamKey K (Queue msg))
                        (CompletedKey K (Queue msg)) (ArchivedKey K (Queue msg))
                        (Doc (EncodeMessage msg)) (Num StatePending) (ID msg))) (\<lambda>_.
         return ())))"

definition EnsureGroup :: "redis \<Rightarrow> Keys \<Rightarrow> string \<Rightarrow> unit go" where
  "EnsureGroup R K qname w =
     (case rt (XGROUP_CREATE R (StreamKey K qname) ConsumerGroup) w of
        (Inl e, w') \<Rightarrow> if e = RedisErr BusyGroup then (Inr (), w') else (Inl e, w')
      | (Inr _, w') \<Rightarrow> (Inr (), w'))"

record Dequeued =
  Msg :: TaskMessage
  StreamID :: sid

text \<open>
  Sorting the replies of the first pipeline: bodies that decode become tasks, entries without a
  body are orphans, entries whose body does not decode are left alone.
\<close>

fun collect :: "(sid \<times> string) list \<Rightarrow> (rerr + rstr option) list \<Rightarrow> Dequeued list \<times> sid list" where
  "collect ((i, v) # es) (r # rs) =
     (case collect es rs of (tasks, orphans) \<Rightarrow>
        (case r of
           Inr None \<Rightarrow> (tasks, i # orphans)
         | Inr (Some raw) \<Rightarrow>
             (case decode_body raw of
                None \<Rightarrow> (tasks, orphans)
              | Some msg \<Rightarrow> (\<lparr>Msg = msg\<lparr>State := StateActive\<rparr>, StreamID = i\<rparr> # tasks, orphans))
         | Inl e \<Rightarrow> (tasks, orphans)))"
| "collect _ _ = ([], [])"

definition blockArg :: "duration \<Rightarrow> int option" where
  "blockArg block = (if block \<le> 0 then None else Some (Milliseconds block))"

definition dropOrphans :: "redis \<Rightarrow> string \<Rightarrow> sid list \<Rightarrow> world \<Rightarrow> world" where
  "dropOrphans R streamKey orphans w =
     (if orphans = [] then w
      else snd (rt (tx [XACK R streamKey ConsumerGroup orphans, XDEL R streamKey orphans]) w))"

definition DequeueBatch ::
  "redis \<Rightarrow> Keys \<Rightarrow> string \<Rightarrow> duration \<Rightarrow> string \<Rightarrow> int \<Rightarrow> Dequeued list go" where
  "DequeueBatch R K consumer block qname count0 w =
     (let count = (if count0 < 1 then 1 else count0); streamKey = StreamKey K qname
      in case rt (XREADGROUP R ConsumerGroup consumer streamKey (nat count) (blockArg block)) w of
           (Inl e, w1) \<Rightarrow> (Inl e, w1)
         | (Inr None, w1) \<Rightarrow> (Inl ErrNoTask, w1)
         | (Inr (Some es), w1) \<Rightarrow>
             if es = [] then (Inl ErrNoTask, w1)
             else (case pipeline (map (\<lambda>(i, v). HGET R (TaskKey K qname v) ''msg'') es) w1 of
                     (Inl e, w2) \<Rightarrow> (Inl e, w2)
                   | (Inr rs, w2) \<Rightarrow>
                       (case first_err rs of
                          Inl e \<Rightarrow> (Inl (RedisErr e), w2)
                        | Inr _ \<Rightarrow>
                            (case collect es rs of (tasks, orphans) \<Rightarrow>
                               (let w3 = dropOrphans R streamKey orphans w2
                                in if tasks = [] then (Inl ErrNoTask, w3)
                                   else (case pipeline (map (\<lambda>d. HSET R
                                             (TaskKey K qname (ID (Msg d)))
                                             [(''state'', Num StateActive)]) tasks) w3 of
                                           (Inl e, w4) \<Rightarrow> (Inl e, w4)
                                         | (Inr rs', w4) \<Rightarrow>
                                             (case first_err rs' of
                                                Inl e \<Rightarrow> (Inl (RedisErr e), w4)
                                              | Inr _ \<Rightarrow> (Inr tasks, w4))))))))"

definition Dequeue :: "redis \<Rightarrow> Keys \<Rightarrow> string \<Rightarrow> duration \<Rightarrow> string \<Rightarrow> (TaskMessage \<times> sid) go" where
  "Dequeue R K consumer block qname =
     andthen (DequeueBatch R K consumer block qname 1) (\<lambda>tasks.
       return (Msg (hd tasks), StreamID (hd tasks)))"

definition requeueCmd ::
  "redis \<Rightarrow> string \<Rightarrow> string \<Rightarrow> string \<Rightarrow> sid \<Rightarrow> string \<Rightarrow> rstr \<Rightarrow> int cmd" where
  "requeueCmd R k1 k2 a1 a2 a3 a4 =
     call (XACK R k1 a1 [a2]) (\<lambda>_.
     call (XDEL R k1 [a2]) (\<lambda>_.
     call (EXISTS R k2) (\<lambda>x.
     if x then
       call (HSET R k2 [(''state'', a4)]) (\<lambda>_.
       call (XADD R k1 a3) (\<lambda>_.
       ret 1))
     else ret 1)))"

definition Requeue :: "redis \<Rightarrow> Keys \<Rightarrow> string \<Rightarrow> sid \<Rightarrow> TaskMessage \<Rightarrow> unit go" where
  "Requeue R K qname streamID msg =
     andthen (rt (requeueCmd R (StreamKey K qname) (TaskKey K qname (ID msg))
                    ConsumerGroup streamID (ID msg) (Num StatePending))) (\<lambda>_.
     return ())"

definition releaseUniqueCmd :: "redis \<Rightarrow> string \<Rightarrow> string \<Rightarrow> int cmd" where
  "releaseUniqueCmd R k1 a1 =
     call (GET R k1) (\<lambda>v.
     if v = Some (Txt a1) then call (DEL R [k1]) (\<lambda>_. ret 1) else ret 1)"

definition releaseUnique :: "redis \<Rightarrow> TaskMessage \<Rightarrow> unit go" where
  "releaseUnique R msg =
     (if UniqueLock msg = [] then return ()
      else andthen (rt (releaseUniqueCmd R (UniqueLock msg) (ID msg))) (\<lambda>_. return ()))"

definition moveToZSetCmd ::
  "redis \<Rightarrow> string \<Rightarrow> string \<Rightarrow> string \<Rightarrow> string \<Rightarrow> sid \<Rightarrow> rstr \<Rightarrow> rstr \<Rightarrow> score \<Rightarrow> string \<Rightarrow> int cmd"
where
  "moveToZSetCmd R k1 k2 k3 a1 a2 a3 a4 a5 a6 =
     call (XACK R k1 a1 [a2]) (\<lambda>_.
     call (XDEL R k1 [a2]) (\<lambda>_.
     call (HSET R k2 [(''msg'', a3), (''state'', a4)]) (\<lambda>_.
     call (ZADD R k3 a5 a6) (\<lambda>_.
     ret 1))))"

definition moveToZSet ::
  "redis \<Rightarrow> Keys \<Rightarrow> string \<Rightarrow> sid \<Rightarrow> TaskMessage \<Rightarrow> string \<Rightarrow> TaskState \<Rightarrow> int \<Rightarrow> unit go" where
  "moveToZSet R K qname streamID msg0 zsetKey state score =
     (let msg = msg0\<lparr>State := state\<rparr>
      in andthen (rt (moveToZSetCmd R (StreamKey K qname) (TaskKey K qname (ID msg)) zsetKey
                        ConsumerGroup streamID (Doc (EncodeMessage msg)) (Num state)
                        (int_score score) (ID msg))) (\<lambda>_.
         return ()))"

definition Retry :: "redis \<Rightarrow> Keys \<Rightarrow> string \<Rightarrow> sid \<Rightarrow> TaskMessage \<Rightarrow> time \<Rightarrow> unit go" where
  "Retry R K qname streamID msg retryAt =
     moveToZSet R K qname streamID msg (RetryKey K qname) StateRetry (Unix retryAt)"

definition Archive :: "redis \<Rightarrow> Keys \<Rightarrow> string \<Rightarrow> sid \<Rightarrow> TaskMessage \<Rightarrow> time \<Rightarrow> unit go" where
  "Archive R K qname streamID msg diedAt =
     andthen (moveToZSet R K qname streamID msg (ArchivedKey K qname) StateArchived (Unix diedAt))
       (\<lambda>_. releaseUnique R msg)"

definition Done :: "redis \<Rightarrow> Keys \<Rightarrow> time \<Rightarrow> string \<Rightarrow> sid \<Rightarrow> TaskMessage \<Rightarrow> unit go" where
  "Done R K now qname streamID msg =
     (if 0 < Retention msg then
        (let msg' = msg\<lparr>CompletedAt := Unix now\<rparr>
         in andthen (moveToZSet R K qname streamID msg' (CompletedKey K qname) StateCompleted
                       (Unix now + Retention msg)) (\<lambda>_.
            releaseUnique R msg'))
      else
        andthen (rt (tx [XACK R (StreamKey K qname) ConsumerGroup [streamID],
                         XDEL R (StreamKey K qname) [streamID],
                         DEL R [TaskKey K qname (ID msg)]])) (\<lambda>_.
        releaseUnique R msg))"

definition scheduleCmd ::
  "redis \<Rightarrow> string \<Rightarrow> string \<Rightarrow> string \<Rightarrow> string \<Rightarrow> rstr \<Rightarrow> rstr \<Rightarrow> score \<Rightarrow> string \<Rightarrow> int cmd" where
  "scheduleCmd R k1 k2 k3 k4 a1 a2 a3 a4 =
     call (HSET R k1 [(''msg'', a1), (''state'', a2)]) (\<lambda>_.
     call (ZADD R k2 a3 a4) (\<lambda>_.
     call (ZREM R k3 a4) (\<lambda>_.
     call (ZREM R k4 a4) (\<lambda>_.
     ret 1))))"

definition Schedule :: "redis \<Rightarrow> Keys \<Rightarrow> TaskMessage \<Rightarrow> time \<Rightarrow> unit go" where
  "Schedule R K msg0 processAt =
     (let msg = msg0\<lparr>State := StateScheduled\<rparr>
      in andthen (registerQueue R K (Queue msg)) (\<lambda>_.
         andthen (rt (scheduleCmd R (TaskKey K (Queue msg) (ID msg)) (ScheduledKey K (Queue msg))
                        (CompletedKey K (Queue msg)) (ArchivedKey K (Queue msg))
                        (Doc (EncodeMessage msg)) (Num StateScheduled) (scheduleScore processAt)
                        (ID msg))) (\<lambda>_.
         return ())))"

definition forwardCmd ::
  "redis \<Rightarrow> string \<Rightarrow> string \<Rightarrow> score \<Rightarrow> int \<Rightarrow> string \<Rightarrow> rstr \<Rightarrow> int cmd" where
  "forwardCmd R k1 k2 a1 a2 a3 a4 =
     call (ZRANGEBYSCORE R k1 a1 a2) (\<lambda>ids.
     call (foreach ids (\<lambda>id.
       call (XADD R k2 id) (\<lambda>_.
       call (HSET R (a3 @ id) [(''state'', a4)]) (\<lambda>_.
       call (ZREM R k1 id) (\<lambda>_.
       ret ()))))) (\<lambda>_.
     ret (int (length ids))))"

definition ForwardRetry :: "redis \<Rightarrow> Keys \<Rightarrow> string \<Rightarrow> time \<Rightarrow> int \<Rightarrow> int go" where
  "ForwardRetry R K qname now maxn =
     rt (forwardCmd R (RetryKey K qname) (StreamKey K qname) (int_score (Unix now)) maxn
           (TaskKeyPrefix K qname) (Num StatePending))"

definition ForwardScheduled :: "redis \<Rightarrow> Keys \<Rightarrow> string \<Rightarrow> time \<Rightarrow> int \<Rightarrow> int go" where
  "ForwardScheduled R K qname now maxn =
     rt (forwardCmd R (ScheduledKey K qname) (StreamKey K qname) (scheduleScore now) maxn
           (TaskKeyPrefix K qname) (Num StatePending))"

subsection \<open>What the scripts do\<close>

lemma foreach_run:
  assumes "P d" "\<And>x d. x \<in> set xs \<Longrightarrow> P d \<Longrightarrow> f x d = (Inr (), g x d) \<and> P (g x d)"
  shows "foreach xs f d = (Inr (), fold g xs d) \<and> P (fold g xs d)"
  using assms
proof (induction xs arbitrary: d)
  case (Cons x xs)
  then have "f x d = (Inr (), g x d)" "P (g x d)" by simp_all
  then show ?case using Cons.IH [of "g x d"] Cons.prems(2) by simp
qed simp

text \<open>Storing a body, and the write sets of the scripts in terms of the effects.\<close>

definition store :: "Keys \<Rightarrow> string \<Rightarrow> string \<Rightarrow> rstr \<Rightarrow> TaskState \<Rightarrow> keyspace \<Rightarrow> keyspace" where
  "store K q i body st = hput (TaskKey K q i) [(''msg'', body), (''state'', Num st)]"

definition set_state :: "Keys \<Rightarrow> string \<Rightarrow> TaskState \<Rightarrow> string \<Rightarrow> keyspace \<Rightarrow> keyspace" where
  "set_state K q st i = hput (TaskKey K q i) [(''state'', Num st)]"

definition drop_entry :: "Keys \<Rightarrow> string \<Rightarrow> sid list \<Rightarrow> keyspace \<Rightarrow> keyspace" where
  "drop_entry K q is d =
     upd_stream (StreamKey K q) (s_del is) (upd_stream (StreamKey K q) (s_ack ConsumerGroup is) d)"

definition unlist :: "Keys \<Rightarrow> string \<Rightarrow> string \<Rightarrow> keyspace \<Rightarrow> keyspace" where
  "unlist K q i d = zdel (ArchivedKey K q) i (zdel (CompletedKey K q) i d)"

definition forward_one :: "redis \<Rightarrow> Keys \<Rightarrow> string \<Rightarrow> string \<Rightarrow> string \<Rightarrow> keyspace \<Rightarrow> keyspace" where
  "forward_one R K q z i d = zdel z i (set_state K q StatePending i (xpush R (StreamKey K q) i d))"

lemmas write_defs = store_def set_state_def drop_entry_def unlist_def forward_one_def

lemma wt_writes [simp]:
  "wt K d \<Longrightarrow> qname_ok q \<Longrightarrow> wt K (store K q i b st d)"
  "wt K d \<Longrightarrow> qname_ok q \<Longrightarrow> wt K (set_state K q st i d)"
  "wt K d \<Longrightarrow> qname_ok q \<Longrightarrow> wt K (drop_entry K q is d)"
  "wt K d \<Longrightarrow> qname_ok q \<Longrightarrow> wt K (unlist K q i d)"
  by (simp_all add: write_defs key_render)

context redis_laws
begin

lemma registerQueue_run:
  "wt K d \<Longrightarrow> SADD R (QueuesKey K) [q] d = (Inr (), sput (QueuesKey K) [q] d)"
  by (simp add: key_render typed_commands)

lemma enqueueCmd_run:
  "wt K d \<Longrightarrow> qname_ok q \<Longrightarrow>
   enqueueCmd R (TaskKey K q i) (StreamKey K q) (CompletedKey K q) (ArchivedKey K q) b (Num st) i d =
     (Inr 1, unlist K q i (xpush R (StreamKey K q) i (store K q i b st d)))"
  by (simp add: enqueueCmd_def write_defs key_render typed_commands)

lemma scheduleCmd_run:
  "wt K d \<Longrightarrow> qname_ok q \<Longrightarrow>
   scheduleCmd R (TaskKey K q i) (ScheduledKey K q) (CompletedKey K q) (ArchivedKey K q) b (Num st) x i d =
     (Inr 1, unlist K q i (zput (ScheduledKey K q) x i (store K q i b st d)))"
  by (simp add: scheduleCmd_def write_defs key_render typed_commands)

lemma requeueCmd_run:
  "wt K d \<Longrightarrow> qname_ok q \<Longrightarrow>
   requeueCmd R (StreamKey K q) (TaskKey K q i) ConsumerGroup sid i (Num st) d =
     (Inr 1, if d (TaskKey K q i) = None then drop_entry K q [sid] d
             else xpush R (StreamKey K q) i (set_state K q st i (drop_entry K q [sid] d)))"
  by (cases "d (TaskKey K q i) = None")
    (auto simp: requeueCmd_def write_defs key_render typed_commands bool_calls)

lemma releaseUniqueCmd_run:
  "wt K d \<Longrightarrow> qname_ok q \<Longrightarrow>
   releaseUniqueCmd R (UniqueKey K q s) i d =
     (Inr 1, if e_str (d (UniqueKey K q s)) = Some (Txt i) then kdel (UniqueKey K q s) d else d)"
  by (simp add: releaseUniqueCmd_def key_render typed_commands untyped_commands)

lemma moveToZSetCmd_run:
  assumes "wt K d" "qname_ok q" "z = RetryKey K q \<or> z = ArchivedKey K q \<or> z = CompletedKey K q"
  shows "moveToZSetCmd R (StreamKey K q) (TaskKey K q i) z ConsumerGroup sid b (Num st) x i d =
     (Inr 1, zput z x i (store K q i b st (drop_entry K q [sid] d)))"
  using assms(3)
  by (elim disjE) (simp_all add: assms(1,2) moveToZSetCmd_def write_defs key_render typed_commands)

lemma ack_run:
  "wt K d \<Longrightarrow> qname_ok q \<Longrightarrow>
   tx [XACK R (StreamKey K q) ConsumerGroup is, XDEL R (StreamKey K q) is] d = (Inr (), drop_entry K q is d)"
  by (simp add: write_defs key_render typed_commands)

lemma done_run:
  "wt K d \<Longrightarrow> qname_ok q \<Longrightarrow>
   tx [XACK R (StreamKey K q) ConsumerGroup [sid], XDEL R (StreamKey K q) [sid], DEL R [TaskKey K q i]] d =
     (Inr (), kdel (TaskKey K q i) (drop_entry K q [sid] d))"
  by (simp add: write_defs key_render typed_commands untyped_commands)

lemma forwardCmd_run:
  assumes "wt K d" "qname_ok q" "z = RetryKey K q \<or> z = ScheduledKey K q"
  shows "forwardCmd R z (StreamKey K q) x n (TaskKeyPrefix K q) (Num StatePending) d =
     (let ids = z_upto x n (e_zset (d z))
      in (Inr (int (length ids)), fold (forward_one R K q z) ids d))"
    and "wt K (fold (forward_one R K q z) ids d)"
proof -
  let ?f = "\<lambda>i. call (XADD R (StreamKey K q) i) (\<lambda>_.
       call (HSET R (TaskKeyPrefix K q @ i) [(''state'', Num StatePending)]) (\<lambda>_.
       call (ZREM R z i) (\<lambda>_. ret ())))"
  have step: "?f i d = (Inr (), forward_one R K q z i d) \<and> wt K (forward_one R K q z i d)"
    if "wt K d" for i d
    using assms(3)
    by (elim disjE) (simp_all add: that assms(2) TaskKeyPrefix_TaskKey write_defs key_render
        typed_commands)
  note loop = foreach_run [where P = "wt K" and f = ?f, OF assms(1) step]
  show "wt K (fold (forward_one R K q z) ids d)" using loop by simp
  have "ZRANGEBYSCORE R z x n d = (Inr (z_upto x n (e_zset (d z))), d)"
    using assms(3) by (elim disjE) (simp_all add: assms(1,2) key_render typed_commands)
  then show "forwardCmd R z (StreamKey K q) x n (TaskKeyPrefix K q) (Num StatePending) d =
     (let ids = z_upto x n (e_zset (d z))
      in (Inr (int (length ids)), fold (forward_one R K q z) ids d))"
    using loop by (simp add: forwardCmd_def Let_def)
qed

end

end
