(* ===== verification/Rdb_Dedup.thy ===== *)
theory Rdb_Dedup
  imports Rdb_Core
begin

section \<open>Locks (internal/rdb/unique.go, periodic.go, chain.go, heartbeat.go, leader.go)\<close>

text \<open>
  The operations that create something at most once or hold it for a while: the unique lock of a
  task, the dedup key of a periodic trigger, the create-if-absent enqueue of a chain successor,
  the lease of a claimed stream entry and the leadership of the scheduler.
\<close>

subsection \<open>Definitions\<close>

definition UniqueSuffix :: "string \<Rightarrow> bytes \<Rightarrow> string" where
  "UniqueSuffix kind payload = kind @ '':'' @ hex_encode (Sum256 payload)"

definition enqueueUniqueCmd ::
  "redis \<Rightarrow> string \<Rightarrow> string \<Rightarrow> string \<Rightarrow> string \<Rightarrow> string \<Rightarrow> string \<Rightarrow> int \<Rightarrow> rstr \<Rightarrow> rstr \<Rightarrow> int cmd"
where
  "enqueueUniqueCmd R k1 k2 k3 k4 k5 a1 a2 a3 a4 =
     call (SET_NX_PX R k1 (Txt a1) a2) (\<lambda>ok.
     if \<not> ok then ret (- 1)
     else
       call (HSET R k2 [(''msg'', a3), (''state'', a4)]) (\<lambda>_.
       call (XADD R k3 a1) (\<lambda>_.
       call (ZREM R k4 a1) (\<lambda>_.
       call (ZREM R k5 a1) (\<lambda>_.
       ret 1)))))"

definition scheduleUniqueCmd ::
  "redis \<Rightarrow> string \<Rightarrow> string \<Rightarrow> string \<Rightarrow> string \<Rightarrow> string \<Rightarrow>
   string \<Rightarrow> int \<Rightarrow> rstr \<Rightarrow> rstr \<Rightarrow> score \<Rightarrow> int cmd"
where
  "scheduleUniqueCmd R k1 k2 k3 k4 k5 a1 a2 a3 a4 a5 =
     call (SET_NX_PX R k1 (Txt a1) a2) (\<lambda>ok.
     if \<not> ok then ret (- 1)
     else
       call (HSET R k2 [(''msg'', a3), (''state'', a4)]) (\<lambda>_.
       call (ZADD R k3 a5 a1) (\<lambda>_.
       call (ZREM R k4 a1) (\<lambda>_.
       call (ZREM R k5 a1) (\<lambda>_.
       ret 1)))))"

definition uniqueTTLMillis :: "duration \<Rightarrow> int" where
  "uniqueTTLMillis ttl = (let ms = Milliseconds ttl in if ms < 1 then 1 else ms)"

definition EnqueueUnique :: "redis \<Rightarrow> Keys \<Rightarrow> TaskMessage \<Rightarrow> duration \<Rightarrow> unit go" where
  "EnqueueUnique R K msg0 uniqueTTL =
     (let msg = msg0\<lparr>UniqueLock := UniqueKey K (Queue msg0) (UniqueSuffix (Kind msg0) (Payload msg0)),
                     State := StatePending\<rparr>
      in andthen (registerQueue R K (Queue msg)) (\<lambda>_.
         andthen (rt (enqueueUniqueCmd R (UniqueLock msg) (TaskKey K (Queue msg) (ID msg))
                        (StreamKey K (Queue msg)) (CompletedKey K (Queue msg))
                        (ArchivedKey K (Queue msg)) (ID msg) (uniqueTTLMillis uniqueTTL)
                        (Doc (EncodeMessage msg)) (Num StatePending))) (\<lambda>res.
         if res = - 1 then fail ErrDuplicateTask else return ())))"

definition ScheduleUnique ::
  "redis \<Rightarrow> Keys \<Rightarrow> TaskMessage \<Rightarrow> time \<Rightarrow> duration \<Rightarrow> unit go" where
  "ScheduleUnique R K msg0 processAt uniqueTTL =
     (let msg = msg0\<lparr>UniqueLock := UniqueKey K (Queue msg0) (UniqueSuffix (Kind msg0) (Payload msg0)),
                     State := StateScheduled\<rparr>
      in andthen (registerQueue R K (Queue msg)) (\<lambda>_.
         andthen (rt (scheduleUniqueCmd R (UniqueLock msg) (TaskKey K (Queue msg) (ID msg))
                        (ScheduledKey K (Queue msg)) (CompletedKey K (Queue msg))
                        (ArchivedKey K (Queue msg)) (ID msg) (uniqueTTLMillis uniqueTTL)
                        (Doc (EncodeMessage msg)) (Num StateScheduled)
                        (scheduleScore processAt))) (\<lambda>res.
         if res = - 1 then fail ErrDuplicateTask else return ())))"

definition enqueuePeriodicCmd ::
  "redis \<Rightarrow> string \<Rightarrow> string \<Rightarrow> string \<Rightarrow> string \<Rightarrow> string \<Rightarrow> string \<Rightarrow> int \<Rightarrow> rstr \<Rightarrow> rstr \<Rightarrow> int cmd"
where
  "enqueuePeriodicCmd R k1 k2 k3 k4 k5 a1 a2 a3 a4 =
     call (SET_NX_PX R k1 (Txt ''1'') a2) (\<lambda>ok.
     if \<not> ok then ret (- 1)
     else
       call (HSET R k2 [(''msg'', a3), (''state'', a4)]) (\<lambda>_.
       call (XADD R k3 a1) (\<lambda>_.
       call (ZREM R k4 a1) (\<lambda>_.
       call (ZREM R k5 a1) (\<lambda>_.
       ret 1)))))"

definition EnqueuePeriodic ::
  "redis \<Rightarrow> Keys \<Rightarrow> TaskMessage \<Rightarrow> string \<Rightarrow> duration \<Rightarrow> unit go" where
  "EnqueuePeriodic R K msg0 triggerID dedupTTL =
     (let dedupKey = PeriodicDedupKey K (Queue msg0) triggerID;
          msg = msg0\<lparr>State := StatePending\<rparr>
      in andthen (registerQueue R K (Queue msg)) (\<lambda>_.
         let ms = (if Milliseconds dedupTTL < 1 then 1 else Milliseconds dedupTTL)
         in andthen (rt (enqueuePeriodicCmd R dedupKey (TaskKey K (Queue msg) (ID msg))
                           (StreamKey K (Queue msg)) (CompletedKey K (Queue msg))
                           (ArchivedKey K (Queue msg)) (ID msg) ms
                           (Doc (EncodeMessage msg)) (Num StatePending))) (\<lambda>res.
            if res = - 1 then fail ErrDuplicateTask else return ())))"

definition SetLastFired :: "redis \<Rightarrow> Keys \<Rightarrow> string \<Rightarrow> time \<Rightarrow> unit go" where
  "SetLastFired R K scheduleID when =
     rt (SET R (ScheduleLastFiredKey K scheduleID) (Num (Unix when)))"

text \<open>\<^verbatim>\<open>strconv.ParseInt(raw, 10, 64)\<close> on what a string key holds.\<close>

definition ParseInt :: "rstr \<Rightarrow> int option" where
  "ParseInt v = (case v of Num n \<Rightarrow> if int64_ok n then Some n else None | _ \<Rightarrow> None)"

text \<open>The pair of a time and a flag of the source is an optional time.\<close>

definition GetLastFired :: "redis \<Rightarrow> Keys \<Rightarrow> string \<Rightarrow> time option go" where
  "GetLastFired R K scheduleID =
     andthen (rt (GET R (ScheduleLastFiredKey K scheduleID))) (\<lambda>raw.
       case raw of
         None \<Rightarrow> return None
       | Some v \<Rightarrow> (case ParseInt v of None \<Rightarrow> fail ErrParse | Some sec \<Rightarrow> return (Some (sec * Second))))"

definition chainEnqueueCmd ::
  "redis \<Rightarrow> string \<Rightarrow> string \<Rightarrow> rstr \<Rightarrow> rstr \<Rightarrow> string \<Rightarrow> int cmd" where
  "chainEnqueueCmd R k1 k2 a1 a2 a3 =
     call (EXISTS R k1) (\<lambda>x.
     if x then ret 0
     else
       call (HSET R k1 [(''msg'', a1), (''state'', a2)]) (\<lambda>_.
       call (XADD R k2 a3) (\<lambda>_.
       ret 1)))"

definition chainScheduleCmd ::
  "redis \<Rightarrow> string \<Rightarrow> string \<Rightarrow> rstr \<Rightarrow> rstr \<Rightarrow> score \<Rightarrow> string \<Rightarrow> int cmd" where
  "chainScheduleCmd R k1 k2 a1 a2 a3 a4 =
     call (EXISTS R k1) (\<lambda>x.
     if x then ret 0
     else
       call (HSET R k1 [(''msg'', a1), (''state'', a2)]) (\<lambda>_.
       call (ZADD R k2 a3 a4) (\<lambda>_.
       ret 1)))"

definition EnqueueChainLink ::
  "redis \<Rightarrow> Keys \<Rightarrow> time \<Rightarrow> TaskMessage \<Rightarrow> duration \<Rightarrow> bool go" where
  "EnqueueChainLink R K now msg0 delay =
     andthen (registerQueue R K (Queue msg0)) (\<lambda>_.
     if 0 < delay then
       (let msg = msg0\<lparr>State := StateScheduled\<rparr>
        in andthen (rt (chainScheduleCmd R (TaskKey K (Queue msg) (ID msg))
                          (ScheduledKey K (Queue msg)) (Doc (EncodeMessage msg))
                          (Num StateScheduled) (int_score (Unix (now + delay))) (ID msg))) (\<lambda>n.
           return (n = 1)))
     else
       (let msg = msg0\<lparr>State := StatePending\<rparr>
        in andthen (rt (chainEnqueueCmd R (TaskKey K (Queue msg) (ID msg))
                          (StreamKey K (Queue msg)) (Doc (EncodeMessage msg))
                          (Num StatePending) (ID msg))) (\<lambda>n.
           return (n = 1))))"

definition ExtendLease :: "redis \<Rightarrow> Keys \<Rightarrow> string \<Rightarrow> string \<Rightarrow> sid list \<Rightarrow> unit go" where
  "ExtendLease R K qname consumer streamIDs =
     (if streamIDs = [] then return ()
      else rt (XCLAIM_JUSTID R (StreamKey K qname) ConsumerGroup consumer 0 streamIDs))"

definition renewUniqueCmd :: "redis \<Rightarrow> string \<Rightarrow> int \<Rightarrow> int cmd" where
  "renewUniqueCmd R k1 a1 =
     call (PTTL R k1) (\<lambda>ttl.
     if 0 \<le> ttl \<and> ttl < a1 then call (PEXPIRE R k1 a1) (\<lambda>_. ret 1) else ret 1)"

definition RenewUnique :: "redis \<Rightarrow> string list \<Rightarrow> duration \<Rightarrow> unit go" where
  "RenewUnique R uniqueKeys ttl =
     (if uniqueKeys = [] then return ()
      else andthen (pipeline (map (\<lambda>k. renewUniqueCmd R k (uniqueTTLMillis ttl)) uniqueKeys)) (\<lambda>rs.
           case first_err rs of Inl e \<Rightarrow> fail (RedisErr e) | Inr _ \<Rightarrow> return ()))"

definition acquireOrRenewCmd :: "redis \<Rightarrow> string \<Rightarrow> string \<Rightarrow> int \<Rightarrow> int cmd" where
  "acquireOrRenewCmd R k1 a1 a2 =
     call (GET R k1) (\<lambda>cur.
     if cur = None then call (SET_PX R k1 (Txt a1) a2) (\<lambda>_. ret 1)
     else if cur = Some (Txt a1) then call (PEXPIRE R k1 a2) (\<lambda>_. ret 1)
     else ret 0)"

definition resignCmd :: "redis \<Rightarrow> string \<Rightarrow> string \<Rightarrow> int cmd" where
  "resignCmd R k1 a1 =
     call (GET R k1) (\<lambda>cur.
     if cur = Some (Txt a1) then call (DEL R [k1]) (\<lambda>_. ret 1) else ret 0)"

definition AcquireOrRenewLeadership :: "redis \<Rightarrow> Keys \<Rightarrow> string \<Rightarrow> duration \<Rightarrow> bool go" where
  "AcquireOrRenewLeadership R K instanceID ttl =
     (let ms = (if Milliseconds ttl < 1 then 1 else Milliseconds ttl)
      in andthen (rt (acquireOrRenewCmd R (LeaderKey K) instanceID ms)) (\<lambda>res. return (res = 1)))"

definition ResignLeadership :: "redis \<Rightarrow> Keys \<Rightarrow> string \<Rightarrow> unit go" where
  "ResignLeadership R K instanceID =
     andthen (rt (resignCmd R (LeaderKey K) instanceID)) (\<lambda>_.
       rt (PUBLISH R (LeaderResignChannel K) instanceID))"

subsection \<open>What the scripts do\<close>

context redis_laws
begin

lemma enqueueUniqueCmd_run:
  "wt K d \<Longrightarrow> qname_ok q \<Longrightarrow> 0 < ms \<Longrightarrow>
   enqueueUniqueCmd R (UniqueKey K q u) (TaskKey K q i) (StreamKey K q) (CompletedKey K q)
     (ArchivedKey K q) i ms b (Num st) d =
   (if d (UniqueKey K q u) = None
    then (Inr 1, unlist K q i (xpush R (StreamKey K q) i (store K q i b st
           (vput (UniqueKey K q u) (Txt i) (Some ms) d))))
    else (Inr (- 1), d))"
  by (simp add: enqueueUniqueCmd_def write_defs key_render typed_commands bool_calls)

lemma scheduleUniqueCmd_run:
  "wt K d \<Longrightarrow> qname_ok q \<Longrightarrow> 0 < ms \<Longrightarrow>
   scheduleUniqueCmd R (UniqueKey K q u) (TaskKey K q i) (ScheduledKey K q) (CompletedKey K q)
     (ArchivedKey K q) i ms b (Num st) x d =
   (if d (UniqueKey K q u) = None
    then (Inr 1, unlist K q i (zput (ScheduledKey K q) x i (store K q i b st
           (vput (UniqueKey K q u) (Txt i) (Some ms) d))))
    else (Inr (- 1), d))"
  by (simp add: scheduleUniqueCmd_def write_defs key_render typed_commands bool_calls)

lemma enqueuePeriodicCmd_run:
  "wt K d \<Longrightarrow> qname_ok q \<Longrightarrow> 0 < ms \<Longrightarrow>
   enqueuePeriodicCmd R (PeriodicDedupKey K q u) (TaskKey K q i) (StreamKey K q) (CompletedKey K q)
     (ArchivedKey K q) i ms b (Num st) d =
   (if d (PeriodicDedupKey K q u) = None
    then (Inr 1, unlist K q i (xpush R (StreamKey K q) i (store K q i b st
           (vput (PeriodicDedupKey K q u) (Txt ''1'') (Some ms) d))))
    else (Inr (- 1), d))"
  by (simp add: enqueuePeriodicCmd_def write_defs key_render typed_commands bool_calls)

lemma chainEnqueueCmd_run:
  "wt K d \<Longrightarrow> qname_ok q \<Longrightarrow>
   chainEnqueueCmd R (TaskKey K q i) (StreamKey K q) b (Num st) i d =
   (if d (TaskKey K q i) = None then (Inr 1, xpush R (StreamKey K q) i (store K q i b st d))
    else (Inr 0, d))"
  by (simp add: chainEnqueueCmd_def write_defs key_render typed_commands bool_calls)

lemma chainScheduleCmd_run:
  "wt K d \<Longrightarrow> qname_ok q \<Longrightarrow>
   chainScheduleCmd R (TaskKey K q i) (ScheduledKey K q) b (Num st) x i d =
   (if d (TaskKey K q i) = None then (Inr 1, zput (ScheduledKey K q) x i (store K q i b st d))
    else (Inr 0, d))"
  by (simp add: chainScheduleCmd_def write_defs key_render typed_commands bool_calls)

lemma renewUniqueCmd_run:
  "renewUniqueCmd R k ms d =
   (Inr 1, if 0 \<le> e_pttl (d k) \<and> e_pttl (d k) < ms then tput k ms d else d)"
  by (simp add: renewUniqueCmd_def untyped_commands)

lemma acquireOrRenewCmd_run:
  "wt K d \<Longrightarrow> 0 < ms \<Longrightarrow> acquireOrRenewCmd R (LeaderKey K) inst ms d =
   (case e_str (d (LeaderKey K)) of
      None \<Rightarrow> (Inr 1, vput (LeaderKey K) (Txt inst) (Some ms) d)
    | Some v \<Rightarrow> if v = Txt inst then (Inr 1, tput (LeaderKey K) ms d) else (Inr 0, d))"
  by (simp add: acquireOrRenewCmd_def key_render typed_commands untyped_commands split: option.split)

lemma resignCmd_run:
  "wt K d \<Longrightarrow> resignCmd R (LeaderKey K) inst d =
   (if e_str (d (LeaderKey K)) = Some (Txt inst) then (Inr 1, kdel (LeaderKey K) d) else (Inr 0, d))"
  by (simp add: resignCmd_def key_render typed_commands untyped_commands)

end

end
