(* ===== verification/Rdb_Group.thy ===== *)
theory Rdb_Group
  imports Rdb_Dedup
begin

section \<open>Groups (internal/rdb/group.go)\<close>

text \<open>
  The pending-member set of a group, the reports of its members and the creation of the callback
  when the last member has reported, with the collected results embedded in the callback's
  message.
\<close>

subsection \<open>Definitions\<close>

definition GroupTTL :: duration where
  "GroupTTL = 7 * 24 * Hour"

definition GroupTTL_secs :: int where
  "GroupTTL_secs = quot GroupTTL Second"

lemma GroupTTL_secs_eq: "GroupTTL_secs = 604800"
  by (simp add: GroupTTL_secs_def GroupTTL_def Hour_def Second_def quot_def)

text \<open>A Lua string of the result hash; the hash holds base64 text only.\<close>

fun rstr_text :: "rstr \<Rightarrow> string" where
  "rstr_text (Txt s) = s"
| "rstr_text (Num n) = dec_int n"
| "rstr_text (Doc j) = []"

text \<open>\<^verbatim>\<open>for i = 0, n - 1\<close>: the result of every member index, \<^verbatim>\<open>cjson.null\<close> where there is none.\<close>

fun results_loop :: "redis \<Rightarrow> string \<Rightarrow> nat \<Rightarrow> int \<Rightarrow> json list cmd" where
  "results_loop R k 0 i = ret []"
| "results_loop R k (Suc n) i =
     call (HGET R k (dec_int i)) (\<lambda>v.
     call (results_loop R k n (i + 1)) (\<lambda>rs.
     ret ((case v of None \<Rightarrow> JNull | Some s \<Rightarrow> JStr (rstr_text s)) # rs)))"

text \<open>\<^verbatim>\<open>msg["group_results"] = results\<close> on a decoded Lua table.\<close>

fun jset :: "json \<Rightarrow> string \<Rightarrow> json \<Rightarrow> json" where
  "jset (JObj f) k v = JObj (f(k \<mapsto> v))"
| "jset j k v = j"

definition groupCompleteCmd ::
  "redis \<Rightarrow> string \<Rightarrow> string \<Rightarrow> string \<Rightarrow> string \<Rightarrow> string \<Rightarrow> json \<Rightarrow> rstr \<Rightarrow> string \<Rightarrow> string \<Rightarrow>
   score \<Rightarrow> int \<Rightarrow> string \<Rightarrow> int \<Rightarrow> int \<Rightarrow> int cmd" where
  "groupCompleteCmd R k1 k2 k3 k4 a1 a2 a3 a4 a5 a6 a7 a8 a9 a10 =
     call (EXISTS R k1) (\<lambda>x.
     if \<not> x then ret 0
     else
       call (SREM R k1 a1) (\<lambda>_.
       call (if a8 \<noteq> []
             then call (HSET R k4 [(dec_int a9, Txt a8)]) (\<lambda>_. EXPIRE R k4 a7)
             else ret ()) (\<lambda>_.
       call (SCARD R k1) (\<lambda>n.
       if 0 < n then
         call (EXPIRE R k1 a7) (\<lambda>_.
         call (EXISTS R k4) (\<lambda>y.
         call (if y then EXPIRE R k4 a7 else ret ()) (\<lambda>_.
         ret 0)))
       else
         call (EXISTS R k4) (\<lambda>y.
         call (if y \<and> 0 < a10
               then call (results_loop R k4 (nat a10) 0) (\<lambda>results.
                    ret (cjson_encode R (jset (cjson_decode R a2) ''group_results'' (JArr results))))
               else ret a2) (\<lambda>cb.
         call (DEL R [k1, k4]) (\<lambda>_.
         call (EXISTS R k2) (\<lambda>z.
         if z then ret 0
         else
           call (HSET R k2 [(''msg'', Doc cb), (''state'', a3)]) (\<lambda>_.
           if a5 = ''stream'' then call (XADD R k3 a4) (\<lambda>_. ret 1)
           else call (ZADD R k3 a6 a4) (\<lambda>_. ret 1)))))))))) "

definition CreateGroup :: "redis \<Rightarrow> Keys \<Rightarrow> string \<Rightarrow> string \<Rightarrow> string list \<Rightarrow> unit go" where
  "CreateGroup R K cbQueue groupID memberIDs =
     (if memberIDs = [] then fail ErrGroupEmpty
      else rt (tx [SADD R (GroupKey K cbQueue groupID) memberIDs,
                   EXPIRE R (GroupKey K cbQueue groupID) GroupTTL_secs]))"

datatype GroupStageState = GroupStageDone | GroupStageExists | GroupStageCreated

definition createGroupIfAbsentCmd ::
  "redis \<Rightarrow> string \<Rightarrow> string \<Rightarrow> string \<Rightarrow> int \<Rightarrow> string list \<Rightarrow> GroupStageState cmd" where
  "createGroupIfAbsentCmd R k1 k2 k3 a1 members =
     call (EXISTS R k2) (\<lambda>x.
     if x then ret GroupStageDone
     else
       call (EXISTS R k1) (\<lambda>y.
       if y then call (EXPIRE R k1 a1) (\<lambda>_. ret GroupStageExists)
       else
         call (foreach members (\<lambda>m. SADD R k1 [m])) (\<lambda>_.
         call (EXPIRE R k1 a1) (\<lambda>_.
         call (DEL R [k3]) (\<lambda>_.
         ret GroupStageCreated)))))"

definition CreateGroupIfAbsent ::
  "redis \<Rightarrow> Keys \<Rightarrow> string \<Rightarrow> string \<Rightarrow> string list \<Rightarrow> string \<Rightarrow> GroupStageState go" where
  "CreateGroupIfAbsent R K cbQueue groupID memberIDs cbTaskID =
     (if memberIDs = [] then fail ErrGroupEmpty
      else rt (createGroupIfAbsentCmd R (GroupKey K cbQueue groupID) (TaskKey K cbQueue cbTaskID)
                 (GroupResultKey K cbQueue groupID) GroupTTL_secs memberIDs))"

text \<open>The callback message that a member carries as a snapshot.\<close>

definition callbackMessage :: "TaskMessage \<Rightarrow> ChainLink \<Rightarrow> TaskMessage" where
  "callbackMessage member link =
     (let cb = zeroMessage\<lparr>ID := GroupID member @ '':cb'', Kind := L_Kind link,
                 Payload := L_Payload link, Queue := L_Queue link, MaxRetry := L_MaxRetry link,
                 NoArchive := L_NoArchive link, Retention := L_Retention link\<rparr>
      in if GroupCallbackChain member \<noteq> []
         then cb\<lparr>Chain := GroupCallbackChain member, ChainID := ChainID member,
                 ChainIndex := ChainIndex member\<rparr>
         else cb)"

definition memberSlot :: "TaskMessage \<Rightarrow> string" where
  "memberSlot member = (if GroupMemberID member = [] then ID member else GroupMemberID member)"

definition resultB64 :: "TaskMessage \<Rightarrow> string" where
  "resultB64 member = (if Result member \<noteq> [] then b64_encode (Result member) else [])"

definition CompleteGroupMember :: "redis \<Rightarrow> Keys \<Rightarrow> time \<Rightarrow> TaskMessage \<Rightarrow> bool go" where
  "CompleteGroupMember R K now member =
     (case GroupCallback member of
        None \<Rightarrow> fail ErrNoCallback
      | Some link \<Rightarrow>
          if GroupQueue member \<noteq> L_Queue link then fail ErrCallbackQueue
          else
            (let cb0 = callbackMessage member link
             in andthen (registerQueue R K (Queue cb0)) (\<lambda>_.
                let delayed = 0 < L_Delay link;
                    mode = (if delayed then ''zset'' else ''stream'');
                    state = (if delayed then StateScheduled else StatePending);
                    score = (if delayed then Unix (now + int64 (L_Delay link * Second)) else 0);
                    destKey = (if delayed then ScheduledKey K (Queue cb0) else StreamKey K (Queue cb0));
                    cb = cb0\<lparr>State := state\<rparr>
                in andthen (rt (groupCompleteCmd R
                       (GroupKey K (GroupQueue member) (GroupID member))
                       (TaskKey K (Queue cb) (ID cb)) destKey
                       (GroupResultKey K (GroupQueue member) (GroupID member))
                       (memberSlot member) (EncodeMessage cb) (Num state) (ID cb) mode
                       (int_score score) GroupTTL_secs (resultB64 member)
                       (GroupIndex member) (GroupSize member))) (\<lambda>n.
                   return (n = 1)))))"

definition GroupMembers :: "redis \<Rightarrow> Keys \<Rightarrow> string \<Rightarrow> string \<Rightarrow> string list go" where
  "GroupMembers R K cbQueue groupID = rt (SMEMBERS R (GroupKey K cbQueue groupID))"

definition GroupPending :: "redis \<Rightarrow> Keys \<Rightarrow> string \<Rightarrow> string \<Rightarrow> int go" where
  "GroupPending R K cbQueue groupID = rt (SCARD R (GroupKey K cbQueue groupID))"

subsection \<open>What the scripts do\<close>

definition result_json :: "(string \<Rightarrow> rstr option) \<Rightarrow> nat \<Rightarrow> json" where
  "result_json h i =
     (case h (dec_int (int i)) of None \<Rightarrow> JNull | Some s \<Rightarrow> JStr (rstr_text s))"

definition embed_results :: "redis \<Rightarrow> json \<Rightarrow> entry \<Rightarrow> int \<Rightarrow> json" where
  "embed_results R j e n =
     (if e \<noteq> None \<and> 0 < n
      then cjson_encode R (jset (cjson_decode R j) ''group_results''
             (JArr (map (result_json (e_hash e)) [0..<nat n])))
      else j)"

definition report :: "Keys \<Rightarrow> string \<Rightarrow> string \<Rightarrow> string \<Rightarrow> int \<Rightarrow> string \<Rightarrow> keyspace \<Rightarrow> keyspace" where
  "report K q g m idx res d =
     (let d1 = sdel (GroupKey K q g) m d
      in if res = [] then d1
         else tput (GroupResultKey K q g) (1000 * GroupTTL_secs)
                (hput (GroupResultKey K q g) [(dec_int idx, Txt res)] d1))"

definition refresh :: "Keys \<Rightarrow> string \<Rightarrow> string \<Rightarrow> keyspace \<Rightarrow> keyspace" where
  "refresh K q g d =
     (let d1 = tput (GroupKey K q g) (1000 * GroupTTL_secs) d
      in if d (GroupResultKey K q g) = None then d1
         else tput (GroupResultKey K q g) (1000 * GroupTTL_secs) d1)"

definition close_group :: "Keys \<Rightarrow> string \<Rightarrow> string \<Rightarrow> keyspace \<Rightarrow> keyspace" where
  "close_group K q g d = kdel (GroupResultKey K q g) (kdel (GroupKey K q g) d)"

lemma wt_group [simp]:
  "wt K d \<Longrightarrow> qname_ok q \<Longrightarrow> wt K (report K q g m idx res d)"
  "wt K d \<Longrightarrow> qname_ok q \<Longrightarrow> wt K (refresh K q g d)"
  "wt K d \<Longrightarrow> qname_ok q \<Longrightarrow> wt K (close_group K q g d)"
  by (simp_all add: report_def refresh_def close_group_def Let_def key_render)

context redis_laws
begin

lemma results_loop_run:
  assumes "wt K d" "qname_ok q"
  shows "results_loop R (GroupResultKey K q g) n (int i) d =
    (Inr (map (result_json (e_hash (d (GroupResultKey K q g)))) [i..<i + n]), d)"
proof (induction n arbitrary: i)
  case (Suc n)
  have "HGET R (GroupResultKey K q g) (dec_int (int i)) d =
      (Inr (e_hash (d (GroupResultKey K q g)) (dec_int (int i))), d)"
    using assms by (simp add: key_render typed_commands)
  then show ?case
    using Suc [of "Suc i"] by (simp add: result_json_def upt_rec [of i] ac_simps)
qed simp

lemma card_gt_0: "wt K d \<Longrightarrow> rkey_ok rk \<Longrightarrow> 0 < card (e_set (d (render K rk))) \<longleftrightarrow> e_set (d (render K rk)) \<noteq> {}"
  using wt_parts(3) [of K d rk] by (simp add: card_gt_0_iff)

lemma createGroupIfAbsentCmd_run:
  assumes "wt K d" "qname_ok q"
  shows "createGroupIfAbsentCmd R (GroupKey K q g) (TaskKey K q i) (GroupResultKey K q g)
      GroupTTL_secs ms d =
    (if d (TaskKey K q i) \<noteq> None then (Inr GroupStageDone, d)
     else if d (GroupKey K q g) \<noteq> None
     then (Inr GroupStageExists, tput (GroupKey K q g) (1000 * GroupTTL_secs) d)
     else (Inr GroupStageCreated, kdel (GroupResultKey K q g) (tput (GroupKey K q g)
             (1000 * GroupTTL_secs) (fold (\<lambda>m. sput (GroupKey K q g) [m]) ms d))))"
proof -
  have "SADD R (GroupKey K q g) [m] d = (Inr (), sput (GroupKey K q g) [m] d) \<and>
      wt K (sput (GroupKey K q g) [m] d)" if "wt K d" for m d
    using that assms(2) by (simp add: key_render typed_commands)
  then have "foreach ms (\<lambda>m. SADD R (GroupKey K q g) [m]) d =
      (Inr (), fold (\<lambda>m. sput (GroupKey K q g) [m]) ms d)"
    using foreach_run [of "wt K" d ms "\<lambda>m. SADD R (GroupKey K q g) [m]" "\<lambda>m. sput (GroupKey K q g) [m]"]
      assms(1) by blast
  then show ?thesis
    by (simp add: createGroupIfAbsentCmd_def bool_calls untyped_commands)
qed

lemma report_run:
  "wt K d \<Longrightarrow> qname_ok q \<Longrightarrow>
   call (SREM R (GroupKey K q g) m) (\<lambda>_.
     call (if res \<noteq> []
           then call (HSET R (GroupResultKey K q g) [(dec_int idx, Txt res)])
                  (\<lambda>_. EXPIRE R (GroupResultKey K q g) GroupTTL_secs)
           else ret ()) f) d = f () (report K q g m idx res d)"
  by (cases "res = []") (simp_all add: report_def key_render typed_commands untyped_commands)

lemma refresh_run:
  "call (EXPIRE R (GroupKey K q g) GroupTTL_secs) (\<lambda>_.
     call (EXISTS R (GroupResultKey K q g)) (\<lambda>y.
     call (if y then EXPIRE R (GroupResultKey K q g) GroupTTL_secs else ret ()) f)) d =
   f () (refresh K q g d)" if "qname_ok q"
proof -
  have "GroupResultKey K q g \<noteq> GroupKey K q g" using that by (simp add: key_render)
  then show ?thesis
    by (cases "d (GroupResultKey K q g) = None")
      (auto simp: refresh_def Let_def bool_calls untyped_commands)
qed

lemma embed_run:
  assumes "wt K d" "qname_ok q"
  shows "call (EXISTS R (GroupResultKey K q g)) (\<lambda>y.
      call (if y \<and> 0 < n
            then call (results_loop R (GroupResultKey K q g) (nat n) 0) (\<lambda>results.
                 ret (cjson_encode R (jset (cjson_decode R cb) ''group_results'' (JArr results))))
            else ret cb) f) d =
    f (embed_results R cb (d (GroupResultKey K q g)) n) d"
  using results_loop_run [OF assms, of g "nat n" 0] unfolding bool_calls embed_results_def by simp

lemma scard_run:
  "wt K d \<Longrightarrow> qname_ok q \<Longrightarrow>
   call (SCARD R (GroupKey K q g)) (\<lambda>n. if 0 < n then f else h) d =
   (if e_set (d (GroupKey K q g)) \<noteq> {} then f d else h d)"
  using card_gt_0 [of K d "KGroup q g"] by (simp add: key_render typed_commands)

text \<open>
  The script on the keys of a group, by cases: the set is gone; members remain; the last member
  has reported and the callback exists already; the callback is created.
\<close>

lemma groupCompleteCmd_run:
  assumes "wt K d" "qname_ok q"
    and "mode = ''stream'' \<and> dest = StreamKey K q \<or> mode = ''zset'' \<and> dest = ScheduledKey K q"
  shows "groupCompleteCmd R (GroupKey K q g) (TaskKey K q i) dest (GroupResultKey K q g)
      m cb (Num st) i mode x GroupTTL_secs res idx n d =
    (let d1 = report K q g m idx res d;
         cb' = embed_results R cb (d1 (GroupResultKey K q g)) n;
         d2 = store K q i (Doc cb') st (close_group K q g d1)
     in if d (GroupKey K q g) = None then (Inr 0, d)
        else if e_set (d1 (GroupKey K q g)) \<noteq> {} then (Inr 0, refresh K q g d1)
        else if d (TaskKey K q i) \<noteq> None then (Inr 0, close_group K q g d1)
        else (Inr 1, if mode = ''stream'' then xpush R (StreamKey K q) i d2
                     else zput (ScheduledKey K q) x i d2))"
proof -
  let ?d1 = "report K q g m idx res d"
  let ?cb = "embed_results R cb (?d1 (GroupResultKey K q g)) n"
  have wt1: "wt K ?d1" using assms(1,2) by simp
  have task: "close_group K q g ?d1 (TaskKey K q i) = d (TaskKey K q i)"
    using assms(2) by (simp add: close_group_def report_def Let_def key_render)
  have del: "DEL R [GroupKey K q g, GroupResultKey K q g] ?d1 = (Inr (), close_group K q g ?d1)"
    by (simp add: untyped_commands close_group_def)
  let ?D = "close_group K q g ?d1"
  have create: "call (HSET R (TaskKey K q i) [(''msg'', Doc ?cb), (''state'', Num st)]) (\<lambda>_.
      if mode = ''stream'' then call (XADD R dest i) (\<lambda>_. ret 1)
      else call (ZADD R dest x i) (\<lambda>_. ret 1)) ?D =
    (Inr 1, if mode = ''stream'' then xpush R (StreamKey K q) i (store K q i (Doc ?cb) st ?D)
            else zput (ScheduledKey K q) x i (store K q i (Doc ?cb) st ?D))"
    using assms(2,3) wt1 by (elim disjE conjE) (simp_all add: store_def key_render typed_commands)
  show ?thesis
    unfolding groupCompleteCmd_def bool_calls(1) [of "GroupKey K q g"] Let_def
    using assms(1,2) wt1 del create task
    by (cases "mode = ''stream''")
      (auto simp: bool_calls(1) [of "TaskKey K q i"] report_run scard_run refresh_run embed_run)
qed

end

end
