(* ===== verification/Rdb_Admin.thy ===== *)
theory Rdb_Admin
  imports Rdb_Group
begin

section \<open>Maintenance and inspection (internal/rdb/recover.go, janitor.go, pause.go, registry.go, inspect.go)\<close>

text \<open>
  Reclaiming abandoned entries, trimming the archived and completed sets, pausing queues, the
  schedule registry and the read-only and administrative operations behind the inspector.
\<close>

subsection \<open>Recovery\<close>

text \<open>
  The loop over the claimed entries.  It carries the number of recovered tasks, the archived
  messages in order and the last error.
\<close>

fun recoverLoop ::
  "redis \<Rightarrow> Keys \<Rightarrow> time \<Rightarrow> string \<Rightarrow> (sid \<times> string) list \<Rightarrow>
   int \<times> TaskMessage list \<times> err option \<Rightarrow> world \<Rightarrow> (int \<times> TaskMessage list \<times> err option) \<times> world"
where
  "recoverLoop R K now qname [] acc w = (acc, w)"
| "recoverLoop R K now qname ((sid, taskID) # ms) (recovered, archived, lastErr) w =
     (case rt (HGET R (TaskKey K qname taskID) ''msg'') w of
        (Inl e, w1) \<Rightarrow> recoverLoop R K now qname ms (recovered, archived, Some e) w1
      | (Inr None, w1) \<Rightarrow>
          recoverLoop R K now qname ms (recovered, archived, lastErr)
            (snd (rt (tx [XACK R (StreamKey K qname) ConsumerGroup [sid],
                          XDEL R (StreamKey K qname) [sid]]) w1))
      | (Inr (Some raw), w1) \<Rightarrow>
          (case decode_body raw of
             None \<Rightarrow> recoverLoop R K now qname ms (recovered, archived, Some ErrDecode) w1
           | Some msg \<Rightarrow>
               if MaxRetry msg \<le> Retried msg then
                 (case Archive R K qname sid msg now w1 of
                    (Inl e, w2) \<Rightarrow> recoverLoop R K now qname ms (recovered, archived, Some e) w2
                  | (Inr _, w2) \<Rightarrow>
                      recoverLoop R K now qname ms
                        (recovered, archived @ [msg\<lparr>State := StateArchived\<rparr>], lastErr) w2)
               else
                 (case Retry R K qname sid (msg\<lparr>Retried := Retried msg + 1\<rparr>) now w1 of
                    (Inl e, w2) \<Rightarrow> recoverLoop R K now qname ms (recovered, archived, Some e) w2
                  | (Inr _, w2) \<Rightarrow>
                      recoverLoop R K now qname ms (recovered + 1, archived, lastErr) w2)))"

definition Recover ::
  "redis \<Rightarrow> Keys \<Rightarrow> time \<Rightarrow> string \<Rightarrow> string \<Rightarrow> duration \<Rightarrow> int \<Rightarrow> world \<Rightarrow>
   (int \<times> TaskMessage list \<times> err option) \<times> world" where
  "Recover R K now qname consumer minIdle maxn w =
     (case rt (XAUTOCLAIM R (StreamKey K qname) ConsumerGroup consumer (Milliseconds minIdle)
                 (nat maxn)) w of
        (Inl e, w1) \<Rightarrow> ((0, [], Some e), w1)
      | (Inr msgs, w1) \<Rightarrow> recoverLoop R K now qname msgs (0, [], None) w1)"

subsection \<open>Janitor\<close>

definition trim_ids :: "redis \<Rightarrow> string \<Rightarrow> string \<Rightarrow> string list \<Rightarrow> unit cmd" where
  "trim_ids R k1 a3 ids =
     foreach ids (\<lambda>id. call (DEL R [a3 @ id]) (\<lambda>_. call (ZREM R k1 id) (\<lambda>_. ret ())))"

definition trimArchivedCmd ::
  "redis \<Rightarrow> string \<Rightarrow> score \<Rightarrow> int \<Rightarrow> string \<Rightarrow> int \<Rightarrow> int cmd" where
  "trimArchivedCmd R k1 a1 batch a3 maxSize =
     call (ZRANGEBYSCORE R k1 a1 batch) (\<lambda>expired.
     call (trim_ids R k1 a3 expired) (\<lambda>_.
     let removed = int (length expired)
     in if 0 \<le> maxSize then
          call (ZCARD R k1) (\<lambda>n.
          let over = n - maxSize
          in if 0 < over then
               (let over = (if batch < over then batch else over)
                in call (ZRANGE R k1 (over - 1)) (\<lambda>excess.
                   call (trim_ids R k1 a3 (map snd excess)) (\<lambda>_.
                   ret (removed + int (length excess)))))
             else ret removed)
        else ret removed))"

definition TrimArchived :: "redis \<Rightarrow> Keys \<Rightarrow> string \<Rightarrow> time \<Rightarrow> int \<Rightarrow> int \<Rightarrow> int go" where
  "TrimArchived R K qname cutoff maxSize batch =
     rt (trimArchivedCmd R (ArchivedKey K qname) (int_score (Unix cutoff)) batch
           (TaskKeyPrefix K qname) maxSize)"

definition TrimCompleted :: "redis \<Rightarrow> Keys \<Rightarrow> string \<Rightarrow> time \<Rightarrow> int \<Rightarrow> int \<Rightarrow> int go" where
  "TrimCompleted R K qname now maxSize batch =
     rt (trimArchivedCmd R (CompletedKey K qname) (int_score (Unix now)) batch
           (TaskKeyPrefix K qname) maxSize)"

subsection \<open>Pausing\<close>

definition PauseQueue :: "redis \<Rightarrow> Keys \<Rightarrow> string \<Rightarrow> unit go" where
  "PauseQueue R K qname = rt (SADD R (PausedKey K) [qname])"

definition ResumeQueue :: "redis \<Rightarrow> Keys \<Rightarrow> string \<Rightarrow> unit go" where
  "ResumeQueue R K qname = rt (SREM R (PausedKey K) qname)"

definition PausedQueues :: "redis \<Rightarrow> Keys \<Rightarrow> string list go" where
  "PausedQueues R K = rt (SMEMBERS R (PausedKey K))"

subsection \<open>Schedule registry\<close>

record ScheduleMeta =
  S_ID :: string
  S_Kind :: string
  S_Queue :: string
  S_Spec :: string
  RegisteredAt :: int
  LastSeen :: int

definition encode_meta :: "ScheduleMeta \<Rightarrow> json" where
  "encode_meta m = obj
     [(''kind'', jstr (S_Kind m)), (''queue'', jstr (S_Queue m)), (''spec'', jstr (S_Spec m)),
      (''registered_at'', jint (RegisteredAt m)), (''last_seen'', jint (LastSeen m))]"

definition decode_meta :: "rstr \<Rightarrow> ScheduleMeta option" where
  "decode_meta v = (case v of Doc j \<Rightarrow>
     (if \<not> is_object j then None else do {
        k \<leftarrow> dstr (jfield j ''kind''); q \<leftarrow> dstr (jfield j ''queue'');
        s \<leftarrow> dstr (jfield j ''spec''); r \<leftarrow> dint (jfield j ''registered_at'');
        l \<leftarrow> dint (jfield j ''last_seen'');
        Some \<lparr>S_ID = [], S_Kind = k, S_Queue = q, S_Spec = s, RegisteredAt = r, LastSeen = l\<rparr> })
   | _ \<Rightarrow> None)"

definition RegisterSchedules :: "redis \<Rightarrow> Keys \<Rightarrow> time \<Rightarrow> ScheduleMeta list \<Rightarrow> unit go" where
  "RegisterSchedules R K now metas =
     (if metas = [] then return ()
      else rt (HSET R (SchedulesKey K)
                 (map (\<lambda>m. (S_ID m, Doc (encode_meta (m\<lparr>RegisteredAt := Unix now, LastSeen := Unix now\<rparr>))))
                    metas)))"

fun touch_pairs :: "time \<Rightarrow> string list \<Rightarrow> rstr option list \<Rightarrow> (string \<times> rstr) list" where
  "touch_pairs now (i # ids) (v # vs) =
     (case v of
        None \<Rightarrow> touch_pairs now ids vs
      | Some raw \<Rightarrow>
          (case decode_meta raw of
             None \<Rightarrow> touch_pairs now ids vs
           | Some m \<Rightarrow> (i, Doc (encode_meta (m\<lparr>LastSeen := Unix now\<rparr>))) # touch_pairs now ids vs))"
| "touch_pairs now _ _ = []"

definition TouchSchedules :: "redis \<Rightarrow> Keys \<Rightarrow> time \<Rightarrow> string list \<Rightarrow> unit go" where
  "TouchSchedules R K now ids =
     (if ids = [] then return ()
      else andthen (rt (HMGET R (SchedulesKey K) ids)) (\<lambda>vals.
           let pairs = touch_pairs now ids vals
           in if pairs = [] then return () else rt (HSET R (SchedulesKey K) pairs)))"

definition prune_fields :: "string list \<Rightarrow> int \<Rightarrow> (string \<times> rstr) list \<Rightarrow> string list" where
  "prune_fields keepIDs cutoff all =
     map fst (filter (\<lambda>(i, raw). i \<notin> set keepIDs \<and>
       (case decode_meta raw of None \<Rightarrow> False | Some m \<Rightarrow> LastSeen m < cutoff)) all)"

text \<open>The deletions of the last-fired keys are best effort: their errors are dropped.\<close>

fun delLastFired :: "redis \<Rightarrow> Keys \<Rightarrow> string list \<Rightarrow> world \<Rightarrow> world" where
  "delLastFired R K [] w = w"
| "delLastFired R K (f # fs) w =
     delLastFired R K fs (snd (rt (DEL R [ScheduleLastFiredKey K f]) w))"

definition PruneSchedules :: "redis \<Rightarrow> Keys \<Rightarrow> string list \<Rightarrow> time \<Rightarrow> int go" where
  "PruneSchedules R K keepIDs staleBefore =
     andthen (rt (HGETALL R (SchedulesKey K))) (\<lambda>all.
     let fields = prune_fields keepIDs (Unix staleBefore) all
     in if fields = [] then return 0
        else andthen (rt (HDEL R (SchedulesKey K) fields)) (\<lambda>_ w.
             (Inr (int (length fields)), delLastFired R K fields w)))"

definition ListSchedules :: "redis \<Rightarrow> Keys \<Rightarrow> ScheduleMeta list go" where
  "ListSchedules R K =
     andthen (rt (HGETALL R (SchedulesKey K))) (\<lambda>all.
     return (List.map_filter (\<lambda>(i, raw). map_option (\<lambda>m. m\<lparr>S_ID := i\<rparr>) (decode_meta raw)) all))"

subsection \<open>Inspection\<close>

record QueueStats =
  QS_Queue :: string
  QS_Pending :: int
  QS_Active :: int
  QS_Scheduled :: int
  QS_Retry :: int
  QS_Archived :: int
  QS_Completed :: int

definition queueActive :: "redis \<Rightarrow> string \<Rightarrow> int go" where
  "queueActive R streamKey w =
     (case rt (XPENDING R streamKey ConsumerGroup) w of
        (Inr n, w') \<Rightarrow> (Inr n, w')
      | (Inl e, w') \<Rightarrow> if e = RedisErr NoGroup then (Inr 0, w') else (Inl e, w'))"

definition queueStats :: "redis \<Rightarrow> Keys \<Rightarrow> string \<Rightarrow> QueueStats go" where
  "queueStats R K qname =
     andthen (rt (XLEN R (StreamKey K qname))) (\<lambda>xlen.
     andthen (queueActive R (StreamKey K qname)) (\<lambda>active.
     andthen (rt (ZCARD R (ScheduledKey K qname))) (\<lambda>scheduled.
     andthen (rt (ZCARD R (RetryKey K qname))) (\<lambda>retry.
     andthen (rt (ZCARD R (ArchivedKey K qname))) (\<lambda>archived.
     andthen (rt (ZCARD R (CompletedKey K qname))) (\<lambda>completed.
     let streamPending = (if xlen - active < 0 then 0 else xlen - active)
     in return \<lparr>QS_Queue = qname, QS_Pending = streamPending, QS_Active = active,
          QS_Scheduled = scheduled, QS_Retry = retry, QS_Archived = archived,
          QS_Completed = completed\<rparr>))))))"

definition Queues :: "redis \<Rightarrow> Keys \<Rightarrow> string list go" where
  "Queues R K = rt (SMEMBERS R (QueuesKey K))"

definition GroupMemberIDs :: "redis \<Rightarrow> Keys \<Rightarrow> string \<Rightarrow> string \<Rightarrow> string list go" where
  "GroupMemberIDs R K cbQueue groupID = rt (SMEMBERS R (GroupKey K cbQueue groupID))"

definition LeaderID :: "redis \<Rightarrow> Keys \<Rightarrow> string go" where
  "LeaderID R K =
     andthen (rt (GET R (LeaderKey K))) (\<lambda>v.
     return (case v of None \<Rightarrow> [] | Some s \<Rightarrow> rstr_text s))"

record ScheduleFireInfo =
  F_ID :: string
  F_LastFired :: int

text \<open>
  The scan of the last-fired keys on a single server: every key that it yields is read, keys that
  are gone or do not hold a number are skipped.
\<close>

definition TrimPrefix :: "string \<Rightarrow> string \<Rightarrow> string" where
  "TrimPrefix s p = (case strip p s of Some r \<Rightarrow> r | None \<Rightarrow> s)"

definition TrimSuffix :: "string \<Rightarrow> string \<Rightarrow> string" where
  "TrimSuffix s p = (case strip_end p s of Some r \<Rightarrow> r | None \<Rightarrow> s)"

fun scanLoop :: "redis \<Rightarrow> string \<Rightarrow> string \<Rightarrow> string list \<Rightarrow> ScheduleFireInfo list \<Rightarrow> ScheduleFireInfo list go"
where
  "scanLoop R pre suf [] acc w = (Inr acc, w)"
| "scanLoop R pre suf (key # ks) acc w =
     (case rt (GET R key) w of
        (Inl e, w') \<Rightarrow> (Inl e, w')
      | (Inr None, w') \<Rightarrow> scanLoop R pre suf ks acc w'
      | (Inr (Some raw), w') \<Rightarrow>
          (case ParseInt raw of
             None \<Rightarrow> scanLoop R pre suf ks acc w'
           | Some ts \<Rightarrow>
               scanLoop R pre suf ks
                 (acc @ [\<lparr>F_ID = TrimSuffix (TrimPrefix key pre) suf, F_LastFired = ts\<rparr>]) w'))"

definition ScanSchedules :: "redis \<Rightarrow> Keys \<Rightarrow> ScheduleFireInfo list go" where
  "ScanSchedules R K =
     (let pattern = ScheduleLastFiredKey K ''*'';
          pre = takeWhile (\<lambda>c. c \<noteq> CHR ''*'') pattern;
          suf = drop (length pre + 1) pattern
      in andthen (rt (SCAN R pre suf)) (\<lambda>ks. scanLoop R pre suf ks []))"

definition GetTask :: "redis \<Rightarrow> Keys \<Rightarrow> string \<Rightarrow> string \<Rightarrow> TaskMessage go" where
  "GetTask R K qname taskID =
     andthen (rt (HGET R (TaskKey K qname taskID) ''msg'')) (\<lambda>raw.
     case raw of
       None \<Rightarrow> fail RedisNil
     | Some v \<Rightarrow> (case decode_body v of None \<Rightarrow> fail ErrDecode | Some m \<Rightarrow> return m))"

record ZSetTask =
  Z_Msg :: TaskMessage
  Z_Score :: score

fun listLoop :: "redis \<Rightarrow> Keys \<Rightarrow> string \<Rightarrow> (score \<times> string) list \<Rightarrow> ZSetTask list go" where
  "listLoop R K qname [] w = (Inr [], w)"
| "listLoop R K qname ((x, i) # zs) w =
     (case GetTask R K qname i w of
        (Inl e, w') \<Rightarrow> if e = RedisNil then listLoop R K qname zs w' else (Inl e, w')
      | (Inr m, w') \<Rightarrow>
          andthen (listLoop R K qname zs) (\<lambda>ts. return (\<lparr>Z_Msg = m, Z_Score = x\<rparr> # ts)) w')"

definition ListZSetTasks :: "redis \<Rightarrow> Keys \<Rightarrow> string \<Rightarrow> string \<Rightarrow> int \<Rightarrow> ZSetTask list go" where
  "ListZSetTasks R K qname zsetKey limit =
     (if limit \<le> 0 then return []
      else andthen (rt (ZRANGE R zsetKey (limit - 1))) (listLoop R K qname))"

definition ZScore :: "redis \<Rightarrow> string \<Rightarrow> string \<Rightarrow> score option go" where
  "ZScore R zsetKey taskID = rt (ZSCORE R zsetKey taskID)"

definition taskState :: "redis \<Rightarrow> Keys \<Rightarrow> string \<Rightarrow> string \<Rightarrow> TaskState go" where
  "taskState R K qname taskID =
     andthen (rt (HGET R (TaskKey K qname taskID) ''state'')) (\<lambda>v.
     case v of
       None \<Rightarrow> fail RedisNil
     | Some s \<Rightarrow> (case ParseInt s of None \<Rightarrow> fail ErrParse | Some n \<Rightarrow> return n))"

definition runTaskCmd ::
  "redis \<Rightarrow> string \<Rightarrow> string \<Rightarrow> string \<Rightarrow> string \<Rightarrow> string \<Rightarrow> string \<Rightarrow> string \<Rightarrow> rstr \<Rightarrow> int cmd" where
  "runTaskCmd R k1 k2 k3 k4 k5 k6 a1 a2 =
     call (ZREM R k1 a1) (\<lambda>n1.
     call (ZREM R k2 a1) (\<lambda>n2.
     call (ZREM R k3 a1) (\<lambda>n3.
     call (ZREM R k4 a1) (\<lambda>n4.
     if n1 + n2 + n3 + n4 = 0 then ret 0
     else
       call (EXISTS R k6) (\<lambda>x.
       if \<not> x then ret 0
       else
         call (XADD R k5 a1) (\<lambda>_.
         call (HSET R k6 [(''state'', a2)]) (\<lambda>_.
         ret 1)))))))"

definition ZSetKeyForState :: "Keys \<Rightarrow> string \<Rightarrow> string \<Rightarrow> string option" where
  "ZSetKeyForState K qname state =
     (if state = ''scheduled'' then Some (ScheduledKey K qname)
      else if state = ''retry'' then Some (RetryKey K qname)
      else if state = ''archived'' then Some (ArchivedKey K qname)
      else if state = ''completed'' then Some (CompletedKey K qname)
      else None)"

definition RunTask :: "redis \<Rightarrow> Keys \<Rightarrow> string \<Rightarrow> string \<Rightarrow> unit go" where
  "RunTask R K qname taskID =
     andthen (rt (runTaskCmd R (ScheduledKey K qname) (RetryKey K qname) (ArchivedKey K qname)
                    (CompletedKey K qname) (StreamKey K qname) (TaskKey K qname taskID)
                    taskID (Num StatePending))) (\<lambda>_. return ())"

definition discard :: "'a cmd \<Rightarrow> unit cmd" where
  "discard c = call c (\<lambda>_. ret ())"

definition DeleteTask :: "redis \<Rightarrow> Keys \<Rightarrow> string \<Rightarrow> string \<Rightarrow> unit go" where
  "DeleteTask R K qname taskID w =
     (case GetTask R K qname taskID w of
        (Inl e, w1) \<Rightarrow>
          if e \<noteq> RedisNil then (Inl e, w1)
          else rt (tx [discard (ZREM R (ScheduledKey K qname) taskID),
                       discard (ZREM R (RetryKey K qname) taskID),
                       discard (ZREM R (ArchivedKey K qname) taskID),
                       discard (ZREM R (CompletedKey K qname) taskID),
                       DEL R [TaskKey K qname taskID]]) w1
      | (Inr msg, w1) \<Rightarrow>
          andthen (rt (tx [discard (ZREM R (ScheduledKey K qname) taskID),
                           discard (ZREM R (RetryKey K qname) taskID),
                           discard (ZREM R (ArchivedKey K qname) taskID),
                           discard (ZREM R (CompletedKey K qname) taskID),
                           DEL R [TaskKey K qname taskID]])) (\<lambda>_.
          releaseUnique R msg) w1)"

end
