(* ===== verification/Safety.thy ===== *)
theory Safety
  imports Rely Rdb_Admin
begin

section \<open>No task is lost\<close>

text \<open>
  The invariant of the stored state and the relation that every atomic step of every operation
  respects.  A stored task is always referenced: by an entry of its queue's stream that is
  undelivered or pending, or by one of the four sorted sets.  An operation that drops a stream
  entry because the task's body was gone when it looked can be overtaken by another one that
  stores the body again; what makes the drop safe is that such a body comes with a newer
  reference, which the relation keeps track of.
\<close>

subsection \<open>Views of the keyspace\<close>

definition body :: "Keys \<Rightarrow> string \<Rightarrow> string \<Rightarrow> keyspace \<Rightarrow> rstr option" where
  "body K q i d = e_hash (d (TaskKey K q i)) ''msg''"

definition strm :: "Keys \<Rightarrow> string \<Rightarrow> keyspace \<Rightarrow> stream" where
  "strm K q d = e_stream (d (StreamKey K q))"

definition zmem :: "string \<Rightarrow> keyspace \<Rightarrow> string set" where
  "zmem k d = z_members (e_zset (d k))"

definition parked :: "Keys \<Rightarrow> string \<Rightarrow> string \<Rightarrow> keyspace \<Rightarrow> bool" where
  "parked K q i d \<longleftrightarrow> i \<in> zmem (RetryKey K q) d \<or> i \<in> zmem (ScheduledKey K q) d \<or>
     i \<in> zmem (ArchivedKey K q) d \<or> i \<in> zmem (CompletedKey K q) d"

definition listed :: "nat \<Rightarrow> string \<Rightarrow> stream \<Rightarrow> bool" where
  "listed N i s \<longleftrightarrow> (\<exists>n. (n, i) \<in> set (entries s) \<and> N < n)"

text \<open>A task that is stored is referenced, by the stream only with an entry newer than \<open>N\<close>.\<close>

definition covered :: "Keys \<Rightarrow> string \<Rightarrow> string \<Rightarrow> nat \<Rightarrow> keyspace \<Rightarrow> bool" where
  "covered K q i N d \<longleftrightarrow> body K q i d = None \<or> listed N i (strm K q d) \<or> parked K q i d"

text \<open>An entry that was delivered to the consumer group is in its pending list.\<close>

definition pend_ok :: "stream \<Rightarrow> bool" where
  "pend_ok s \<longleftrightarrow> (\<forall>G. groups s ConsumerGroup = Some G \<longrightarrow>
     (\<forall>(n, v) \<in> set (entries s). last_delivered G < n \<or> n \<in> fst ` set (pel G)))"

subsection \<open>Well-formed tasks\<close>

lemma qname_ok_Nil [simp]: "qname_ok []"
  by (simp add: qname_ok_def)

definition small :: "int \<Rightarrow> bool" where
  "small n \<longleftrightarrow> \<bar>n\<bar> < 10 ^ 14"

definition member_wf :: "GroupMemberLink \<Rightarrow> bool" where
  "member_wf m \<longleftrightarrow> member_ok m \<and> qname_ok (M_Queue m) \<and>
     small (M_MaxRetry m) \<and> small (M_Retention m) \<and> small (M_Delay m)"

definition link_wf :: "ChainLink \<Rightarrow> bool" where
  "link_wf l \<longleftrightarrow> link_ok l \<and> qname_ok (L_Queue l) \<and>
     small (L_MaxRetry l) \<and> small (L_Retention l) \<and> small (L_Delay l) \<and>
     list_all member_wf (L_Group l) \<and> small (int (length (L_Group l)))"

definition lock_ok :: "Keys \<Rightarrow> string \<Rightarrow> string \<Rightarrow> bool" where
  "lock_ok K q u \<longleftrightarrow> u = [] \<or> (\<exists>s. u = UniqueKey K q s)"

text \<open>
  A message of queue \<open>q\<close> whose strings are UTF-8, whose queue names are usable and whose integers
  fit the fields that carry them; the text of the last error is free.
\<close>

definition task_wf :: "Keys \<Rightarrow> string \<Rightarrow> TaskMessage \<Rightarrow> bool" where
  "task_wf K q m \<longleftrightarrow> msg_ok (m\<lparr>LastErr := []\<rparr>) \<and> Queue m = q \<and> qname_ok q \<and>
     qname_ok (GroupQueue m) \<and> lock_ok K q (UniqueLock m) \<and> list_all link_wf (Chain m) \<and>
     list_all link_wf (GroupCallbackChain m) \<and> pred_option link_wf (GroupCallback m) \<and>
     small (ChainIndex m) \<and>
     small (ChainIndex m + int (length (Chain m) + length (GroupCallbackChain m)))"

definition body_ok :: "Keys \<Rightarrow> string \<Rightarrow> string \<Rightarrow> rstr \<Rightarrow> bool" where
  "body_ok K q i raw \<longleftrightarrow> (\<exists>m. decode_body raw = Some m \<and> ID m = i \<and> task_wf K q m)"

subsection \<open>The invariant and the relation\<close>

definition bodies_ok :: "Keys \<Rightarrow> keyspace \<Rightarrow> bool" where
  "bodies_ok K d \<longleftrightarrow> (\<forall>q i raw. qname_ok q \<longrightarrow> body K q i d = Some raw \<longrightarrow> body_ok K q i raw)"

text \<open>Tasks and the sets that refer to them never expire.\<close>

definition lasting :: "Keys \<Rightarrow> keyspace \<Rightarrow> bool" where
  "lasting K d \<longleftrightarrow> (\<forall>q i. qname_ok q \<longrightarrow> e_ttl (d (TaskKey K q i)) = None \<and>
     e_ttl (d (RetryKey K q)) = None \<and> e_ttl (d (ScheduledKey K q)) = None \<and>
     e_ttl (d (ArchivedKey K q)) = None \<and> e_ttl (d (CompletedKey K q)) = None)"

text \<open>The collected results of a group are base64 texts.\<close>

definition results_ok :: "Keys \<Rightarrow> keyspace \<Rightarrow> bool" where
  "results_ok K d \<longleftrightarrow> (\<forall>q g f v. qname_ok q \<longrightarrow> e_hash (d (GroupResultKey K q g)) f = Some v \<longrightarrow>
     (\<exists>bs. v = Txt (b64_encode bs)))"

definition intact :: "Keys \<Rightarrow> keyspace \<Rightarrow> bool" where
  "intact K d \<longleftrightarrow> wt K d \<and> bodies_ok K d \<and> lasting K d \<and> results_ok K d \<and>
     (\<forall>q. qname_ok q \<longrightarrow> pend_ok (strm K q d)) \<and>
     (\<forall>q i. qname_ok q \<longrightarrow> covered K q i 0 d)"

text \<open>Entries only appear at the end of a stream, with new identifiers.\<close>

definition grows :: "stream \<Rightarrow> stream \<Rightarrow> bool" where
  "grows s s' \<longleftrightarrow> last_id s \<le> last_id s' \<and>
     (\<forall>(n, v) \<in> set (entries s'). (n, v) \<in> set (entries s) \<or> last_id s < n)"

definition keeps_covered :: "Keys \<Rightarrow> string \<Rightarrow> string \<Rightarrow> keyspace \<Rightarrow> keyspace \<Rightarrow> bool" where
  "keeps_covered K q i d d' \<longleftrightarrow>
     (\<forall>N \<le> last_id (strm K q d). covered K q i N d \<longrightarrow> covered K q i N d')"

definition safe :: "Keys \<Rightarrow> keyspace \<Rightarrow> keyspace \<Rightarrow> bool" where
  "safe K d d' \<longleftrightarrow> (intact K d \<longrightarrow> intact K d' \<and>
     (\<forall>q. qname_ok q \<longrightarrow> grows (strm K q d) (strm K q d') \<and> (\<forall>i. keeps_covered K q i d d')))"

lemma grows_refl [simp]: "grows s s"
  by (auto simp: grows_def)

lemma grows_trans: "grows a b \<Longrightarrow> grows b c \<Longrightarrow> grows a c"
  unfolding grows_def by fastforce

lemma keeps_covered_refl [simp]: "keeps_covered K q i d d"
  by (simp add: keeps_covered_def)

lemma safe_refl: "safe K d d"
  by (simp add: safe_def)

lemma safe_trans: "safe K a b \<Longrightarrow> safe K b c \<Longrightarrow> safe K a c"
  unfolding safe_def keeps_covered_def
  by (meson grows_trans grows_def order.trans)

lemma safe_intact: "intact K d \<Longrightarrow> safe K d d' \<Longrightarrow> intact K d'"
  by (simp add: safe_def)

interpretation rg: rely "intact K" "safe K" for K
  by unfold_locales (rule safe_refl, erule (1) safe_trans, erule (1) safe_intact)

subsection \<open>What the writes keep\<close>

lemmas view_defs = body_def strm_def zmem_def parked_def

lemma ttl_effects [simp]:
  "e_ttl (hput k fvs d k') = (if k' = k \<and> hput k fvs d k = None then None else e_ttl (d k'))"
  "e_ttl (zput k x m d k') = e_ttl (d k')"
  "e_ttl (xpush R k v d k') = e_ttl (d k')"
  "e_ttl (upd_stream k f d k') = e_ttl (d k')"
  by (auto simp: effect_defs upd_stream_def)

lemma lasting_effects [simp]:
  assumes "lasting K d"
  shows "lasting K (hput k fvs d)" "lasting K (zput k x m d)" "lasting K (zdel k m d)"
    "lasting K (sput k us d)" "lasting K (sdel k m d)" "lasting K (xpush R k v d)"
    "lasting K (upd_stream k f d)" "lasting K (kdel k d)" "lasting K (hrem k fs d)"
  using assms by (auto simp: lasting_def effect_defs upd_stream_def)

lemma lasting_other:
  assumes "lasting K d" "rkey_ok rk" "\<And>k. k \<noteq> render K rk \<Longrightarrow> d' k = d k"
    and "case rk of KTask q i \<Rightarrow> False | KRetry q \<Rightarrow> False | KScheduled q \<Rightarrow> False
      | KArchived q \<Rightarrow> False | KCompleted q \<Rightarrow> False | _ \<Rightarrow> True"
  shows "lasting K d'"
proof -
  have "d' (render K r) = d (render K r)" if "rkey_ok r" "r \<noteq> rk" for r
    using assms(2,3) that by simp
  moreover have "KTask q i \<noteq> rk" "KRetry q \<noteq> rk" "KScheduled q \<noteq> rk" "KArchived q \<noteq> rk"
    "KCompleted q \<noteq> rk" for q i
    using assms(4) by (auto split: rkey.splits)
  ultimately show ?thesis using assms(1) by (simp add: lasting_def key_render)
qed

lemma lasting_str [simp]:
  "lasting K d \<Longrightarrow> rkey_ok rk \<Longrightarrow> type_of rk = is_str \<Longrightarrow> lasting K (vput (render K rk) v t d)"
  "lasting K d \<Longrightarrow> rkey_ok rk \<Longrightarrow> type_of rk = is_str \<Longrightarrow> lasting K (tput (render K rk) ms d)"
  "lasting K d \<Longrightarrow> qname_ok q \<Longrightarrow> lasting K (tput (render K (KGroup q g)) ms d)"
  "lasting K d \<Longrightarrow> qname_ok q \<Longrightarrow> lasting K (tput (render K (KGroupResult q g)) ms d)"
proof -
  have neq: "is_hash \<noteq> is_str" "is_zset \<noteq> is_str"
    by (metis is_hash.simps is_str.simps is_zset.simps)+
  show "lasting K d \<Longrightarrow> rkey_ok rk \<Longrightarrow> type_of rk = is_str \<Longrightarrow> lasting K (vput (render K rk) v t d)"
    "lasting K d \<Longrightarrow> rkey_ok rk \<Longrightarrow> type_of rk = is_str \<Longrightarrow> lasting K (tput (render K rk) ms d)"
    using neq by (auto elim!: lasting_other split: rkey.splits)
qed (auto elim: lasting_other [of K d "KGroup q g"] lasting_other [of K d "KGroupResult q g"])

lemma results_effects [simp]:
  assumes "results_ok K d"
  shows "results_ok K (zput k x m d)" "results_ok K (zdel k m d)"
    "results_ok K (sput k us d)" "results_ok K (sdel k m d)" "results_ok K (xpush R k v d)"
    "results_ok K (upd_stream k f d)" "results_ok K (kdel k d)" "results_ok K (hrem k fs d)"
    "results_ok K (vput k u t d)" "results_ok K (tput k ms d)"
proof -
  have sub: "results_ok K (d(k := e))" if e: "\<And>f v. e_hash e f = Some v \<Longrightarrow> e_hash (d k) f = Some v" for k e
    unfolding results_ok_def
  proof (intro allI impI)
    fix q g f v
    assume q: "qname_ok q" "e_hash ((d(k := e)) (GroupResultKey K q g)) f = Some v"
    then have "e_hash (d (GroupResultKey K q g)) f = Some v" using e by (auto split: if_splits)
    with assms q(1) show "\<exists>bs. v = Txt (b64_encode bs)" unfolding results_ok_def by blast
  qed
  have h: "e_hash (mk_zset e z) = Map.empty" "e_hash (mk_set e X) = Map.empty"
    "e_hash (mk_stream e s) = Map.empty" for e z X s
    by (simp_all add: mk_zset_def mk_set_def mk_stream_def)
  have t: "e_hash (mk_ttl e n) f = Some v \<Longrightarrow> e_hash e f = Some v" for e n f v
    by (cases e rule: e_hash.cases) (auto simp: mk_ttl_def split: if_splits)
  show "results_ok K (zput k x m d)" "results_ok K (zdel k m d)"
    "results_ok K (sput k us d)" "results_ok K (sdel k m d)" "results_ok K (xpush R k v d)"
    "results_ok K (kdel k d)" "results_ok K (hrem k fs d)" "results_ok K (vput k u t d)"
    "results_ok K (tput k ms d)"
    unfolding effect_defs
    by (auto intro!: sub simp: h restrict_map_def dest: t split: if_splits)
  show "results_ok K (upd_stream k f d)"
    using assms by (auto intro!: sub simp: upd_stream_def h)
qed

lemma results_hput [simp]:
  assumes "results_ok K d" "rkey_ok rk" "\<And>q g. rk \<noteq> KGroupResult q g"
  shows "results_ok K (hput (render K rk) fvs d)"
proof -
  have "hput (render K rk) fvs d (render K (KGroupResult q g)) = d (render K (KGroupResult q g))"
    if "qname_ok q" for q g
    using that assms(2) assms(3) [of q g] by (metis effect_other(1) render_eq rkey_ok_simps(8))
  with assms(1) show ?thesis by (simp add: results_ok_def key_render)
qed

subsection \<open>Streams\<close>

lemma grows_add: "last_id s < n \<Longrightarrow> grows s (s_add n v s)"
  by (auto simp: grows_def)

lemma grows_drop [simp]: "grows s (s_del ns (s_ack g ns s))"
  by (auto simp: grows_def)

lemma pend_ok_add: "s_ok s \<Longrightarrow> pend_ok s \<Longrightarrow> last_id s < n \<Longrightarrow> pend_ok (s_add n v s)"
  by (fastforce simp: pend_ok_def s_ok_def)

lemma groups_map_pel: "groups (s_map_pel g f s) h =
    (if h = g then map_option (\<lambda>G. G\<lparr>pel := f (pel G)\<rparr>) (groups s g) else groups s h)"
  by (auto simp: s_map_pel_def split: option.split)

lemma pend_ok_drop [simp]: "pend_ok s \<Longrightarrow> pend_ok (s_del ns (s_ack ConsumerGroup ns s))"
  by (fastforce simp: pend_ok_def s_ack_def groups_map_pel)

lemma listed_add:
  "listed N i s \<Longrightarrow> listed N i (s_add n v s)"
  "N \<le> last_id s \<Longrightarrow> last_id s < n \<Longrightarrow> listed N v (s_add n v s)"
  by (auto simp: listed_def)

lemma listed_drop:
  "listed N i s \<Longrightarrow> (\<And>n. n \<in> set ns \<Longrightarrow> N < n \<Longrightarrow> (n, i) \<notin> set (entries s)) \<Longrightarrow>
   listed N i (s_del ns (s_ack g ns s))"
  by (auto simp: listed_def)

text \<open>Changes of a stream that touch only the consumer group.\<close>

lemma pend_ok_create: "s_ok s \<Longrightarrow> pend_ok (s_group_create g s)" if "g = ConsumerGroup"
  using that by (auto simp: pend_ok_def s_group_create_def s_ok_def)

lemma pend_ok_deliver:
  assumes "pend_ok s" "s_ok s" "groups s ConsumerGroup = Some G"
  shows "pend_ok (s_deliver ConsumerGroup c G (s_new G k s) s)"
proof -
  let ?new = "s_new G k s"
  have "n \<in> fst ` set ?new \<or> fst (last ?new) < n"
    if "(n, v) \<in> set (entries s)" "last_delivered G < n" "?new \<noteq> []" for n v
  proof -
    let ?xs = "filter (\<lambda>(i, v). last_delivered G < i) (entries s)"
    have srt: "sorted_wrt (<) (map fst ?xs)"
      using assms(2) by (auto simp: s_ok_def sorted_map_filter)
    have "(n, v) \<in> set ?xs" using that by simp
    then have "(n, v) \<in> set (take k ?xs) \<or> (n, v) \<in> set (drop k ?xs)"
      by (metis Un_iff append_take_drop_id set_append)
    moreover have "x < y" if "x \<in> set (map fst (take k ?xs))" "y \<in> set (map fst (drop k ?xs))" for x y
      using srt that sorted_wrt_append [of "(<)" "map fst (take k ?xs)" "map fst (drop k ?xs)"]
      by (metis append_take_drop_id map_append)
    moreover have "fst (last ?new) \<in> set (map fst (take k ?xs))"
      using last_in_set [OF that(3)] unfolding s_new_def set_map by (rule imageI)
    moreover have "n \<in> set (map fst (drop k ?xs))" if "(n, v) \<in> set (drop k ?xs)"
      using imageI [OF that, of fst] by simp
    moreover have "n \<in> fst ` set ?new" if "(n, v) \<in> set (take k ?xs)"
      using imageI [OF that, of fst] by (simp add: s_new_def)
    ultimately show ?thesis by blast
  qed
  note new = this
  have old: "last_delivered G < n \<or> n \<in> fst ` set (pel G)" if "(n, v) \<in> set (entries s)" for n v
    using assms(1,3) that unfolding pend_ok_def by blast
  have "fst ` set (map (\<lambda>(i, v). (i, c, 0)) ?new) = fst ` set ?new"
    by (force simp: image_iff)
  with new old show ?thesis
    unfolding pend_ok_def s_deliver_def by (auto simp: image_Un; blast)
qed

lemma pend_ok_map_pel:
  assumes "pend_ok s"
    and "\<And>G n v. groups s ConsumerGroup = Some G \<Longrightarrow> (n, v) \<in> set (entries s) \<Longrightarrow>
      n \<in> fst ` set (pel G) \<Longrightarrow> n \<in> fst ` set (f (pel G))"
  shows "pend_ok (s_map_pel ConsumerGroup f s)"
  using assms unfolding pend_ok_def groups_map_pel by (auto; blast)

lemma pend_ok_claim: "pend_ok s \<Longrightarrow> pend_ok (s_claim ConsumerGroup c idle ns s)"
  unfolding s_claim_def
proof (erule pend_ok_map_pel)
  fix G n v
  assume "(n, v) \<in> set (entries s)" "n \<in> fst ` set (pel G)"
  then obtain o' t where p: "(n, o', t) \<in> set (pel G)" "n \<in> fst ` set (entries s)" by force
  let ?m = "\<lambda>(i, o', t). if i \<in> set ns \<and> idle \<le> t then (i, c, 0) else (i, o', t)"
  have f: "(n, o', t) \<in> set (filter (\<lambda>(i, o', t). i \<in> set ns \<longrightarrow> i \<in> fst ` set (entries s)) (pel G))"
    using p by simp
  have "fst (?m (n, o', t)) \<in> fst ` ?m ` set (filter (\<lambda>(i, o', t). i \<in> set ns \<longrightarrow>
      i \<in> fst ` set (entries s)) (pel G))"
    by (intro imageI f)
  then show "n \<in> fst ` set (map ?m (filter (\<lambda>(i, o', t). i \<in> set ns \<longrightarrow>
      i \<in> fst ` set (entries s)) (pel G)))"
    unfolding set_map by (simp split: if_splits)
qed

lemma s_scan_keeps:
  "n \<in> fst ` set p \<Longrightarrow> n \<in> fst ` set es \<Longrightarrow> n \<in> fst ` set (snd (s_scan es c idle a k p))"
proof (induction es c idle a k p rule: s_scan.induct)
  case (2 es c idle a k m o' t p)
  show ?case
  proof (cases "a = 0 \<or> k = 0")
    case True
    then show ?thesis using "2.prems" by simp
  next
    case False
    show ?thesis
    proof (cases "map_of es m")
      case None
      then have "n \<noteq> m" using "2.prems"(2) by (auto simp: map_of_eq_None_iff)
      then show ?thesis using "2.IH"(1) [OF False None] "2.prems" False None by simp
    next
      case (Some v)
      show ?thesis
        using "2.IH"(2,3) [OF False Some] "2.prems" False Some by (auto simp: split_beta)
    qed
  qed
qed simp

lemma pend_ok_scan:
  assumes "pend_ok s" "groups s ConsumerGroup = Some G"
  shows "pend_ok (s_map_pel ConsumerGroup (\<lambda>_. snd (s_scan (entries s) c idle a k (pel G))) s)"
  using assms(2) by (intro pend_ok_map_pel [OF assms(1)]) (force intro: s_scan_keeps)

lemma s_scan_entries: "set (fst (s_scan es c idle a k p)) \<subseteq> set es"
proof (induction es c idle a k p rule: s_scan.induct)
  case (2 es c idle a k m o' t p)
  then show ?case by (auto simp: split_beta dest: map_of_SomeD split: option.split)
qed simp

subsection \<open>Safe steps\<close>

lemma intactD:
  assumes "intact K d"
  shows "wt K d" "bodies_ok K d" "lasting K d" "results_ok K d"
    "\<And>q. qname_ok q \<Longrightarrow> pend_ok (strm K q d)" "\<And>q i. qname_ok q \<Longrightarrow> covered K q i 0 d"
  using assms by (simp_all add: intact_def)

lemma strm_ok: "wt K d \<Longrightarrow> qname_ok q \<Longrightarrow> s_ok (strm K q d)"
  using wt_parts(4) [of K d "KStream q"] by (simp add: strm_def key_render)

text \<open>A step that leaves all tasks, streams and sorted sets alone.\<close>

definition task_key :: "rkey \<Rightarrow> bool" where
  "task_key rk \<longleftrightarrow> (case rk of KTask q i \<Rightarrow> True | KStream q \<Rightarrow> True | KRetry q \<Rightarrow> True
     | KScheduled q \<Rightarrow> True | KArchived q \<Rightarrow> True | KCompleted q \<Rightarrow> True | _ \<Rightarrow> False)"

lemma safe_frame:
  assumes "wt K d'" "results_ok K d'"
    and same: "\<And>rk. rkey_ok rk \<Longrightarrow> task_key rk \<Longrightarrow> d' (render K rk) = d (render K rk)"
  shows "safe K d d'"
proof -
  have v: "body K q i d' = body K q i d" "strm K q d' = strm K q d" "parked K q i d' = parked K q i d"
    if "qname_ok q" for q i
    using that same by (simp_all add: view_defs key_render task_key_def)
  then have c: "covered K q i N d' = covered K q i N d" if "qname_ok q" for q i N
    using that by (simp add: covered_def)
  have l: "lasting K d' = lasting K d"
    using same by (simp add: lasting_def key_render task_key_def)
  show ?thesis
    unfolding safe_def intact_def keeps_covered_def bodies_ok_def using assms(1,2) v c l by auto
qed

text \<open>A step that concerns one task of one queue.\<close>

lemma safe_one:
  assumes "intact K d" "qname_ok p" "wt K d'" "lasting K d'" "results_ok K d'"
    and other: "\<And>rk. rkey_ok rk \<Longrightarrow> task_key rk \<Longrightarrow> queue_of rk \<noteq> Some p \<Longrightarrow>
      d' (render K rk) = d (render K rk)"
    and same: "\<And>i. i \<noteq> j \<Longrightarrow> body K p i d' = body K p i d \<and> (parked K p i d \<longrightarrow> parked K p i d')"
    and strm: "grows (strm K p d) (strm K p d')" "pend_ok (strm K p d')"
    and keep: "\<And>i N. i \<noteq> j \<Longrightarrow> listed N i (strm K p d) \<Longrightarrow> listed N i (strm K p d')"
    and body: "\<And>raw. body K p j d' = Some raw \<Longrightarrow> body K p j d \<noteq> Some raw \<Longrightarrow> body_ok K p j raw"
    and cov: "\<And>N. N \<le> last_id (strm K p d) \<Longrightarrow> covered K p j N d \<Longrightarrow> covered K p j N d'"
  shows "safe K d d'"
proof -
  note I = intactD [OF assms(1)]
  have v: "body K q i d' = body K q i d \<and> strm K q d' = strm K q d \<and> parked K q i d' = parked K q i d"
    if "qname_ok q" "q \<noteq> p" for q i
    using that other by (simp add: view_defs key_render task_key_def)
  have k: "keeps_covered K q i d d'" if "qname_ok q" for q i
  proof (cases "q = p")
    case True
    show ?thesis
    proof (cases "i = j")
      case True
      then show ?thesis using cov \<open>q = p\<close> by (simp add: keeps_covered_def)
    next
      case False
      then show ?thesis using same [OF False] keep [OF False] \<open>q = p\<close>
        by (auto simp: keeps_covered_def covered_def)
    qed
  next
    case False
    then show ?thesis using v that by (simp add: keeps_covered_def covered_def)
  qed
  have "body_ok K q i raw" if "qname_ok q" "body K q i d' = Some raw" for q i raw
    using that I(2) v [of q i] same [of i] body [of raw] unfolding bodies_ok_def by metis
  moreover have "pend_ok (strm K q d')" "grows (strm K q d) (strm K q d')" if "qname_ok q" for q
    using that v strm I(5) by (cases "q = p"; simp)+
  moreover have "covered K q i 0 d'" if "qname_ok q" for q i
    using k [OF that, of i] I(6) [OF that, of i] by (simp add: keeps_covered_def)
  ultimately show ?thesis
    unfolding safe_def intact_def bodies_ok_def using assms(3-5) k by blast
qed

lemma task_wf_free [simp]:
  "task_wf K q (m\<lparr>LastErr := e\<rparr>) = task_wf K q m"
  by (simp add: task_wf_def)

lemma task_wf_state [simp]: "int64_ok st \<Longrightarrow> task_wf K q m \<Longrightarrow> task_wf K q (m\<lparr>State := st\<rparr>)"
  by (auto simp: task_wf_def msg_ok_def)

lemma body_ok_encode: "task_wf K q m \<Longrightarrow> body_ok K q (ID m) (Doc (EncodeMessage m))"
  using Decode_Encode_wire [of m] task_wf_free [where m = m and e = "json_text (LastErr m)"]
  by (auto simp: body_ok_def task_wf_def)

lemma states_ok [simp]:
  "int64_ok StatePending" "int64_ok StateActive" "int64_ok StateCompleted" "int64_ok StateRetry"
  "int64_ok StateArchived" "int64_ok StateScheduled"
  by (simp_all add: int64_ok_def state_defs)

text \<open>
  The shape of the scripts: they drop entries of the task \<open>j\<close>, possibly append one, and leave the
  task deleted, parked or with the new entry.
\<close>

definition own_entries :: "sid list \<Rightarrow> string \<Rightarrow> stream \<Rightarrow> bool" where
  "own_entries ns j s \<longleftrightarrow> (\<forall>(n, v) \<in> set (entries s). n \<in> set ns \<longrightarrow> v = j)"

definition after_drop :: "sid list \<Rightarrow> stream \<Rightarrow> stream" where
  "after_drop ns s = s_del ns (s_ack ConsumerGroup ns s)"

definition appended :: "string \<Rightarrow> stream \<Rightarrow> stream \<Rightarrow> bool" where
  "appended j s s' \<longleftrightarrow> (\<exists>n > last_id s. s' = s_add n j s)"

lemma own_entries_Nil [simp]: "own_entries [] j s"
  by (simp add: own_entries_def)

lemma after_drop_Nil [simp]: "after_drop [] s = s"
  by (cases s) (auto simp: after_drop_def s_del_def s_ack_def s_map_pel_def split: option.split
      intro!: ext)

lemma after_drop_simps [simp]:
  "last_id (after_drop ns s) = last_id s" "s_ok s \<Longrightarrow> s_ok (after_drop ns s)"
  "grows s (after_drop ns s)" "pend_ok s \<Longrightarrow> pend_ok (after_drop ns s)"
  "own_entries ns j s \<Longrightarrow> i \<noteq> j \<Longrightarrow> listed N i s \<Longrightarrow> listed N i (after_drop ns s)"
  by (auto simp: after_drop_def own_entries_def s_ok_del s_ok_ack intro!: listed_drop)

lemma other_rk [simp]:
  "queue_of rk \<noteq> Some q \<Longrightarrow> rk \<noteq> KTask q i" "queue_of rk \<noteq> Some q \<Longrightarrow> rk \<noteq> KStream q"
  "queue_of rk \<noteq> Some q \<Longrightarrow> rk \<noteq> KRetry q" "queue_of rk \<noteq> Some q \<Longrightarrow> rk \<noteq> KScheduled q"
  "queue_of rk \<noteq> Some q \<Longrightarrow> rk \<noteq> KArchived q" "queue_of rk \<noteq> Some q \<Longrightarrow> rk \<noteq> KCompleted q"
  "queue_of rk \<noteq> Some q \<Longrightarrow> rk \<noteq> KUnique q u" "queue_of rk \<noteq> Some q \<Longrightarrow> rk \<noteq> KGroup q g"
  "queue_of rk \<noteq> Some q \<Longrightarrow> rk \<noteq> KGroupResult q g" "queue_of rk \<noteq> Some q \<Longrightarrow> rk \<noteq> KPeriodicDedup q u"
  by auto

lemma safe_script:
  assumes "intact K d" "qname_ok p" "wt K d'" "lasting K d'" "results_ok K d'"
    and other: "\<And>rk. rkey_ok rk \<Longrightarrow> task_key rk \<Longrightarrow> queue_of rk \<noteq> Some p \<Longrightarrow>
      d' (render K rk) = d (render K rk)"
    and same: "\<And>i. i \<noteq> j \<Longrightarrow> body K p i d' = body K p i d \<and> (parked K p i d \<longrightarrow> parked K p i d')"
    and own: "own_entries ns j (strm K p d)"
    and strm: "strm K p d' = after_drop ns (strm K p d) \<or> appended j (after_drop ns (strm K p d)) (strm K p d')"
    and body: "\<And>raw. body K p j d' = Some raw \<Longrightarrow> body K p j d \<noteq> Some raw \<Longrightarrow> body_ok K p j raw"
    and cov: "body K p j d' = None \<or> parked K p j d' \<or>
      appended j (after_drop ns (strm K p d)) (strm K p d')"
  shows "safe K d d'"
proof (rule safe_one [OF assms(1-5) other same _ _ _ body])
  note I = intactD [OF assms(1)]
  let ?t = "after_drop ns (strm K p d)"
  have t: "s_ok ?t" "pend_ok ?t" using I(1,5) assms(2) by (simp_all add: strm_ok)
  show "grows (strm K p d) (strm K p d')"
    using strm grows_add [of ?t] grows_trans [of "strm K p d" ?t] by (auto simp: appended_def)
  show "pend_ok (strm K p d')"
    using strm t pend_ok_add [of ?t] by (auto simp: appended_def)
  show "listed N i (strm K p d')" if "i \<noteq> j" "listed N i (strm K p d)" for i N
    using strm own that listed_add(1) [of N i ?t] by (auto simp: appended_def)
  show "covered K p j N d'" if "N \<le> last_id (strm K p d)" for N
    using cov that listed_add(2) [of N ?t] by (auto simp: covered_def appended_def)
qed

text \<open>A dropped entry whose task was gone when the dropper looked, at which time \<open>N\<close> was the newest.\<close>

lemma safe_orphan:
  assumes "intact K d" "qname_ok p" "own_entries ns j (strm K p d)" "\<forall>n \<in> set ns. n \<le> N"
    and "covered K p j N d"
  shows "safe K d (drop_entry K p ns d)"
proof (rule safe_one [OF assms(1,2), where j = j])
  note I = intactD [OF assms(1)]
  let ?d' = "drop_entry K p ns d"
  show "wt K ?d'" "lasting K ?d'" "results_ok K ?d'"
    using I assms(2) by (simp_all add: write_defs key_render)
  have s: "strm K p ?d' = after_drop ns (strm K p d)"
    using assms(2) by (simp add: strm_def write_defs key_render after_drop_def)
  show "grows (strm K p d) (strm K p ?d')" "pend_ok (strm K p ?d')"
    "\<And>i N. i \<noteq> j \<Longrightarrow> listed N i (strm K p d) \<Longrightarrow> listed N i (strm K p ?d')"
    unfolding s using assms(3) I(5) assms(2) by simp_all
  have v: "body K p i ?d' = body K p i d" "parked K p i ?d' = parked K p i d" for i
    using assms(2) by (simp_all add: view_defs write_defs key_render)
  show "\<And>i. i \<noteq> j \<Longrightarrow> body K p i ?d' = body K p i d \<and> (parked K p i d \<longrightarrow> parked K p i ?d')"
    "\<And>raw. body K p j ?d' = Some raw \<Longrightarrow> body K p j d \<noteq> Some raw \<Longrightarrow> body_ok K p j raw"
    by (simp_all add: v)
  show "covered K p j M ?d'" if "covered K p j M d" for M
  proof -
    have "listed (max M N) j (strm K p d) \<or> body K p j d = None \<or> parked K p j d"
      using that assms(5) by (cases "M \<le> N") (auto simp: covered_def max_def)
    moreover have "listed M j (strm K p ?d')" if "listed (max M N) j (strm K p d)"
    proof -
      have "listed (max M N) j (after_drop ns (strm K p d))"
        unfolding after_drop_def using that assms(4) by (intro listed_drop) fastforce+
      then show ?thesis unfolding s by (auto simp: listed_def)
    qed
    ultimately show ?thesis by (auto simp: covered_def v)
  qed
  show "\<And>rk. rkey_ok rk \<Longrightarrow> task_key rk \<Longrightarrow> queue_of rk \<noteq> Some p \<Longrightarrow> ?d' (render K rk) = d (render K rk)"
    using assms(2) by (auto simp: write_defs key_render)
qed

text \<open>Taking a task out of every sorted set of its queue.\<close>

definition unpark :: "Keys \<Rightarrow> string \<Rightarrow> string \<Rightarrow> keyspace \<Rightarrow> keyspace" where
  "unpark K q i d = zdel (CompletedKey K q) i (zdel (ArchivedKey K q) i (zdel (RetryKey K q) i
     (zdel (ScheduledKey K q) i d)))"

context redis_laws
begin

lemma new_id_above: "wt K d \<Longrightarrow> qname_ok q \<Longrightarrow> last_id (strm K q d) < new_id R (StreamKey K q) v d"
  using XADD_new(2) [of d "StreamKey K q" v] wt_types(1) [of K d q] by (simp add: strm_def key_render)

lemma push_appended:
  "wt K d \<Longrightarrow> qname_ok q \<Longrightarrow> appended v (strm K q d) (strm K q (xpush R (StreamKey K q) v d))"
  using new_id_above [of K d q v] by (auto simp: appended_def strm_def)

lemmas script_simps = write_defs key_render view_defs after_drop_def

lemma safe_enqueue:
  assumes "intact K d" "qname_ok q" "body_ok K q i b"
  shows "safe K d (unlist K q i (xpush R (StreamKey K q) i (store K q i b st d)))"
proof -
  let ?d = "store K q i b st d"
  let ?d' = "unlist K q i (xpush R (StreamKey K q) i ?d)"
  have "appended i (strm K q ?d) (strm K q (xpush R (StreamKey K q) i ?d))"
    using intactD [OF assms(1)] assms(2) by (intro push_appended) simp_all
  then have p: "appended i (strm K q d) (strm K q ?d')"
    using assms(2) by (simp add: strm_def write_defs key_render)
  show ?thesis
    using intactD(1,3,4) [OF assms(1)] assms(2,3) p
    by (intro safe_script [OF assms(1,2), where j = i and ns = "[]"])
      (auto simp: write_defs key_render body_def parked_def zmem_def)
qed

lemma safe_schedule:
  assumes "intact K d" "qname_ok q" "body_ok K q i b"
  shows "safe K d (unlist K q i (zput (ScheduledKey K q) x i (store K q i b st d)))"
  using intactD(1,3,4) [OF assms(1)] assms(2,3)
  by (intro safe_script [OF assms(1,2), where j = i and ns = "[]"]) (auto simp: write_defs key_render view_defs)

lemma safe_store_push:
  assumes "intact K d" "qname_ok q" "body_ok K q i b"
  shows "safe K d (xpush R (StreamKey K q) i (store K q i b st d))"
proof -
  let ?d = "store K q i b st d"
  have "appended i (strm K q ?d) (strm K q (xpush R (StreamKey K q) i ?d))"
    using intactD [OF assms(1)] assms(2) by (intro push_appended) simp_all
  then have p: "appended i (strm K q d) (strm K q (xpush R (StreamKey K q) i ?d))"
    using assms(2) by (simp add: strm_def write_defs key_render)
  show ?thesis
    using intactD(1,3,4) [OF assms(1)] assms(2,3) p
    by (intro safe_script [OF assms(1,2), where j = i and ns = "[]"])
      (auto simp: write_defs key_render body_def parked_def zmem_def)
qed

lemma safe_store_park:
  assumes "intact K d" "qname_ok q" "body_ok K q i b"
  shows "safe K d (zput (ScheduledKey K q) x i (store K q i b st d))"
  using intactD(1,3,4) [OF assms(1)] assms(2,3)
  by (intro safe_script [OF assms(1,2), where j = i and ns = "[]"]) (auto simp: write_defs key_render view_defs)

lemma safe_move:
  assumes "intact K d" "qname_ok q" "body_ok K q i b" "own_entries [n] i (strm K q d)"
    and "z = RetryKey K q \<or> z = ArchivedKey K q \<or> z = CompletedKey K q"
  shows "safe K d (zput z x i (store K q i b st (drop_entry K q [n] d)))"
  using assms(5) intactD(1,3,4) [OF assms(1)] assms(2,3,4)
  by (elim disjE; intro safe_script [OF assms(1,2), where j = i and ns = "[n]"])
    (auto simp: write_defs key_render view_defs after_drop_def)

lemma safe_done:
  assumes "intact K d" "qname_ok q" "own_entries [n] i (strm K q d)"
  shows "safe K d (kdel (TaskKey K q i) (drop_entry K q [n] d))"
  using intactD(1,3,4) [OF assms(1)] assms(2,3)
  by (intro safe_script [OF assms(1,2), where j = i and ns = "[n]"])
    (auto simp: write_defs key_render view_defs after_drop_def)

lemma safe_requeue:
  assumes "intact K d" "qname_ok q" "own_entries [n] i (strm K q d)"
  shows "safe K d (if d (TaskKey K q i) = None then drop_entry K q [n] d
    else xpush R (StreamKey K q) i (set_state K q st i (drop_entry K q [n] d)))"
proof (cases "d (TaskKey K q i) = None")
  case True
  then show ?thesis
    using intactD(1,3,4) [OF assms(1)] assms(2,3)
    by (simp, intro safe_script [OF assms(1,2), where j = i and ns = "[n]"])
      (auto simp: write_defs key_render view_defs after_drop_def)
next
  case False
  let ?d = "set_state K q st i (drop_entry K q [n] d)"
  have "appended i (strm K q ?d) (strm K q (xpush R (StreamKey K q) i ?d))"
    using intactD [OF assms(1)] assms(2) by (intro push_appended) simp_all
  moreover have "strm K q ?d = after_drop [n] (strm K q d)"
    using assms(2) by (simp add: strm_def write_defs key_render after_drop_def)
  ultimately have p: "appended i (after_drop [n] (strm K q d)) (strm K q (xpush R (StreamKey K q) i ?d))"
    by simp
  have "safe K d (xpush R (StreamKey K q) i ?d)"
    using intactD(1,3,4) [OF assms(1)] assms(2,3) p
    by (intro safe_script [OF assms(1,2), where j = i and ns = "[n]"])
      (auto simp: write_defs key_render body_def parked_def zmem_def)
  then show ?thesis unfolding if_not_P [OF False] .
qed

lemma safe_forward_one:
  assumes "intact K d" "qname_ok q" "z = RetryKey K q \<or> z = ScheduledKey K q"
  shows "safe K d (forward_one R K q z i d)"
proof -
  have "appended i (strm K q d) (strm K q (xpush R (StreamKey K q) i d))"
    using intactD [OF assms(1)] assms(2) by (intro push_appended) simp_all
  then have p: "appended i (strm K q d) (strm K q (forward_one R K q z i d))"
    using assms(2,3) by (auto simp: strm_def write_defs key_render)
  then show ?thesis
    using assms(3) intactD(1,3,4) [OF assms(1)] assms(2)
    by (elim disjE; intro safe_script [OF assms(1,2), where j = i and ns = "[]"])
      (auto simp: write_defs key_render body_def parked_def zmem_def)
qed

lemma safe_trim_one:
  assumes "intact K d" "qname_ok q" "z = ArchivedKey K q \<or> z = CompletedKey K q"
  shows "safe K d (zdel z i (kdel (TaskKey K q i) d))"
  using assms(3) intactD(1,3,4) [OF assms(1)] assms(2)
  by (elim disjE; intro safe_script [OF assms(1,2), where j = i and ns = "[]"])
    (auto simp: write_defs key_render view_defs)

lemma safe_delete:
  assumes "intact K d" "qname_ok q"
  shows "safe K d (kdel (TaskKey K q i) (zdel (CompletedKey K q) i (zdel (ArchivedKey K q) i
    (zdel (RetryKey K q) i (zdel (ScheduledKey K q) i d)))))"
  using intactD(1,3,4) [OF assms(1)] assms(2)
  by (intro safe_script [OF assms(1,2), where j = i and ns = "[]"]) (auto simp: key_render view_defs)

lemma safe_unpark_push:
  assumes "intact K d" "qname_ok q"
  shows "safe K d (set_state K q st i (xpush R (StreamKey K q) i (unpark K q i d)))"
proof -
  let ?d = "unpark K q i d"
  have "appended i (strm K q ?d) (strm K q (xpush R (StreamKey K q) i ?d))"
    using intactD [OF assms(1)] assms(2) by (intro push_appended) (simp_all add: unpark_def key_render)
  then have p: "appended i (strm K q d) (strm K q (set_state K q st i (xpush R (StreamKey K q) i ?d)))"
    using assms(2) by (simp add: strm_def write_defs key_render unpark_def)
  then show ?thesis
    using intactD(1,3,4) [OF assms(1)] assms(2)
    by (intro safe_script [OF assms(1,2), where j = i and ns = "[]"])
      (auto simp: write_defs key_render body_def parked_def zmem_def unpark_def)
qed

lemma safe_unpark_gone:
  assumes "intact K d" "qname_ok q" "d (TaskKey K q i) = None"
  shows "safe K d (unpark K q i d)"
  using intactD(1,3,4) [OF assms(1)] assms(2,3)
  by (intro safe_script [OF assms(1,2), where j = i and ns = "[]"])
    (auto simp: key_render view_defs unpark_def)

lemma safe_unpark_none:
  assumes "intact K d" "qname_ok q" "\<not> parked K q i d"
  shows "safe K d (unpark K q i d)"
  using intactD(1,3,4,5) [OF assms(1)] assms(2,3)
  by (intro safe_one [OF assms(1,2), where j = i])
    (auto simp: key_render view_defs unpark_def covered_def)

lemma safe_set_state:
  assumes "intact K d" "qname_ok q"
  shows "safe K d (set_state K q st i d)"
  using intactD(1,3,4,5) [OF assms(1)] assms(2)
  by (intro safe_one [OF assms(1,2), where j = i])
    (auto simp: write_defs key_render view_defs covered_def)

end

text \<open>Steps that change neither tasks nor references: consumer groups and the passing of time.\<close>

lemma safe_views:
  assumes "wt K d'" "lasting K d'" "results_ok K d'" "\<And>q. qname_ok q \<Longrightarrow> pend_ok (strm K q d')"
    and v: "\<And>q i. qname_ok q \<Longrightarrow> body K q i d' = body K q i d \<and> parked K q i d' = parked K q i d \<and>
      entries (strm K q d') = entries (strm K q d) \<and> last_id (strm K q d') = last_id (strm K q d)"
  shows "safe K d d'"
proof -
  have "covered K q i N d' = covered K q i N d" if "qname_ok q" for q i N
    using v [OF that] by (simp add: covered_def listed_def)
  moreover have "grows (strm K q d) (strm K q d')" if "qname_ok q" for q
    using v [OF that] by (auto simp: grows_def)
  ultimately show ?thesis
    unfolding safe_def intact_def bodies_ok_def keeps_covered_def using assms by simp
qed

lemma safe_group_change:
  assumes "intact K d" "qname_ok q" "s_ok s" "pend_ok s"
    and "entries s = entries (strm K q d)" "last_id s = last_id (strm K q d)"
  shows "safe K d (d(StreamKey K q := mk_stream (d (StreamKey K q)) s))"
proof (rule safe_views)
  let ?d' = "d(StreamKey K q := mk_stream (d (StreamKey K q)) s)"
  note I = intactD [OF assms(1)]
  show "wt K ?d'" using wt_stream [OF I(1) assms(2,3)] by (simp add: key_render)
  show "lasting K ?d'" "results_ok K ?d'"
    using I(3,4) assms(2) by (auto simp: lasting_def results_ok_def key_render)
  have s: "strm K p ?d' = (if p = q then s else strm K p d)" if "qname_ok p" for p
    using that assms(2) by (simp add: strm_def key_render)
  show "pend_ok (strm K p ?d')" if "qname_ok p" for p
    using that assms(4) I(5) by (simp add: s)
  show "body K p i ?d' = body K p i d \<and> parked K p i ?d' = parked K p i d \<and>
      entries (strm K p ?d') = entries (strm K p d) \<and> last_id (strm K p ?d') = last_id (strm K p d)"
    if "qname_ok p" for p i
    using that assms(2,5,6) by (simp add: s) (simp add: body_def parked_def zmem_def key_render)
qed

text \<open>The passing of time.\<close>

lemma s_elapse_simps [simp]:
  "entries (s_elapse n s) = entries s" "last_id (s_elapse n s) = last_id s"
  "groups (s_elapse n s) g =
     map_option (\<lambda>G. G\<lparr>pel := map (\<lambda>(i, c, t). (i, c, t + n)) (pel G)\<rparr>) (groups s g)"
  by (simp_all add: s_elapse_def)

lemma map_fst_age: "map fst (map (\<lambda>(i, c, t). (i, c, t + n)) p) = map fst p"
  by (induction p) auto

lemma s_elapse_ok:
  assumes "s_ok s" shows "s_ok (s_elapse n s)"
proof -
  have "last_delivered H \<le> last_id s \<and> sorted_wrt (<) (map fst (pel H)) \<and>
      (\<forall>(i, c, t) \<in> set (pel H). i \<le> last_delivered H)"
    if H: "groups (s_elapse n s) g = Some H" for g H
  proof -
    obtain G where G: "groups s g = Some G" "H = G\<lparr>pel := map (\<lambda>(i, c, t). (i, c, t + n)) (pel G)\<rparr>"
      using H by auto
    have "last_delivered G \<le> last_id s" "sorted_wrt (<) (map fst (pel G))"
      "\<forall>(i, c, t) \<in> set (pel G). i \<le> last_delivered G"
      using assms G(1) unfolding s_ok_def by blast+
    moreover have "map fst (pel H) = map fst (pel G)" "last_delivered H = last_delivered G"
      using map_fst_age [of n "pel G"] unfolding G(2) by simp_all
    moreover have "\<forall>(i, c, t) \<in> set (pel H). i \<le> last_delivered G"
      using calculation(3) unfolding G(2) by auto
    ultimately show ?thesis by metis
  qed
  with assms show ?thesis unfolding s_ok_def s_elapse_simps(1,2) by blast
qed

lemma s_elapse_pend: "pend_ok s \<Longrightarrow> pend_ok (s_elapse n s)"
proof -
  have "fst ` set (map (\<lambda>(i, c, t). (i, c, t + n)) p) = fst ` set p" for p :: "(sid \<times> string \<times> int) list"
    using map_fst_age [of n p] by (metis set_map)
  then show "pend_ok s \<Longrightarrow> pend_ok (s_elapse n s)" by (auto simp: pend_ok_def)
qed

lemma age_data_simps [simp]:
  "age_data n (RHash h) = RHash h" "age_data n (RSet X) = RSet X" "age_data n (RZSet z) = RZSet z"
  "age_data n (RStr x) = RStr x" "age_data n (RStream s) = RStream (s_elapse n s)"
  by (simp_all add: age_data_def)

lemma s_elapse_empty [simp]: "s_elapse n empty_stream = empty_stream"
  by (simp add: s_elapse_def empty_stream_def)

lemma age_Some [simp]:
  "age n None = None" "age n (Some (v, None)) = Some (age_data n v, None)"
  "age n (Some (v, Some r)) = (if r \<le> n then None else Some (age_data n v, Some (r - n)))"
  by (simp_all add: age_def)

lemma age_split:
  "P (age n e) = ((e = None \<longrightarrow> P None) \<and> (\<forall>v. e = Some (v, None) \<longrightarrow> P (Some (age_data n v, None))) \<and>
     (\<forall>v r. e = Some (v, Some r) \<longrightarrow> P (if r \<le> n then None else Some (age_data n v, Some (r - n)))))"
proof (cases e)
  case (Some p)
  then show ?thesis by (cases p; cases "snd p") auto
qed simp

lemma age_types [simp]:
  "is_hash e \<Longrightarrow> is_hash (age n e)" "is_zset e \<Longrightarrow> is_zset (age n e)" "is_set e \<Longrightarrow> is_set (age n e)"
  "is_str e \<Longrightarrow> is_str (age n e)" "is_stream e \<Longrightarrow> is_stream (age n e)"
  unfolding age_split by (auto elim!: is_hash.elims is_zset.elims is_set.elims is_str.elims is_stream.elims)

lemma age_ok [simp]: "e_ok e \<Longrightarrow> e_ok (age n e)"
  unfolding age_split by (auto elim!: e_ok.elims simp: s_elapse_ok)

lemma ttl_None_cases:
  assumes "e_ttl e = None" obtains "e = None" | v where "e = Some (v, None)"
  using assms by (cases e) (auto simp: e_ttl_def)

lemma age_simps [simp]:
  "e_ttl e = None \<Longrightarrow> e_ttl (age n e) = None" "e_ttl e = None \<Longrightarrow> e_hash (age n e) = e_hash e"
  "e_ttl e = None \<Longrightarrow> e_zset (age n e) = e_zset e"
  "e_ttl e = None \<Longrightarrow> e_stream (age n e) = s_elapse n (e_stream e)"
proof -
  assume e: "e_ttl e = None"
  have "e_hash (Some (age_data n v, None)) = e_hash (Some (v, None))"
    "e_zset (Some (age_data n v, None)) = e_zset (Some (v, None))"
    "e_stream (Some (age_data n v, None)) = s_elapse n (e_stream (Some (v, None)))" for v
    by (cases v; simp)+
  then show "e_ttl (age n e) = None" "e_hash (age n e) = e_hash e" "e_zset (age n e) = e_zset e"
    "e_stream (age n e) = s_elapse n (e_stream e)"
    using e by (auto elim!: ttl_None_cases)
qed

lemma age_hash: "e_hash (age n e) f = Some v \<Longrightarrow> e_hash e f = Some v"
proof (cases e rule: e_hash.cases)
  case (1 h t)
  then show "e_hash (age n e) f = Some v \<Longrightarrow> ?thesis" by (cases t) (auto split: if_splits)
qed (auto simp: age_def split: option.splits if_splits)

lemma age_type: "type_of rk e \<Longrightarrow> type_of rk (age n e)"
  by (cases rk) simp_all

lemma safe_elapse:
  assumes "intact K d"
  shows "safe K d (elapse n d)"
proof (rule safe_views)
  note I = intactD [OF assms]
  show "wt K (elapse n d)"
    using I(1) unfolding wt_def elapse_def by (auto intro: age_type)
  show "lasting K (elapse n d)" using I(3) by (simp add: lasting_def elapse_def)
  show "results_ok K (elapse n d)"
    unfolding results_ok_def elapse_def
  proof (intro allI impI)
    fix q g f v
    assume "qname_ok q" "e_hash (age n (d (GroupResultKey K q g))) f = Some v"
    then show "\<exists>bs. v = Txt (b64_encode bs)" using I(4) age_hash unfolding results_ok_def by blast
  qed
  have t: "e_ttl (d (StreamKey K q)) = None" if "qname_ok q" for q
    using wt_eok [OF I(1), of "KStream q"] wt_types(1) [OF I(1) that] that
    by (simp add: key_render e_ok_parts)
  then show "pend_ok (strm K q (elapse n d))" if "qname_ok q" for q
    using that I(5) by (simp add: strm_def elapse_def s_elapse_pend)
  show "body K q i (elapse n d) = body K q i d \<and> parked K q i (elapse n d) = parked K q i d \<and>
      entries (strm K q (elapse n d)) = entries (strm K q d) \<and>
      last_id (strm K q (elapse n d)) = last_id (strm K q d)" if "qname_ok q" for q i
    using that t I(3) by (simp add: view_defs elapse_def lasting_def)
qed

end
