(* ===== verification/Safe_Core.thy ===== *)
theory Safe_Core
  imports Safety
begin

section \<open>The queue operations are safe\<close>

text \<open>
  The rely/guarantee triples of the operations of internal/rdb/rdb.go, schedule.go, retry.go and
  forward.go, and what a worker knows about the entries that it was handed.
\<close>

abbreviation tri ::
  "Keys \<Rightarrow> (keyspace \<Rightarrow> bool) \<Rightarrow> (world \<Rightarrow> 'r \<times> world) \<Rightarrow> ('r \<Rightarrow> keyspace \<Rightarrow> bool) \<Rightarrow> bool" where
  "tri K \<equiv> triple (intact K) (safe K)"

abbreviation stab :: "Keys \<Rightarrow> (keyspace \<Rightarrow> bool) \<Rightarrow> bool" where
  "stab K \<equiv> stable (intact K) (safe K)"

abbreviation whatever :: "'r \<Rightarrow> keyspace \<Rightarrow> bool" where
  "whatever \<equiv> \<lambda>_ _. True"

subsection \<open>Knowledge that survives interference\<close>

text \<open>A claimed entry: should it still be there, it is the one of task \<open>i\<close>.\<close>

definition owns :: "Keys \<Rightarrow> string \<Rightarrow> sid \<Rightarrow> string \<Rightarrow> keyspace \<Rightarrow> bool" where
  "owns K q n i d \<longleftrightarrow> qname_ok q \<and> n \<le> last_id (strm K q d) \<and> own_entries [n] i (strm K q d)"

text \<open>An orphan: an entry that is older than any reference the task can have by now.\<close>

definition orphan :: "Keys \<Rightarrow> string \<Rightarrow> sid \<Rightarrow> string \<Rightarrow> keyspace \<Rightarrow> bool" where
  "orphan K q n i d \<longleftrightarrow> owns K q n i d \<and>
     (\<exists>N. n \<le> N \<and> N \<le> last_id (strm K q d) \<and> covered K q i N d)"

lemma owns_grows: "grows s s' \<Longrightarrow> n \<le> last_id s \<Longrightarrow> own_entries [n] i s \<Longrightarrow> own_entries [n] i s'"
  by (fastforce simp: grows_def own_entries_def)

lemma stab_owns: "stab K (owns K q n i)"
  unfolding stable_def owns_def safe_def by (meson owns_grows grows_def order.trans)

lemma stab_orphan: "stab K (orphan K q n i)"
proof -
  have "orphan K q n i d'" if d: "intact K d" "orphan K q n i d" "safe K d d'" for d d'
  proof -
    obtain N where N: "n \<le> N" "N \<le> last_id (strm K q d)" "covered K q i N d" "qname_ok q"
      using d(2) unfolding orphan_def owns_def by blast
    have "covered K q i N d'" "last_id (strm K q d) \<le> last_id (strm K q d')"
      using d(1,3) N unfolding safe_def keeps_covered_def grows_def by blast+
    moreover have "owns K q n i d'" using d stab_owns unfolding stable_def orphan_def by blast
    ultimately show ?thesis using N unfolding orphan_def by (meson order.trans)
  qed
  then show ?thesis unfolding stable_def by blast
qed

text \<open>What a worker knows about a task that it was handed.\<close>

definition claim :: "Keys \<Rightarrow> string \<Rightarrow> sid \<Rightarrow> TaskMessage \<Rightarrow> keyspace \<Rightarrow> bool" where
  "claim K q n m d \<longleftrightarrow> task_wf K q m \<and> owns K q n (ID m) d"

lemma stab_claim: "stab K (claim K q n m)"
  unfolding claim_def by (intro stable_conj stable_const stab_owns)

lemmas stab_intros = stab_claim stable_conj stable_ball stable_imp stable_const stab_owns stab_orphan

subsection \<open>Derived rules\<close>

lemma seq:
  assumes "tri K P g (onok whatever)" "stab K P" "\<And>a. tri K P (f a) (onok Q)"
  shows "tri K P (andthen g f) (onok Q)"
proof (rule rg.andthen)
  show "tri K P g (onok (\<lambda>_. P))"
    using rg.frame [OF assms(1,2)] by (rule rg.conseq) (auto simp: onok_def split: sum.splits)
qed (rule assms(3))

lemma rt_safe:
  assumes "stab K P" "\<And>x. intact K x \<Longrightarrow> P x \<Longrightarrow> safe K x (snd (c x))"
  shows "tri K P (rt c) (onok whatever)"
  using assms by (intro rg.rt) auto

lemma ignored:
  assumes "tri K P f Q" "stab K P"
  shows "tri K P (\<lambda>w. ((), snd (f w))) (\<lambda>_. P)"
proof (rule rg.ignore)
  show "tri K P f (\<lambda>_. P)" using rg.frame [OF assms] by (rule rg.conseq) auto
qed

lemma weaken: "tri K P f Q \<Longrightarrow> (\<And>d. intact K d \<Longrightarrow> P' d \<Longrightarrow> P d) \<Longrightarrow> tri K P' f Q"
  by (erule rg.conseq) auto

definition clock_ok :: "time \<Rightarrow> bool" where
  "clock_ok t \<longleftrightarrow> int64_ok (Unix t)"

text \<open>Entries that a read or a claim returns.\<close>

definition owns_all :: "Keys \<Rightarrow> string \<Rightarrow> (sid \<times> string) list \<Rightarrow> keyspace \<Rightarrow> bool" where
  "owns_all K q es d \<longleftrightarrow> (\<forall>(n, v) \<in> set es. owns K q n v d)"

definition block_ok :: "duration \<Rightarrow> bool" where
  "block_ok b \<longleftrightarrow> b \<le> 0 \<or> Millisecond \<le> b"

text \<open>The stages of a batch read, sequenced.\<close>

definition activate :: "redis \<Rightarrow> Keys \<Rightarrow> string \<Rightarrow> Dequeued list \<Rightarrow> Dequeued list go" where
  "activate R K q tasks = (if tasks = [] then fail ErrNoTask
     else andthen (pipeline (map (\<lambda>t. HSET R (TaskKey K q (ID (Msg t))) [(''state'', Num StateActive)]) tasks))
       (\<lambda>rs. case first_err rs of Inl e \<Rightarrow> fail (RedisErr e) | Inr _ \<Rightarrow> return tasks))"

definition fetch_bodies :: "redis \<Rightarrow> Keys \<Rightarrow> string \<Rightarrow> (sid \<times> string) list \<Rightarrow> (rerr + rstr option) list go" where
  "fetch_bodies R K q es = pipeline (map (\<lambda>(i, v). HGET R (TaskKey K q v) ''msg'') es)"

definition fetched :: "Keys \<Rightarrow> string \<Rightarrow> Dequeued list \<times> sid list \<Rightarrow> keyspace \<Rightarrow> bool" where
  "fetched K q p d \<longleftrightarrow> qname_ok q \<and> (\<forall>t \<in> set (fst p). claim K q (StreamID t) (Msg t) d) \<and>
     (\<forall>n \<in> set (snd p). \<exists>v. orphan K q n v d)"

definition claims :: "Keys \<Rightarrow> string \<Rightarrow> Dequeued list \<Rightarrow> keyspace \<Rightarrow> bool" where
  "claims K q ts d \<longleftrightarrow> qname_ok q \<and> (\<forall>t \<in> set ts. claim K q (StreamID t) (Msg t) d)"

context redis_laws
begin

subsection \<open>Storing tasks\<close>

lemma frame_safe:
  assumes "intact K d" "wt K d'" "results_ok K d'"
    and "\<And>rk. rkey_ok rk \<Longrightarrow> task_key rk \<Longrightarrow> d' (render K rk) = d (render K rk)"
  shows "safe K d d'"
  using assms by (intro safe_frame) auto

lemma task_key_neq [simp]:
  "task_key rk \<Longrightarrow> rk \<noteq> KQueues" "task_key rk \<Longrightarrow> rk \<noteq> KPaused" "task_key rk \<Longrightarrow> rk \<noteq> KSchedules"
  "task_key rk \<Longrightarrow> rk \<noteq> KLeader" "task_key rk \<Longrightarrow> rk \<noteq> KLastFired s" "task_key rk \<Longrightarrow> rk \<noteq> KUnique q s"
  "task_key rk \<Longrightarrow> rk \<noteq> KPeriodicDedup q s" "task_key rk \<Longrightarrow> rk \<noteq> KGroup q s"
  "task_key rk \<Longrightarrow> rk \<noteq> KGroupResult q s"
  by (auto simp: task_key_def)

lemma registerQueue_tri: "tri K P (registerQueue R K q) (onok whatever)"
proof (rule weaken)
  have "safe K d (snd (SADD R (QueuesKey K) [q] d))" if "intact K d" for d
    using intactD [OF that] by (intro frame_safe [OF that]) (auto simp: typed_commands key_render)
  then show "tri K (\<lambda>_. True) (registerQueue R K q) (onok whatever)"
    unfolding registerQueue_def [abs_def]
    by (intro rg.cond rg.pure seq rt_safe rg.known) auto
qed simp

lemma wf_queue: "task_wf K q m \<Longrightarrow> qname_ok q"
  by (simp add: task_wf_def)

lemma Enqueue_tri: "tri K (\<lambda>_. task_wf K (Queue msg) msg) (Enqueue R K msg) (onok whatever)"
proof -
  have "safe K d (snd (enqueueCmd R (TaskKey K q i) (StreamKey K q) (CompletedKey K q)
      (ArchivedKey K q) (Doc (EncodeMessage m)) (Num st) i d))"
    if "intact K d" "task_wf K q m" "ID m = i" for d q i m st
    using that safe_enqueue [OF that(1) wf_queue [OF that(2)]] body_ok_encode [OF that(2)]
    by (simp add: enqueueCmd_run [OF intactD(1) wf_queue])
  then show ?thesis
    unfolding Enqueue_def Let_def
    by (intro seq registerQueue_tri rt_safe rg.return) auto
qed

lemma Schedule_tri: "tri K (\<lambda>_. task_wf K (Queue msg) msg) (Schedule R K msg t) (onok whatever)"
proof -
  have "safe K d (snd (scheduleCmd R (TaskKey K q i) (ScheduledKey K q) (CompletedKey K q)
      (ArchivedKey K q) (Doc (EncodeMessage m)) (Num st) x i d))"
    if "intact K d" "task_wf K q m" "ID m = i" for d q i m st x
    using that safe_schedule [OF that(1) wf_queue [OF that(2)]] body_ok_encode [OF that(2)]
    by (simp add: scheduleCmd_run [OF intactD(1) wf_queue])
  then show ?thesis
    unfolding Schedule_def Let_def
    by (intro seq registerQueue_tri rt_safe rg.return) auto
qed

subsection \<open>Finishing tasks\<close>

lemma claimD:
  "claim K q n m d \<Longrightarrow> qname_ok q" "claim K q n m d \<Longrightarrow> own_entries [n] (ID m) (strm K q d)"
  "claim K q n m d \<Longrightarrow> task_wf K q m"
  by (simp_all add: claim_def owns_def)

lemma Requeue_tri: "tri K (claim K q n m) (Requeue R K q n m) (onok whatever)"
proof -
  have "safe K d (snd (requeueCmd R (StreamKey K q) (TaskKey K q (ID m)) ConsumerGroup n (ID m)
      (Num StatePending) d))" if "intact K d" "claim K q n m d" for d
    unfolding requeueCmd_run [OF intactD(1) [OF that(1)] claimD(1) [OF that(2)]] snd_conv
    by (rule safe_requeue [OF that(1) claimD(1,2) [OF that(2)]])
  then show ?thesis
    unfolding Requeue_def by (intro seq rt_safe rg.return stab_claim) auto
qed

lemma unique_frame:
  assumes "intact K d" "qname_ok q"
  shows "safe K d (kdel (UniqueKey K q u) d)" "safe K d (vput (UniqueKey K q u) x t d)"
    "safe K d (tput (UniqueKey K q u) ms d)"
  using intactD [OF assms(1)] assms(2)
  by (intro frame_safe [OF assms(1)]; auto simp: key_render)+

lemma releaseUnique_tri:
  "tri K (\<lambda>_. qname_ok q \<and> lock_ok K q (UniqueLock m)) (releaseUnique R m) (onok whatever)"
proof (cases "UniqueLock m = []")
  case True
  then show ?thesis by (auto simp: releaseUnique_def intro: rg.return)
next
  case False
  have "safe K d (snd (releaseUniqueCmd R (UniqueLock m) (ID m) d))"
    if h: "intact K d" "qname_ok q" "lock_ok K q (UniqueLock m)" for d
  proof -
    obtain u where u: "UniqueLock m = UniqueKey K q u" using h(3) False by (auto simp: lock_ok_def)
    show ?thesis
      using unique_frame(1) [OF h(1,2), of u] safe_refl
      unfolding u releaseUniqueCmd_run [OF intactD(1) [OF h(1)] h(2)] by auto
  qed
  then show ?thesis using False by (auto simp: releaseUnique_def intro!: seq rt_safe rg.return)
qed

lemma moveToZSet_tri:
  assumes "z = RetryKey K q \<or> z = ArchivedKey K q \<or> z = CompletedKey K q" "int64_ok st"
  shows "tri K (claim K q n m) (moveToZSet R K q n m z st x) (onok whatever)"
proof -
  have "safe K d (snd (moveToZSetCmd R (StreamKey K q) (TaskKey K q (ID m)) z ConsumerGroup n
      (Doc (EncodeMessage (m\<lparr>State := st\<rparr>))) (Num st) y (ID m) d))"
    if "intact K d" "claim K q n m d" for d y
    unfolding moveToZSetCmd_run [OF intactD(1) [OF that(1)] claimD(1) [OF that(2)] assms(1)] snd_conv
    using body_ok_encode [of K q "m\<lparr>State := st\<rparr>"] task_wf_state [OF assms(2) claimD(3) [OF that(2)]]
    by (intro safe_move [OF that(1) claimD(1) [OF that(2)] _ claimD(2) [OF that(2)] assms(1)]) simp
  then show ?thesis
    unfolding moveToZSet_def Let_def by (intro seq rt_safe rg.return stab_claim) auto
qed

lemma Retry_tri: "tri K (claim K q n m) (Retry R K q n m t) (onok whatever)"
  unfolding Retry_def by (rule moveToZSet_tri) simp_all

lemma claim_lock: "claim K q n m d \<Longrightarrow> qname_ok q \<and> lock_ok K q (UniqueLock m)"
  by (simp add: claim_def task_wf_def)

lemma Archive_tri: "tri K (claim K q n m) (Archive R K q n m t) (onok whatever)"
  unfolding Archive_def
  by (intro seq moveToZSet_tri stab_claim weaken [OF releaseUnique_tri claim_lock]) simp_all

lemma claim_completed:
  "int64_ok c \<Longrightarrow> claim K q n m d \<Longrightarrow> claim K q n (m\<lparr>CompletedAt := c\<rparr>) d"
  by (auto simp: claim_def task_wf_def msg_ok_def)

lemma Done_tri: "tri K (\<lambda>d. clock_ok now \<and> claim K q n m d) (Done R K now q n m) (onok whatever)"
proof (cases "0 < Retention m")
  case True
  let ?m = "m\<lparr>CompletedAt := Unix now\<rparr>"
  have "tri K (claim K q n ?m) (andthen (moveToZSet R K q n ?m (CompletedKey K q) StateCompleted
      (Unix now + Retention m)) (\<lambda>_. releaseUnique R ?m)) (onok whatever)"
    by (intro seq moveToZSet_tri stab_claim weaken [OF releaseUnique_tri claim_lock]) simp_all
  then show ?thesis
    using True by (auto simp: Done_def Let_def clock_ok_def intro!: claim_completed elim!: weaken)
next
  case False
  have "safe K d (snd (tx [XACK R (StreamKey K q) ConsumerGroup [n], XDEL R (StreamKey K q) [n],
      DEL R [TaskKey K q (ID m)]] d))" if "intact K d" "claim K q n m d" for d
    unfolding done_run [OF intactD(1) [OF that(1)] claimD(1) [OF that(2)]] snd_conv
    by (rule safe_done [OF that(1) claimD(1,2) [OF that(2)]])
  then have "tri K (claim K q n m) (Done R K now q n m) (onok whatever)"
    using False unfolding Done_def if_not_P [OF False]
    by (intro seq rt_safe stab_claim weaken [OF releaseUnique_tri claim_lock]) simp_all
  then show ?thesis by (rule weaken) simp
qed

subsection \<open>Consumer groups and claiming\<close>

lemma XGROUP_CREATE_safe:
  assumes "intact K d" "qname_ok q"
  shows "safe K d (snd (XGROUP_CREATE R (StreamKey K q) ConsumerGroup d))"
proof (cases "groups (e_stream (d (StreamKey K q))) ConsumerGroup")
  case None
  note I = intactD [OF assms(1)]
  have t: "is_stream (d (StreamKey K q))" using I(1) assms(2) by (simp add: key_render)
  have "s_ok (strm K q d)" using I assms(2) by (simp add: strm_ok)
  then have "safe K d (d(StreamKey K q := mk_stream (d (StreamKey K q)) (s_group_create ConsumerGroup (strm K q d))))"
    by (intro safe_group_change [OF assms]) (auto intro: pend_ok_create s_ok_create)
  then show ?thesis by (simp add: XGROUP_CREATE [where d = d, OF t None] strm_def)
next
  case (Some G)
  have "is_stream (d (StreamKey K q))" using intactD(1) [OF assms(1)] assms(2) by (simp add: key_render)
  from XGROUP_CREATE_busy [where d = d, OF this Some] show ?thesis by (simp add: safe_refl)
qed

lemma EnsureGroup_tri: "tri K (\<lambda>_. qname_ok q) (EnsureGroup R K q) (onok whatever)"
  unfolding EnsureGroup_def [abs_def]
proof (rule rg.sum_case)
  show "tri K (\<lambda>_. qname_ok q) (rt (XGROUP_CREATE R (StreamKey K q) ConsumerGroup)) (onok whatever)"
    by (rule rt_safe) (auto intro: XGROUP_CREATE_safe)
  show "tri K (onok whatever (Inl e)) (\<lambda>w. if e = RedisErr BusyGroup then (Inr (), w) else (Inl e, w))
      (onok whatever)" for e :: err
    by (cases "e = RedisErr BusyGroup") (auto intro: rg.pure)
  show "tri K (onok whatever (Inr a)) (\<lambda>w. (Inr (), w)) (onok whatever)" for a :: unit
    by (rule rg.pure) simp
qed

lemma stab_owns_all: "stab K (owns_all K q es)"
  unfolding owns_all_def case_prod_beta by (intro stable_ball stab_owns)

lemma owns_entry:
  assumes "s_ok (strm K q d)" "(n, v) \<in> set (entries (strm K q d))" "qname_ok q"
  shows "owns K q n v d"
proof -
  have "v' = v" if "(n, v') \<in> set (entries (strm K q d))" for v'
  proof -
    have "distinct (map fst (entries (strm K q d)))"
      using assms(1) strict_sorted_iff unfolding s_ok_def by blast
    then show ?thesis using that assms(2) by (meson eq_key_imp_eq_value)
  qed
  moreover have "n \<le> last_id (strm K q d)" using assms(1,2) unfolding s_ok_def by auto
  ultimately show ?thesis using assms(3) by (auto simp: owns_def own_entries_def)
qed

lemma blockArg_ok: "block_ok b \<Longrightarrow> pred_option (\<lambda>x. 0 < x) (blockArg b)"
  by (auto simp: block_ok_def blockArg_def Milliseconds_def quot_nonneg Millisecond_def)

lemma XREADGROUP_safe:
  assumes "intact K d" "qname_ok q" "0 < k" "pred_option (\<lambda>x. 0 < x) b"
  shows "safe K d (snd (XREADGROUP R ConsumerGroup c (StreamKey K q) k b d)) \<and>
    (\<forall>es. fst (XREADGROUP R ConsumerGroup c (StreamKey K q) k b d) = Inr (Some es) \<longrightarrow>
       owns_all K q es (snd (XREADGROUP R ConsumerGroup c (StreamKey K q) k b d)))"
proof -
  note I = intactD [OF assms(1)]
  have t: "is_stream (d (StreamKey K q))" using I(1) assms(2) by (simp add: key_render)
  have ok: "s_ok (strm K q d)" "pend_ok (strm K q d)" using I assms(2) by (simp_all add: strm_ok)
  show ?thesis
  proof (cases "groups (strm K q d) ConsumerGroup")
    case None
    then show ?thesis using XREADGROUP_nogroup [where d = d, OF t] safe_refl by (simp add: strm_def)
  next
    case (Some G)
    let ?new = "s_new G k (strm K q d)"
    let ?s = "s_deliver ConsumerGroup c G ?new (strm K q d)"
    let ?d' = "d(StreamKey K q := mk_stream (d (StreamKey K q)) ?s)"
    have r: "XREADGROUP R ConsumerGroup c (StreamKey K q) k b d =
        (if ?new = [] then (Inr None, d) else (Inr (Some ?new), ?d'))"
      using XREADGROUP [where d = d, OF t _ assms(3,4), of ConsumerGroup G c] Some by (simp add: strm_def Let_def)
    have s: "safe K d ?d'"
      using s_ok_deliver [OF ok(1) Some] pend_ok_deliver [OF ok(2,1) Some]
      by (intro safe_group_change [OF assms(1,2)]) auto
    have "strm K q ?d' = ?s" by (simp add: strm_def)
    moreover have "set ?new \<subseteq> set (entries (strm K q d))"
      by (auto simp: s_new_def dest: in_set_takeD)
    moreover have "s_ok ?s" using s_ok_deliver [OF ok(1) Some refl] .
    ultimately have "owns_all K q ?new ?d'"
      using assms(2) unfolding owns_all_def by (auto intro!: owns_entry)
    then show ?thesis using s safe_refl by (auto simp: r)
  qed
qed

lemma DequeueBatch_stages:
  "DequeueBatch R K c b q n = andthen
     (rt (XREADGROUP R ConsumerGroup c (StreamKey K q) (nat (if n < 1 then 1 else n)) (blockArg b)))
     (\<lambda>r. case r of None \<Rightarrow> fail ErrNoTask | Some es \<Rightarrow>
       if es = [] then fail ErrNoTask
       else andthen (fetch_bodies R K q es) (\<lambda>rs. case first_err rs of Inl e \<Rightarrow> fail (RedisErr e)
         | Inr _ \<Rightarrow> (\<lambda>w. activate R K q (fst (collect es rs)) (dropOrphans R (StreamKey K q) (snd (collect es rs)) w))))"
  unfolding DequeueBatch_def fetch_bodies_def activate_def andthen_def return_def fail_def Let_def
  by (rule ext) (auto split: prod.split sum.split option.split)

lemma stab_fetched: "stab K (fetched K q p)"
  unfolding fetched_def by (intro stab_intros stable_ex)

lemma orphan_gone: "body K q v d = None \<Longrightarrow> owns K q n v d \<Longrightarrow> orphan K q n v d"
  by (auto simp: orphan_def covered_def owns_def)

lemma run_all_gets:
  assumes "wt K d" "qname_ok q"
  shows "run_all (map (\<lambda>(i, v). HGET R (TaskKey K q v) ''msg'') es) d =
    (map (\<lambda>(i, v). Inr (body K q v d)) es, d)"
  using assms by (induction es) (auto simp: typed_commands key_render body_def)

lemma collect_fetched:
  assumes "intact K d" "qname_ok q" "owns_all K q es d"
  shows "fetched K q (collect es (map (\<lambda>(i, v). Inr (body K q v d)) es)) d"
  using assms(3)
proof (induction es)
  case (Cons e es)
  obtain n v where e: "e = (n, v)" by fastforce
  have o: "owns K q n v d" and IH: "fetched K q (collect es (map (\<lambda>(i, v). Inr (body K q v d)) es)) d"
    using Cons by (auto simp: owns_all_def e)
  show ?case
  proof (cases "body K q v d")
    case None
    then show ?thesis using IH orphan_gone [OF None o] by (auto simp: e fetched_def split: prod.split)
  next
    case (Some raw)
    then obtain m where "decode_body raw = Some m" "ID m = v" "task_wf K q m"
      using intactD(2) [OF assms(1)] assms(2) unfolding bodies_ok_def body_ok_def by blast
    then show ?thesis using IH o Some by (auto simp: e fetched_def claim_def split: prod.split)
  qed
qed (simp add: fetched_def assms(2))

lemma fetch_bodies_tri:
  "tri K (\<lambda>d. qname_ok q \<and> owns_all K q es d) (fetch_bodies R K q es) (onok (\<lambda>rs. fetched K q (collect es rs)))"
  unfolding fetch_bodies_def
proof (rule rg.pipeline)
  show "stab K (\<lambda>d. qname_ok q \<and> owns_all K q es d)" by (intro stab_intros stab_owns_all)
  show "safe K x (snd (c x))"
    if "c \<in> set (map (\<lambda>(i, v). HGET R (TaskKey K q v) ''msg'') es)" "intact K x" "qname_ok q \<and> owns_all K q es x"
    for c x
    using that intactD(1) [OF that(2)] by (auto simp: typed_commands key_render safe_refl)
  show "fetched K q (collect es (fst (run_all (map (\<lambda>(i, v). HGET R (TaskKey K q v) ''msg'') es) x)))
      (snd (run_all (map (\<lambda>(i, v). HGET R (TaskKey K q v) ''msg'') es) x))"
    if "intact K x" "qname_ok q \<and> owns_all K q es x" for x
    using that collect_fetched by (simp add: run_all_gets [OF intactD(1)])
qed

lemma s_drop_Cons:
  "s_del (n # ns) (s_ack g (n # ns) s) = s_del ns (s_ack g ns (s_del [n] (s_ack g [n] s)))"
  by (auto simp: s_del_def s_ack_def s_map_pel_def case_prod_beta' conj_commute split: option.split)

lemma drop_entry_Cons: "drop_entry K q (n # ns) d = drop_entry K q ns (drop_entry K q [n] d)"
  using s_drop_Cons [of n ns ConsumerGroup "e_stream (d (StreamKey K q))"]
  by (auto simp: drop_entry_def upd_stream_def mk_stream_def)

lemma safe_drop_orphans:
  assumes "intact K d" "qname_ok q" "\<forall>n \<in> set ns. \<exists>v. orphan K q n v d"
  shows "safe K d (drop_entry K q ns d)"
  using assms
proof (induction ns arbitrary: d)
  case Nil
  have "own_entries [] [] (strm K q d)" by (simp add: own_entries_def split_beta)
  then show ?case using safe_orphan [OF Nil(1,2), of "[]" "[]" 0] intactD(6) [OF Nil(1,2)] by simp
next
  case (Cons n ns)
  then obtain v where v: "orphan K q n v d" by auto
  then obtain N where N: "own_entries [n] v (strm K q d)" "n \<le> N" "covered K q v N d"
    unfolding orphan_def owns_def by blast
  have s: "safe K d (drop_entry K q [n] d)"
    using safe_orphan [OF Cons.prems(1,2) N(1) _ N(3)] N(2) by simp
  have "orphan K q m u (drop_entry K q [n] d)" if "orphan K q m u d" for m u
    using stab_orphan that Cons.prems(1) s unfolding stable_def by blast
  then have "\<forall>m \<in> set ns. \<exists>u. orphan K q m u (drop_entry K q [n] d)" using Cons.prems(3) by fastforce
  then have "safe K (drop_entry K q [n] d) (drop_entry K q ns (drop_entry K q [n] d))"
    using Cons.IH [OF safe_intact [OF Cons.prems(1) s] Cons.prems(2)] by simp
  with s show ?case unfolding drop_entry_Cons [of K q n ns d] by (rule safe_trans)
qed

lemma dropOrphans_tri:
  "tri K (fetched K q p) (\<lambda>w. ((), dropOrphans R (StreamKey K q) (snd p) w)) (\<lambda>_. fetched K q p)"
proof (cases "snd p = []")
  case True
  then show ?thesis by (auto simp: dropOrphans_def intro: rg.pure)
next
  case False
  have "tri K (fetched K q p) (rt (tx [XACK R (StreamKey K q) ConsumerGroup (snd p), XDEL R (StreamKey K q) (snd p)]))
      (onok whatever)"
    by (rule rt_safe [OF stab_fetched])
      (auto simp: fetched_def ack_run [OF intactD(1)] intro: safe_drop_orphans)
  from ignored [OF this stab_fetched] show ?thesis using False by (simp add: dropOrphans_def)
qed

lemma stab_claims: "stab K (claims K q ts)"
  unfolding claims_def by (intro stab_intros)

lemma activate_tri:
  "tri K (claims K q ts) (activate R K q ts) (onok (\<lambda>ts d. ts \<noteq> [] \<and> claims K q ts d))"
proof (cases "ts = []")
  case False
  let ?cs = "map (\<lambda>t. HSET R (TaskKey K q (ID (Msg t))) [(''state'', Num StateActive)]) ts"
  have "tri K (claims K q ts) (pipeline ?cs) (onok whatever)"
  proof (rule rg.pipeline [OF stab_claims])
    fix c x
    assume "c \<in> set ?cs" and x: "intact K x" "claims K q ts x"
    then obtain i where "c = HSET R (TaskKey K q i) [(''state'', Num StateActive)]" by auto
    moreover have q: "qname_ok q" using x(2) by (simp add: claims_def)
    ultimately have "snd (c x) = set_state K q StateActive i x"
      using intactD(1) [OF x(1)] by (simp add: typed_commands key_render set_state_def)
    then show "safe K x (snd (c x))" using safe_set_state [OF x(1) q] by simp
  qed simp
  then show ?thesis
    unfolding activate_def if_not_P [OF False]
    by (rule seq [OF _ stab_claims])
      (use False in \<open>auto intro!: rg.fail rg.return split: sum.split\<close>)
qed (auto simp: activate_def intro: rg.fail)

lemma DequeueBatch_tri:
  "tri K (\<lambda>_. qname_ok q \<and> block_ok b) (DequeueBatch R K c b q n)
    (onok (\<lambda>ts d. ts \<noteq> [] \<and> claims K q ts d))"
  unfolding DequeueBatch_stages
proof (rule rg.andthen)
  let ?n = "nat (if n < 1 then 1 else n)"
  show "tri K (\<lambda>_. qname_ok q \<and> block_ok b)
      (rt (XREADGROUP R ConsumerGroup c (StreamKey K q) ?n (blockArg b)))
      (onok (\<lambda>r d. qname_ok q \<and> (\<forall>es. r = Some es \<longrightarrow> owns_all K q es d)))"
    by (rule rg.rt) (use XREADGROUP_safe [of K _ q ?n "blockArg b" c] blockArg_ok in auto)
  fix r
  have body: "tri K (\<lambda>d. qname_ok q \<and> owns_all K q es d)
      (andthen (fetch_bodies R K q es) (\<lambda>rs. case first_err rs of Inl e \<Rightarrow> fail (RedisErr e)
         | Inr _ \<Rightarrow> (\<lambda>w. activate R K q (fst (collect es rs)) (dropOrphans R (StreamKey K q) (snd (collect es rs)) w))))
      (onok (\<lambda>ts d. ts \<noteq> [] \<and> claims K q ts d))" for es
  proof (rule rg.andthen [OF fetch_bodies_tri])
    fix rs
    have "tri K (fetched K q (collect es rs))
        (\<lambda>w. activate R K q (fst (collect es rs)) (dropOrphans R (StreamKey K q) (snd (collect es rs)) w))
        (onok (\<lambda>ts d. ts \<noteq> [] \<and> claims K q ts d))"
      using rg.bind [OF dropOrphans_tri [of K q "collect es rs"], where k = "\<lambda>_. activate R K q (fst (collect es rs))"]
        weaken [OF activate_tri [of K q "fst (collect es rs)"], of "fetched K q (collect es rs)"]
      by (simp add: fetched_def claims_def)
    then show "tri K (fetched K q (collect es rs)) (case first_err rs of Inl e \<Rightarrow> fail (RedisErr e)
         | Inr _ \<Rightarrow> (\<lambda>w. activate R K q (fst (collect es rs)) (dropOrphans R (StreamKey K q) (snd (collect es rs)) w)))
        (onok (\<lambda>ts d. ts \<noteq> [] \<and> claims K q ts d))"
      by (auto intro: rg.fail split: sum.split)
  qed
  show "tri K (\<lambda>d. qname_ok q \<and> (\<forall>es. r = Some es \<longrightarrow> owns_all K q es d))
      (case r of None \<Rightarrow> fail ErrNoTask | Some es \<Rightarrow> if es = [] then fail ErrNoTask
       else andthen (fetch_bodies R K q es) (\<lambda>rs. case first_err rs of Inl e \<Rightarrow> fail (RedisErr e)
         | Inr _ \<Rightarrow> (\<lambda>w. activate R K q (fst (collect es rs)) (dropOrphans R (StreamKey K q) (snd (collect es rs)) w))))
      (onok (\<lambda>ts d. ts \<noteq> [] \<and> claims K q ts d))"
    by (cases r) (auto intro: rg.fail weaken [OF body])
qed

lemma Dequeue_tri:
  "tri K (\<lambda>_. qname_ok q \<and> block_ok b) (Dequeue R K c b q) (onok (\<lambda>(m, n). claim K q n m))"
  unfolding Dequeue_def
  by (rule rg.andthen [OF DequeueBatch_tri])
    (auto intro!: rg.return simp: claims_def split: list.split)

lemma safe_fold:
  assumes "intact K d" "\<And>x d. x \<in> set xs \<Longrightarrow> intact K d \<Longrightarrow> safe K d (f x d)"
  shows "safe K d (fold f xs d)"
  using assms
proof (induction xs arbitrary: d)
  case (Cons x xs)
  have s: "safe K d (f x d)" using Cons.prems by simp
  then have "safe K (f x d) (fold f xs (f x d))"
    using Cons.IH [OF safe_intact [OF Cons.prems(1) s]] Cons.prems(2) by simp
  then show ?case using safe_trans [OF s] by simp
qed (simp add: safe_refl)

lemma forward_safe:
  assumes "intact K d" "qname_ok q" "z = RetryKey K q \<or> z = ScheduledKey K q"
  shows "safe K d (snd (forwardCmd R z (StreamKey K q) x n (TaskKeyPrefix K q) (Num StatePending) d))"
  unfolding forwardCmd_run(1) [OF intactD(1) [OF assms(1)] assms(2,3)] Let_def snd_conv
  using assms by (intro safe_fold safe_forward_one)

lemma Forward_tri:
  "tri K (\<lambda>_. qname_ok q) (ForwardRetry R K q t n) (onok whatever)"
  "tri K (\<lambda>_. qname_ok q) (ForwardScheduled R K q t n) (onok whatever)"
  unfolding ForwardRetry_def ForwardScheduled_def by (rule rt_safe; auto intro: forward_safe)+

end

end
