(* ===== verification/Safe_Dedup.thy ===== *)
theory Safe_Dedup
  imports Safe_Core
begin

section \<open>The locking operations are safe\<close>

text \<open>
  The triples of the operations of internal/rdb/unique.go, periodic.go, chain.go, heartbeat.go and
  leader.go.
\<close>

definition unique_keys :: "Keys \<Rightarrow> string list \<Rightarrow> bool" where
  "unique_keys K ks \<longleftrightarrow> (\<forall>k \<in> set ks. \<exists>q u. qname_ok q \<and> k = UniqueKey K q u)"

context redis_laws
begin

subsection \<open>Locks and leases\<close>

lemma safe_then:
  "intact K d \<Longrightarrow> safe K d d1 \<Longrightarrow> (intact K d1 \<Longrightarrow> safe K d1 d2) \<Longrightarrow> safe K d d2"
  by (meson safe_intact safe_trans)

lemma ttl_pos [simp]: "0 < uniqueTTLMillis t" "0 < (if x < 1 then 1 else x :: int)"
  by (auto simp: uniqueTTLMillis_def Let_def)

lemma dedup_frame:
  assumes "intact K d" "qname_ok q"
  shows "safe K d (vput (PeriodicDedupKey K q u) x t d)"
  using intactD [OF assms(1)] assms(2) by (intro frame_safe [OF assms(1)]) (auto simp: key_render)

lemma utf8_ok_hex [simp]: "utf8_ok (hex_encode bs)"
proof (rule utf8_ok_ascii, rule ballI)
  fix c assume "c \<in> set (hex_encode bs)"
  then obtain k where "c = hex_digit k" "k < 16"
  proof -
    obtain b :: byte where b: "c \<in> {hex_digit (unat b div 16), hex_digit (unat b mod 16)}"
      using \<open>c \<in> set (hex_encode bs)\<close> by (auto simp: hex_encode_def)
    have "unat b < 256" using unsigned_less [of b] by simp
    then have "unat b div 16 < 16" "unat b mod 16 < 16" by linarith+
    then show thesis using b that [of "unat b div 16"] that [of "unat b mod 16"] by auto
  qed
  then show "of_char c < (128 :: nat)" by (auto simp: of_char_hex_digit)
qed

lemma task_wf_lock:
  "utf8_ok (prefix K) \<Longrightarrow> task_wf K q m \<Longrightarrow>
   task_wf K q (m\<lparr>UniqueLock := UniqueKey K q (UniqueSuffix (Kind m) p)\<rparr>)"
  by (auto simp: task_wf_def msg_ok_def lock_ok_def UniqueKey_def QueueKeyPrefix_def UniqueSuffix_def)

lemma task_wf_locked:
  "utf8_ok (prefix K) \<Longrightarrow> task_wf K q m \<Longrightarrow> int64_ok st \<Longrightarrow>
   task_wf K q (m\<lparr>UniqueLock := UniqueKey K q (UniqueSuffix (Kind m) p), State := st\<rparr>)"
  using task_wf_state [OF _ task_wf_lock] by simp

lemma EnqueueUnique_tri:
  "tri K (\<lambda>_. utf8_ok (prefix K) \<and> task_wf K (Queue msg) msg) (EnqueueUnique R K msg t) (onok whatever)"
proof -
  have run: "safe K d (snd (enqueueUniqueCmd R (UniqueKey K q u) (TaskKey K q i) (StreamKey K q)
      (CompletedKey K q) (ArchivedKey K q) i (uniqueTTLMillis t) (Doc (EncodeMessage m)) (Num st) d))"
    if "intact K d" "task_wf K q m" "ID m = i" for d q u i m st
    using that safe_refl body_ok_encode [OF that(2)]
    by (auto simp: enqueueUniqueCmd_run [OF intactD(1) wf_queue]
        intro!: safe_then [OF that(1) unique_frame(2) [OF that(1) wf_queue [OF that(2)]]]
          safe_enqueue [OF _ wf_queue [OF that(2)]])
  show ?thesis
    unfolding EnqueueUnique_def Let_def
    by (intro seq registerQueue_tri rt_safe) (auto intro!: rg.return rg.fail run task_wf_locked)
qed

lemma ScheduleUnique_tri:
  "tri K (\<lambda>_. utf8_ok (prefix K) \<and> task_wf K (Queue msg) msg) (ScheduleUnique R K msg due t) (onok whatever)"
proof -
  have run: "safe K d (snd (scheduleUniqueCmd R (UniqueKey K q u) (TaskKey K q i) (ScheduledKey K q)
      (CompletedKey K q) (ArchivedKey K q) i (uniqueTTLMillis t) (Doc (EncodeMessage m)) (Num st) x d))"
    if "intact K d" "task_wf K q m" "ID m = i" for d q u i m st x
    using that safe_refl body_ok_encode [OF that(2)]
    by (auto simp: scheduleUniqueCmd_run [OF intactD(1) wf_queue]
        intro!: safe_then [OF that(1) unique_frame(2) [OF that(1) wf_queue [OF that(2)]]]
          safe_schedule [OF _ wf_queue [OF that(2)]])
  show ?thesis
    unfolding ScheduleUnique_def Let_def
    by (intro seq registerQueue_tri rt_safe) (auto intro!: rg.return rg.fail run task_wf_locked)
qed

lemma EnqueuePeriodic_tri:
  "tri K (\<lambda>_. task_wf K (Queue msg) msg) (EnqueuePeriodic R K msg tr t) (onok whatever)"
proof -
  have "safe K d (snd (enqueuePeriodicCmd R (PeriodicDedupKey K q u) (TaskKey K q i) (StreamKey K q)
      (CompletedKey K q) (ArchivedKey K q) i ms (Doc (EncodeMessage m)) (Num st) d))"
    if "intact K d" "task_wf K q m" "ID m = i" "0 < ms" for d q u i m ms st
    using that safe_refl body_ok_encode [OF that(2)]
    by (auto simp: enqueuePeriodicCmd_run [OF intactD(1) wf_queue]
        intro!: safe_then [OF that(1) dedup_frame [OF that(1) wf_queue [OF that(2)]]]
          safe_enqueue [OF _ wf_queue [OF that(2)]])
  then show ?thesis
    unfolding EnqueuePeriodic_def Let_def
    by (intro seq registerQueue_tri rt_safe) (auto intro!: rg.return rg.fail)
qed

lemma EnqueueChainLink_tri:
  "tri K (\<lambda>_. task_wf K (Queue msg) msg) (EnqueueChainLink R K now msg t) (onok whatever)"
proof -
  have "safe K d (snd (chainEnqueueCmd R (TaskKey K q i) (StreamKey K q) (Doc (EncodeMessage m)) (Num st) i d))"
    "safe K d (snd (chainScheduleCmd R (TaskKey K q i) (ScheduledKey K q) (Doc (EncodeMessage m)) (Num st) x i d))"
    if "intact K d" "task_wf K q m" "ID m = i" for d q i m st x
    using that safe_refl body_ok_encode [OF that(2)] safe_store_push [OF that(1) wf_queue [OF that(2)]]
      safe_store_park [OF that(1) wf_queue [OF that(2)]]
    by (auto simp: chainEnqueueCmd_run [OF intactD(1) wf_queue] chainScheduleCmd_run [OF intactD(1) wf_queue])
  then show ?thesis
    unfolding EnqueueChainLink_def Let_def
    by (intro seq registerQueue_tri) (auto intro!: seq rt_safe rg.return)
qed

lemma last_fired_frame:
  assumes "intact K d"
  shows "safe K d (vput (ScheduleLastFiredKey K s) x t d)" "safe K d (kdel (ScheduleLastFiredKey K s) d)"
  using intactD [OF assms] by (intro frame_safe [OF assms]; auto simp: key_render)+

lemma SetLastFired_tri: "tri K P (SetLastFired R K s t) (onok whatever)"
  by (rule weaken [where P = "\<lambda>_. True"])
    (auto simp: SetLastFired_def untyped_commands intro!: rt_safe last_fired_frame)

lemma GetLastFired_tri: "tri K P (GetLastFired R K s) (onok whatever)"
proof (rule weaken)
  show "tri K (\<lambda>_. True) (GetLastFired R K s) (onok whatever)"
    unfolding GetLastFired_def
    by (intro seq rt_safe)
      (auto intro!: rg.return rg.fail simp: typed_commands key_render safe_refl dest!: intactD(1) split: option.split)
qed simp

lemma XCLAIM_safe:
  assumes "intact K d" "qname_ok q"
  shows "safe K d (snd (XCLAIM_JUSTID R (StreamKey K q) ConsumerGroup c idle ns d))"
proof -
  note I = intactD [OF assms(1)]
  have t: "is_stream (d (StreamKey K q))" using I(1) assms(2) by (simp add: key_render)
  have ok: "s_ok (strm K q d)" "pend_ok (strm K q d)" using I assms(2) by (simp_all add: strm_ok)
  show ?thesis
  proof (cases "groups (e_stream (d (StreamKey K q))) ConsumerGroup")
    case None
    from XCLAIM_JUSTID_nogroup [where d = d, OF t None] show ?thesis by (simp add: safe_refl)
  next
    case (Some G)
    have "safe K d (d(StreamKey K q := mk_stream (d (StreamKey K q)) (s_claim ConsumerGroup c idle ns (strm K q d))))"
      using ok by (intro safe_group_change [OF assms]) (auto intro: pend_ok_claim s_ok_claim)
    then show ?thesis by (simp add: XCLAIM_JUSTID [where d = d, OF t Some] strm_def)
  qed
qed

lemma ExtendLease_tri: "tri K (\<lambda>_. qname_ok q) (ExtendLease R K q c ns) (onok whatever)"
  unfolding ExtendLease_def by (auto intro!: rg.return rt_safe XCLAIM_safe)

lemma RenewUnique_tri: "tri K (\<lambda>_. unique_keys K ks) (RenewUnique R ks t) (onok whatever)"
proof (cases "ks = []")
  case False
  have "tri K (\<lambda>_. unique_keys K ks) (pipeline (map (\<lambda>k. renewUniqueCmd R k (uniqueTTLMillis t)) ks))
      (onok whatever)"
    by (rule rg.pipeline)
      (auto simp: renewUniqueCmd_run unique_keys_def safe_refl dest!: bspec intro: unique_frame)
  then show ?thesis
    unfolding RenewUnique_def if_not_P [OF False]
    by (rule seq) (auto intro!: rg.fail rg.return split: sum.split)
qed (auto simp: RenewUnique_def intro: rg.return)

lemma leader_frame:
  assumes "intact K d"
  shows "safe K d (vput (LeaderKey K) x t d)" "safe K d (tput (LeaderKey K) ms d)" "safe K d (kdel (LeaderKey K) d)"
  using intactD [OF assms] by (intro frame_safe [OF assms]; auto simp: key_render)+

lemma AcquireOrRenewLeadership_tri: "tri K P (AcquireOrRenewLeadership R K i t) (onok whatever)"
proof (rule weaken)
  show "tri K (\<lambda>_. True) (AcquireOrRenewLeadership R K i t) (onok whatever)"
    unfolding AcquireOrRenewLeadership_def Let_def
    by (intro seq rt_safe)
      (auto intro!: rg.return leader_frame simp: acquireOrRenewCmd_run [OF intactD(1)] safe_refl split: option.split)
qed simp

lemma ResignLeadership_tri: "tri K P (ResignLeadership R K i) (onok whatever)"
proof (rule weaken)
  show "tri K (\<lambda>_. True) (ResignLeadership R K i) (onok whatever)"
    unfolding ResignLeadership_def
    by (intro seq rt_safe)
      (auto intro!: leader_frame simp: resignCmd_run [OF intactD(1)] PUBLISH safe_refl)
qed simp

end

end
