(* ===== verification/Safe_Group.thy ===== *)
theory Safe_Group
  imports Safe_Dedup
begin

section \<open>The group operations are safe\<close>

text \<open>
  The triples of the operations of internal/rdb/group.go.  The interesting step creates the
  callback: the collected results are embedded in its message by the server's JSON library, and
  the message that a worker decodes later is the callback with those results.
\<close>

subsection \<open>Embedding results in a message\<close>

lemma jfield_jset [simp]:
  "jfield (jset (obj xs) k v) k' = (if k' = k then Some v else jfield (obj xs) k')"
  by (simp add: obj_def)

lemma is_object_jset [simp]: "is_object (jset (obj xs) k v)"
  by (simp add: obj_def)

lemma Decode_results:
  assumes "msg_ok m" "those (map (\<lambda>v. dbytes (Some v)) js) = Some rs"
  shows "DecodeMessage (jset (EncodeMessage m) ''group_results'' (JArr js)) = Some (m\<lparr>GroupResults := rs\<rparr>)"
  using assms
  by (simp add: DecodeMessage_def EncodeMessage_def msg_ok_def list_all_iff decode_encode_link
      dlink_ptr_encode)

lemma cjson_safe_obj:
  "cjson_safe (obj xs)" if "\<forall>(k, v) \<in> set xs. pred_option cjson_safe v"
proof -
  have "pred_option cjson_safe (Option.bind (map_of xs k) (\<lambda>v. v))" for k
    using that by (cases "map_of xs k") (auto dest!: map_of_SomeD)
  then show ?thesis by (simp add: obj_def pred_option_def option.set_map)
qed

lemma cjson_safe_jset: "cjson_safe j \<Longrightarrow> cjson_safe v \<Longrightarrow> cjson_safe (jset j k v)"
  by (cases j) auto

lemma cjson_fields [simp]:
  "pred_option cjson_safe (jstr s)" "pred_option cjson_safe (jbytes bs)"
  "small n \<Longrightarrow> pred_option cjson_safe (jint n)"
  "pred_option cjson_safe v \<Longrightarrow> pred_option cjson_safe (omitempty b v)"
  by (simp_all add: jstr_def jbytes_def jint_def omitempty_def small_def)

lemma cjson_array [simp]:
  "pred_option cjson_safe (omitempty True v)"
  "(\<forall>x \<in> set xs. cjson_safe (f x)) \<Longrightarrow>
   pred_option cjson_safe (omitempty (xs = []) (Some (JArr (map f xs))))"
  by (simp_all add: omitempty_def list_all_iff)

lemma cjson_safe_member [simp]: "member_wf m \<Longrightarrow> cjson_safe (encode_member m)"
  unfolding encode_member_def by (rule cjson_safe_obj) (simp add: member_wf_def)

lemma cjson_safe_link [simp]: "link_wf l \<Longrightarrow> cjson_safe (encode_link l)"
  unfolding encode_link_def by (rule cjson_safe_obj) (simp add: link_wf_def list_all_iff)

lemma cjson_safe_callback [simp]: "pred_option link_wf c \<Longrightarrow> pred_option cjson_safe (map_option encode_link c)"
  by (cases c) simp_all

lemma cjson_safe_message:
  assumes "task_wf K q m" "small (State m)" "small (Retried m)" "small (MaxRetry m)" "small (Retention m)"
    "small (CompletedAt m)" "small (GroupIndex m)" "small (GroupSize m)" "GroupResults m = []"
  shows "cjson_safe (EncodeMessage m)"
  unfolding EncodeMessage_def
  using assms by (intro cjson_safe_obj) (simp add: task_wf_def list_all_iff)

lemma small_nums [simp]: "small StatePending" "small StateScheduled" "small 0"
  by (simp_all add: small_def state_defs)

lemma small_int64 [simp]: "small n \<Longrightarrow> int64_ok n"
  by (auto simp: small_def int64_ok_def)

definition plain_wf :: "Keys \<Rightarrow> TaskMessage \<Rightarrow> bool" where
  "plain_wf K m \<longleftrightarrow> task_wf K (Queue m) m \<and> LastErr m = [] \<and> small (State m) \<and> small (Retried m) \<and>
     small (MaxRetry m) \<and> small (Retention m) \<and> small (CompletedAt m) \<and> small (GroupIndex m) \<and>
     small (GroupSize m) \<and> GroupResults m = []"

lemma callbackMessage_wf:
  assumes "task_wf K q m" "GroupCallback m = Some l" "small st"
  shows "plain_wf K ((callbackMessage m l)\<lparr>State := st\<rparr>)" "Queue (callbackMessage m l) = L_Queue l"
proof -
  have l: "link_wf l" using assms(1,2) by (simp add: task_wf_def)
  have "small (ChainIndex m + int (length (GroupCallbackChain m)))"
    using assms(1) by (auto simp: task_wf_def small_def)
  with l assms show "plain_wf K ((callbackMessage m l)\<lparr>State := st\<rparr>)"
    by (auto simp: plain_wf_def task_wf_def msg_ok_def callbackMessage_def zeroMessage_def Let_def
        lock_ok_def link_wf_def link_ok_def)
  show "Queue (callbackMessage m l) = L_Queue l"
    by (simp add: callbackMessage_def zeroMessage_def Let_def)
qed

lemma results_decode:
  assumes "results_ok K d" "qname_ok q"
  shows "\<exists>rs. those (map (\<lambda>v. dbytes (Some v)) (map (result_json (e_hash (d (GroupResultKey K q g)))) ns)) = Some rs"
    "list_all cjson_safe (map (result_json (e_hash (d (GroupResultKey K q g)))) ns)"
proof -
  have r: "(\<exists>bs. dbytes (Some (result_json (e_hash (d (GroupResultKey K q g))) n)) = Some bs) \<and>
      cjson_safe (result_json (e_hash (d (GroupResultKey K q g))) n)" for n
    using assms unfolding results_ok_def
    by (cases "e_hash (d (GroupResultKey K q g)) (dec_int (int n))") (fastforce simp: result_json_def)+
  show "\<exists>rs. those (map (\<lambda>v. dbytes (Some v)) (map (result_json (e_hash (d (GroupResultKey K q g)))) ns)) = Some rs"
  proof (induction ns)
    case (Cons n ns)
    then show ?case using r [of n] by auto
  qed simp
  show "list_all cjson_safe (map (result_json (e_hash (d (GroupResultKey K q g)))) ns)"
    using r by (simp add: list_all_iff)
qed

context redis_laws
begin

lemma body_ok_embed:
  assumes "results_ok K d" "qname_ok p" "plain_wf K m"
  shows "body_ok K (Queue m) (ID m) (Doc (embed_results R (EncodeMessage m) (d (GroupResultKey K p g)) n))"
proof (cases "d (GroupResultKey K p g) \<noteq> None \<and> 0 < n")
  case True
  let ?js = "map (result_json (e_hash (d (GroupResultKey K p g)))) [0..<nat n]"
  obtain rs where rs: "those (map (\<lambda>v. dbytes (Some v)) ?js) = Some rs"
    using results_decode(1) [OF assms(1,2)] by blast
  have "cjson_safe (EncodeMessage m)"
    using assms(3) cjson_safe_message by (auto simp: plain_wf_def)
  moreover have "cjson_safe (JArr ?js)"
    using results_decode(2) [OF assms(1,2), of g "[0..<nat n]"] True by (simp add: list_all_iff)
  ultimately have e: "embed_results R (EncodeMessage m) (d (GroupResultKey K p g)) n =
      jset (EncodeMessage m) ''group_results'' (JArr ?js)"
    using True by (simp add: embed_results_def cjson_decode cjson_encode cjson_safe_jset)
  have "msg_ok m" using assms(3) by (simp add: plain_wf_def task_wf_def msg_ok_def)
  then have "decode_body (Doc (embed_results R (EncodeMessage m) (d (GroupResultKey K p g)) n)) =
      Some (m\<lparr>GroupResults := rs\<rparr>)"
    using Decode_results [OF _ rs] e by simp
  moreover have "task_wf K (Queue m) (m\<lparr>GroupResults := rs\<rparr>)"
    using assms(3) by (simp add: plain_wf_def task_wf_def msg_ok_def)
  ultimately show ?thesis by (auto simp: body_ok_def)
next
  case False
  then show ?thesis
    using assms(3) body_ok_encode [of K "Queue m" m] by (auto simp: embed_results_def plain_wf_def)
qed

subsection \<open>Group records\<close>

lemma group_frame:
  assumes "intact K d" "qname_ok q"
  shows "safe K d (sput (GroupKey K q g) us d)" "safe K d (tput (GroupKey K q g) ms d)"
    "safe K d (sdel (GroupKey K q g) m d)" "safe K d (kdel (GroupKey K q g) d)"
    "safe K d (tput (GroupResultKey K q g) ms d)" "safe K d (kdel (GroupResultKey K q g) d)"
  using intactD [OF assms(1)] assms(2)
  by (intro frame_safe [OF assms(1)]; auto simp: key_render)+

lemma results_report:
  assumes "results_ok K d" "qname_ok q"
  shows "results_ok K (hput (GroupResultKey K q g) [(f, Txt (b64_encode bs))] d)"
proof -
  have "hput (GroupResultKey K q g) [(f, Txt (b64_encode bs))] d (GroupResultKey K p h) =
      (if p = q \<and> h = g then mk_hash (d (GroupResultKey K q g)) ((e_hash (d (GroupResultKey K q g)))(f \<mapsto> Txt (b64_encode bs)))
       else d (GroupResultKey K p h))" if "qname_ok p" for p h
    using assms(2) that by (auto simp: key_render effect_defs)
  then show ?thesis
    using assms unfolding results_ok_def by (auto split: if_splits)
qed

lemma result_frame:
  assumes "intact K d" "qname_ok q"
  shows "safe K d (hput (GroupResultKey K q g) [(f, Txt (b64_encode bs))] d)"
proof (rule frame_safe [OF assms(1)])
  show "wt K (hput (GroupResultKey K q g) [(f, Txt (b64_encode bs))] d)"
    using intactD(1) [OF assms(1)] assms(2) by (simp add: key_render)
  show "results_ok K (hput (GroupResultKey K q g) [(f, Txt (b64_encode bs))] d)"
    using intactD(4) [OF assms(1)] assms(2) by (rule results_report)
qed (use assms(2) in \<open>auto simp: key_render\<close>)

lemma CreateGroup_tri: "tri K (\<lambda>_. qname_ok q) (CreateGroup R K q g ms) (onok whatever)"
proof (cases "ms = []")
  case False
  have "safe K d (snd (tx [SADD R (GroupKey K q g) ms, EXPIRE R (GroupKey K q g) t] d))"
    if "intact K d" "qname_ok q" for d t
    using that False intactD(1) [OF that(1)]
    by (auto simp: typed_commands key_render untyped_commands
        intro!: safe_then [OF that(1) group_frame(1) [OF that, of g ms, unfolded key_render]]
          group_frame(2) [unfolded key_render])
  then show ?thesis using False by (auto simp: CreateGroup_def intro!: rt_safe)
qed (auto simp: CreateGroup_def intro: rg.fail)

lemma CreateGroupIfAbsent_tri:
  "tri K (\<lambda>_. qname_ok q) (CreateGroupIfAbsent R K q g ms i) (onok whatever)"
proof -
  have "safe K d (snd (createGroupIfAbsentCmd R (GroupKey K q g) (TaskKey K q i) (GroupResultKey K q g)
      GroupTTL_secs ms d))" if h: "intact K d" "qname_ok q" for d
  proof -
    let ?d1 = "fold (\<lambda>m. sput (GroupKey K q g) [m]) ms d"
    have "safe K d ?d1" using h by (intro safe_fold group_frame)
    from safe_then [OF h(1) this group_frame(2) [OF _ h(2)]]
    have "safe K d (tput (GroupKey K q g) (1000 * GroupTTL_secs) ?d1)" .
    from safe_then [OF h(1) this group_frame(6) [OF _ h(2)]]
    have "safe K d (kdel (GroupResultKey K q g) (tput (GroupKey K q g) (1000 * GroupTTL_secs) ?d1))" .
    then show ?thesis
      using h group_frame(2) safe_refl by (auto simp: createGroupIfAbsentCmd_run [OF intactD(1)])
  qed
  then show ?thesis by (auto simp: CreateGroupIfAbsent_def intro!: rt_safe rg.fail)
qed

lemma report_safe:
  assumes "intact K d" "qname_ok q" "res = [] \<or> (\<exists>bs. res = b64_encode bs)"
  shows "safe K d (report K q g m idx res d)"
proof (cases "res = []")
  case True
  then show ?thesis using group_frame(3) [OF assms(1,2)] by (simp add: report_def)
next
  case False
  then obtain bs where "res = b64_encode bs" using assms(3) by blast
  moreover have "safe K d (tput (GroupResultKey K q g) t (hput (GroupResultKey K q g) [(dec_int idx, Txt (b64_encode bs))]
      (sdel (GroupKey K q g) m d)))" for t
    by (rule safe_then [OF assms(1) safe_then [OF assms(1) group_frame(3) [OF assms(1,2)]
      result_frame [OF _ assms(2)]] group_frame(5) [OF _ assms(2)]])
  ultimately show ?thesis using False by (simp add: report_def)
qed

lemma refresh_safe: "intact K d \<Longrightarrow> qname_ok q \<Longrightarrow> safe K d (refresh K q g d)"
  using group_frame(2) safe_then [OF _ group_frame(2) group_frame(5)] by (auto simp: refresh_def Let_def)

lemma close_safe: "intact K d \<Longrightarrow> qname_ok q \<Longrightarrow> safe K d (close_group K q g d)"
  using safe_then [OF _ group_frame(4) group_frame(6)] by (simp add: close_group_def)

lemma groupComplete_safe:
  assumes "intact K d" "plain_wf K cb" "res = [] \<or> (\<exists>bs. res = b64_encode bs)"
    and "mode = ''stream'' \<and> dest = StreamKey K q \<or> mode = ''zset'' \<and> dest = ScheduledKey K q"
    and cb: "Queue cb = q" "ID cb = i"
  shows "safe K d (snd (groupCompleteCmd R (GroupKey K q g) (TaskKey K q i) dest
    (GroupResultKey K q g) m (EncodeMessage cb) (Num st) i mode x GroupTTL_secs res idx n d))"
proof -
  have q: "qname_ok q" using assms(2) cb by (simp add: plain_wf_def task_wf_def)
  let ?d1 = "report K q g m idx res d"
  let ?d2 = "close_group K q g ?d1"
  have s1: "safe K d ?d1" by (rule report_safe [OF assms(1) q assms(3)])
  note i1 = safe_intact [OF assms(1) s1]
  have s2: "safe K d ?d2" by (rule safe_then [OF assms(1) s1 close_safe [OF _ q]])
  note i2 = safe_intact [OF assms(1) s2]
  have b: "body_ok K q i (Doc (embed_results R (EncodeMessage cb) (?d1 (GroupResultKey K q g)) n))"
    using body_ok_embed [OF intactD(4) [OF i1] q assms(2)] cb by simp
  show ?thesis
    unfolding groupCompleteCmd_run [OF intactD(1) [OF assms(1)] q assms(4)] Let_def
    using safe_refl s2 safe_trans [OF s1 refresh_safe [OF i1 q]]
      safe_trans [OF s2 safe_store_push [OF i2 q b]] safe_trans [OF s2 safe_store_park [OF i2 q b]]
    by auto
qed

lemma CompleteGroupMember_tri:
  "tri K (\<lambda>_. task_wf K q m) (CompleteGroupMember R K now m) (onok whatever)"
proof (cases "GroupCallback m")
  case (Some l)
  have res: "resultB64 m = [] \<or> (\<exists>bs. resultB64 m = b64_encode bs)" by (auto simp: resultB64_def)
  have q: "Queue (callbackMessage m l) = L_Queue l" by (simp add: callbackMessage_def zeroMessage_def Let_def)
  have "tri K (\<lambda>_. task_wf K q m) (CompleteGroupMember R K now m) (onok whatever)"
    if "GroupQueue m = L_Queue l"
    unfolding CompleteGroupMember_def Some option.case Let_def
    using that
    by (auto simp: q intro!: seq registerQueue_tri rt_safe rg.return groupComplete_safe res
        callbackMessage_wf(1) [OF _ Some])
  then show ?thesis by (cases "GroupQueue m = L_Queue l") (auto simp: CompleteGroupMember_def Some intro: rg.fail)
qed (auto simp: CompleteGroupMember_def intro: rg.fail)

end

end
