(* ===== verification/Safe_Admin.thy ===== *)
theory Safe_Admin
  imports Safe_Group
begin

section \<open>Maintenance and inspection are safe\<close>

text \<open>
  The triples of the operations of internal/rdb/recover.go, janitor.go, pause.go, registry.go and
  inspect.go.
\<close>

subsection \<open>Recovery\<close>

text \<open>What the reply to reading the body of a claimed entry tells.\<close>

definition found :: "Keys \<Rightarrow> string \<Rightarrow> sid \<Rightarrow> string \<Rightarrow> rstr option \<Rightarrow> keyspace \<Rightarrow> bool" where
  "found K q n v r d \<longleftrightarrow> (case r of None \<Rightarrow> orphan K q n v d
     | Some raw \<Rightarrow> (\<exists>m. decode_body raw = Some m \<and> claim K q n m d))"

definition bounded_set :: "Keys \<Rightarrow> string \<Rightarrow> string \<Rightarrow> bool" where
  "bounded_set K q z \<longleftrightarrow> qname_ok q \<and> (z = ArchivedKey K q \<or> z = CompletedKey K q)"

lemma claim_retried:
  assumes "claim K q n m d" "\<not> MaxRetry m \<le> Retried m"
  shows "claim K q n (m\<lparr>Retried := Retried m + 1\<rparr>) d"
  using assms by (auto simp: claim_def task_wf_def msg_ok_def int64_ok_def)

context redis_laws
begin

lemma fetch_body_tri:
  "tri K (\<lambda>d. owns K q n v d \<and> owns_all K q es d) (rt (HGET R (TaskKey K q v) ''msg''))
    (\<lambda>r d. owns_all K q es d \<and> onok (found K q n v) r d)"
proof -
  have "tri K (owns K q n v) (rt (HGET R (TaskKey K q v) ''msg'')) (onok (found K q n v))"
  proof (rule rg.rt [OF stab_owns])
    fix x assume x: "intact K x" "owns K q n v x"
    have q: "qname_ok q" using x(2) by (simp add: owns_def)
    have h: "HGET R (TaskKey K q v) ''msg'' x = (Inr (body K q v x), x)"
      using intactD(1) [OF x(1)] q by (simp add: key_render typed_commands body_def)
    have "found K q n v (body K q v x) x"
    proof (cases "body K q v x")
      case None
      then show ?thesis using orphan_gone [OF None x(2)] by (simp add: found_def)
    next
      case (Some raw)
      then obtain m where "decode_body raw = Some m" "ID m = v" "task_wf K q m"
        using intactD(2) [OF x(1)] q unfolding bodies_ok_def body_ok_def by blast
      then show ?thesis using x(2) Some by (auto simp: found_def claim_def)
    qed
    then show "safe K x (snd (HGET R (TaskKey K q v) ''msg'' x)) \<and>
        (\<forall>a. fst (HGET R (TaskKey K q v) ''msg'' x) = Inr a \<longrightarrow>
          found K q n v a (snd (HGET R (TaskKey K q v) ''msg'' x)))"
      by (simp add: h safe_refl)
  qed
  from rg.frame [OF this stab_owns_all [of K q es]] show ?thesis by (rule rg.conseq) auto
qed

lemma drop_orphan_tri:
  "tri K (orphan K q n v) (rt (tx [XACK R (StreamKey K q) ConsumerGroup [n], XDEL R (StreamKey K q) [n]]))
    (onok whatever)"
proof (rule rt_safe [OF stab_orphan])
  fix x assume x: "intact K x" "orphan K q n v x"
  then have q: "qname_ok q" by (simp add: orphan_def owns_def)
  show "safe K x (snd (tx [XACK R (StreamKey K q) ConsumerGroup [n], XDEL R (StreamKey K q) [n]] x))"
    unfolding ack_run [OF intactD(1) [OF x(1)] q] snd_conv
    using x q by (intro safe_drop_orphans) auto
qed

text \<open>Running an operation whose failure is only recorded, in front of the rest of the loop.\<close>

lemma keep_going:
  assumes "tri K P f (onok whatever)" "\<And>acc. tri K (owns_all K q es) (rest acc) whatever"
  shows "tri K (\<lambda>d. owns_all K q es d \<and> P d)
    (\<lambda>w. case f w of (Inl e, w2) \<Rightarrow> rest (bad e) w2 | (Inr u, w2) \<Rightarrow> rest good w2) whatever"
proof (rule rg.sum_case)
  show "tri K (\<lambda>d. owns_all K q es d \<and> P d) f (\<lambda>_. owns_all K q es)"
    using rg.frame [OF assms(1) stab_owns_all [of K q es]] by (rule rg.conseq) auto
qed (rule assms(2))+

lemma recoverLoop_tri: "tri K (owns_all K q es) (recoverLoop R K now q es acc) whatever"
proof (induction es arbitrary: acc)
  case Nil
  have "recoverLoop R K now q [] acc = (\<lambda>w. (acc, w))" by (simp add: fun_eq_iff)
  then show ?case by (auto intro: rg.pure)
next
  case (Cons e es)
  obtain n v where e: "e = (n, v)" by fastforce
  obtain a b c where acc: "acc = (a, b, c)" by (cases acc) auto
  let ?rest = "recoverLoop R K now q es"
  let ?k = "\<lambda>r. case r of Inl er \<Rightarrow> ?rest (a, b, Some er)
    | Inr None \<Rightarrow> (\<lambda>w. ?rest (a, b, c) (snd (rt (tx [XACK R (StreamKey K q) ConsumerGroup [n],
         XDEL R (StreamKey K q) [n]]) w)))
    | Inr (Some raw) \<Rightarrow> (case decode_body raw of None \<Rightarrow> ?rest (a, b, Some ErrDecode)
       | Some m \<Rightarrow>
           if MaxRetry m \<le> Retried m then
             (\<lambda>w. case Archive R K q n m now w of (Inl er, w2) \<Rightarrow> ?rest (a, b, Some er) w2
               | (Inr u, w2) \<Rightarrow> ?rest (a, b @ [m\<lparr>State := StateArchived\<rparr>], c) w2)
           else
             (\<lambda>w. case Retry R K q n (m\<lparr>Retried := Retried m + 1\<rparr>) now w of
                 (Inl er, w2) \<Rightarrow> ?rest (a, b, Some er) w2
               | (Inr u, w2) \<Rightarrow> ?rest (a + 1, b, c) w2))"
  have run: "recoverLoop R K now q (e # es) acc =
      (\<lambda>w. case rt (HGET R (TaskKey K q v) ''msg'') w of (r, w1) \<Rightarrow> ?k r w1)"
    unfolding e acc by (rule ext) (auto split: prod.split sum.split option.split)
  have k: "tri K (\<lambda>d. owns_all K q es d \<and> onok (found K q n v) r d) (?k r) whatever" for r
  proof (cases r)
    case (Inl er)
    then show ?thesis using Cons.IH by (auto intro: weaken)
  next
    case (Inr body)
    show ?thesis
    proof (cases body)
      case None
      have "tri K (\<lambda>d. orphan K q n v d \<and> owns_all K q es d)
          (\<lambda>w. case rt (tx [XACK R (StreamKey K q) ConsumerGroup [n], XDEL R (StreamKey K q) [n]]) w of
             (r, w1) \<Rightarrow> ?rest (a, b, c) w1) whatever"
        by (rule rg.bind [OF rg.frame [OF drop_orphan_tri stab_owns_all]]) (rule weaken [OF Cons.IH], blast)
      then show ?thesis using Inr None by (auto simp: found_def split_beta elim!: weaken)
    next
      case (Some raw)
      show ?thesis
      proof (cases "decode_body raw")
        case None
        then show ?thesis using Inr Some Cons.IH by (auto intro: weaken)
      next
        case (Some m)
        have c: "onok (found K q n v) r d \<longleftrightarrow> claim K q n m d" for d
          using Inr \<open>body = Some raw\<close> Some by (simp add: found_def)
        show ?thesis
          unfolding c using Inr \<open>body = Some raw\<close> Some
          by (cases "MaxRetry m \<le> Retried m")
            (simp_all, rule keep_going [OF Archive_tri Cons.IH],
              rule keep_going [OF weaken [OF Retry_tri claim_retried] Cons.IH])
      qed
    qed
  qed
  show ?case
    unfolding run
    by (rule weaken [OF rg.bind [OF fetch_body_tri k]]) (auto simp: e owns_all_def)
qed

lemma s_ok_scan:
  assumes "s_ok s" "groups s g = Some G"
  shows "s_ok (s_map_pel g (\<lambda>_. snd (s_scan es c idle a k (pel G))) s)"
proof -
  have le: "pel_le (snd (s_scan es c idle a k (pel G))) (pel G)" by (rule s_scan_pel)
  have "i \<le> last_delivered G" if "(i, o', t) \<in> set (snd (s_scan es c idle a k (pel G)))" for i o' t
  proof -
    have "i \<in> fst ` set (pel G)" using le imageI [OF that, of fst] by (auto simp: pel_le_def)
    then show ?thesis using assms unfolding s_ok_def by fastforce
  qed
  then show ?thesis
    using assms le by (auto simp: s_ok_def s_map_pel_def pel_le_def)
qed

lemma XAUTOCLAIM_safe:
  assumes "intact K d" "qname_ok q" "0 < k"
  shows "safe K d (snd (XAUTOCLAIM R (StreamKey K q) ConsumerGroup c idle k d)) \<and>
    (\<forall>es. fst (XAUTOCLAIM R (StreamKey K q) ConsumerGroup c idle k d) = Inr es \<longrightarrow>
       owns_all K q es (snd (XAUTOCLAIM R (StreamKey K q) ConsumerGroup c idle k d)))"
proof -
  note I = intactD [OF assms(1)]
  have t: "is_stream (d (StreamKey K q))" using I(1) assms(2) by (simp add: key_render)
  have ok: "s_ok (strm K q d)" "pend_ok (strm K q d)" using I assms(2) by (simp_all add: strm_ok)
  show ?thesis
  proof (cases "groups (strm K q d) ConsumerGroup")
    case None
    then show ?thesis using XAUTOCLAIM_nogroup [where d = d, OF t] safe_refl by (simp add: strm_def)
  next
    case (Some G)
    let ?sc = "s_scan (entries (strm K q d)) c idle (10 * k) k (pel G)"
    let ?s = "s_map_pel ConsumerGroup (\<lambda>_. snd ?sc) (strm K q d)"
    let ?d' = "d(StreamKey K q := mk_stream (d (StreamKey K q)) ?s)"
    have r: "XAUTOCLAIM R (StreamKey K q) ConsumerGroup c idle k d = (Inr (fst ?sc), ?d')"
      using XAUTOCLAIM [where d = d, OF t _ assms(3), of ConsumerGroup G c idle] Some
      by (simp add: strm_def split_beta)
    have so: "s_ok ?s" by (rule s_ok_scan [OF ok(1) Some])
    have s: "safe K d ?d'"
      using so pend_ok_scan [OF ok(2) Some] by (intro safe_group_change [OF assms(1,2)]) auto
    have "strm K q ?d' = ?s" by (simp add: strm_def)
    moreover have "entries ?s = entries (strm K q d)" by simp
    ultimately have "owns_all K q (fst ?sc) ?d'"
      using assms(2) so s_scan_entries [of "entries (strm K q d)" c idle "10 * k" k "pel G"]
      unfolding owns_all_def by (auto intro!: owns_entry)
    then show ?thesis using s by (simp add: r)
  qed
qed

lemma Recover_tri:
  "tri K (\<lambda>_. qname_ok q \<and> 0 < k) (Recover R K now q c idle k) whatever"
proof -
  have x: "tri K (\<lambda>_. qname_ok q \<and> 0 < k)
      (rt (XAUTOCLAIM R (StreamKey K q) ConsumerGroup c (Milliseconds idle) (nat k))) (onok (owns_all K q))"
    by (rule rg.rt) (use XAUTOCLAIM_safe [of K _ q "nat k" c "Milliseconds idle"] in auto)
  show ?thesis
    unfolding Recover_def [abs_def]
  proof (rule rg.sum_case [OF x])
    show "tri K (onok (owns_all K q) (Inl e)) (\<lambda>w. ((0, [], Some e), w)) whatever" for e
      by (rule rg.pure) simp
    show "tri K (onok (owns_all K q) (Inr es)) (recoverLoop R K now q es (0, [], None)) whatever" for es
      by (rule weaken [OF recoverLoop_tri]) simp
  qed
qed

subsection \<open>Janitor\<close>

lemma safe_call:
  assumes "intact K d" "safe K d (snd (c d))"
    and "\<And>a d'. intact K d' \<Longrightarrow> c d = (Inr a, d') \<Longrightarrow> safe K d' (snd (f a d'))"
  shows "safe K d (snd (call c f d))"
proof (cases "c d")
  case (Pair r d')
  with assms(1,2) have i: "intact K d'" "safe K d d'" by (auto intro: safe_intact)
  show ?thesis
  proof (cases r)
    case (Inr a)
    then show ?thesis using Pair i assms(3) [OF i(1)] safe_trans by (auto simp: call_def)
  qed (use Pair i in \<open>simp add: call_def\<close>)
qed

lemma safe_foreach:
  assumes "\<And>x d. x \<in> set xs \<Longrightarrow> intact K d \<Longrightarrow> safe K d (snd (f x d))" "intact K d"
  shows "safe K d (snd (foreach xs f d))"
  using assms
proof (induction xs arbitrary: d)
  case (Cons x xs)
  then show ?case by (auto intro!: safe_call)
qed (simp add: safe_refl)

lemma trim_ids_safe:
  assumes "intact K d" "bounded_set K q z"
  shows "safe K d (snd (trim_ids R z (TaskKeyPrefix K q) ids d))"
  unfolding trim_ids_def
proof (rule safe_foreach [OF _ assms(1)])
  fix i d assume d: "intact K d"
  have "call (DEL R [TaskKeyPrefix K q @ i]) (\<lambda>_. call (ZREM R z i) (\<lambda>_. ret ())) d =
      (Inr (), zdel z i (kdel (TaskKey K q i) d))"
    using assms(2) intactD(1) [OF d] unfolding bounded_set_def
    by (auto simp: TaskKeyPrefix_TaskKey untyped_commands key_render typed_commands)
  then show "safe K d (snd (call (DEL R [TaskKeyPrefix K q @ i]) (\<lambda>_. call (ZREM R z i) (\<lambda>_. ret ())) d))"
    using safe_trim_one [OF d] assms(2) by (simp add: bounded_set_def)
qed

lemma zreads:
  assumes "intact K d" "bounded_set K q z"
  shows "snd (ZRANGEBYSCORE R z x n d) = d" "snd (ZCARD R z d) = d" "0 \<le> n \<Longrightarrow> snd (ZRANGE R z n d) = d"
  using assms(2) intactD(1) [OF assms(1)] unfolding bounded_set_def
  by (auto simp: key_render typed_commands)

lemma trimArchived_safe:
  assumes "intact K d" "bounded_set K q z" "0 < batch"
  shows "safe K d (snd (trimArchivedCmd R z x batch (TaskKeyPrefix K q) mx d))"
  unfolding trimArchivedCmd_def Let_def
  using assms
  by (auto intro!: safe_call trim_ids_safe simp: zreads safe_refl split del: if_split split: if_split)

lemma Trim_tri:
  "tri K (\<lambda>_. qname_ok q \<and> 0 < batch) (TrimArchived R K q t mx batch) (onok whatever)"
  "tri K (\<lambda>_. qname_ok q \<and> 0 < batch) (TrimCompleted R K q t mx batch) (onok whatever)"
  unfolding TrimArchived_def TrimCompleted_def
  by (rule rt_safe; auto intro!: trimArchived_safe simp: bounded_set_def)+

subsection \<open>Reading\<close>

lemma read_tri:
  assumes "\<And>d. intact K d \<Longrightarrow> Q d \<Longrightarrow> snd (c d) = d" "stab K Q"
  shows "tri K Q (rt c) (onok whatever)"
  by (rule rt_safe) (use assms in \<open>auto simp: safe_refl\<close>)

lemma seq_any:
  assumes "tri K (\<lambda>_. b) g (onok whatever)" "\<And>a. tri K (\<lambda>_. b) (f a) (onok whatever)"
  shows "tri K (\<lambda>_. b) (andthen g f) (onok whatever)"
  by (rule seq [OF assms(1) _ assms(2)]) simp

lemma smembers_read: "intact K d \<Longrightarrow> rkey_ok rk \<Longrightarrow> type_of rk = is_set \<Longrightarrow> snd (SMEMBERS R (render K rk) d) = d"
  using SMEMBERS [of d "render K rk"] wtD [of K d rk] wt_parts(3) [of K d rk] intactD(1) [of K d] by force

lemma hgetall_read: "intact K d \<Longrightarrow> rkey_ok rk \<Longrightarrow> type_of rk = is_hash \<Longrightarrow> snd (HGETALL R (render K rk) d) = d"
  using HGETALL [of d "render K rk"] wtD [of K d rk] wt_parts(1) [of K d rk] intactD(1) [of K d] by force

lemma listing_tri:
  "tri K (\<lambda>_. True) (PausedQueues R K) (onok whatever)" "tri K (\<lambda>_. True) (Queues R K) (onok whatever)"
  "tri K (\<lambda>_. qname_ok q) (GroupMemberIDs R K q g) (onok whatever)"
  unfolding PausedQueues_def Queues_def GroupMemberIDs_def
  by (rule read_tri; simp add: key_render smembers_read)+

lemma GroupPending_tri: "tri K (\<lambda>_. qname_ok q) (GroupPending R K q g) (onok whatever)"
  unfolding GroupPending_def
  by (rule read_tri) (auto simp: key_render typed_commands dest: intactD(1))

lemma LeaderID_tri: "tri K (\<lambda>_. True) (LeaderID R K) (onok whatever)"
  unfolding LeaderID_def
  by (intro seq_any read_tri) (auto simp: key_render typed_commands dest: intactD(1) intro: rg.return)

lemma ListSchedules_tri: "tri K (\<lambda>_. True) (ListSchedules R K) (onok whatever)"
  unfolding ListSchedules_def
  by (intro seq_any read_tri) (auto simp: key_render hgetall_read intro: rg.return)

lemma GetTask_tri:
  "tri K (\<lambda>_. qname_ok q) (GetTask R K q i) (onok (\<lambda>m _. task_wf K q m))"
  unfolding GetTask_def
proof (rule rg.andthen)
  show "tri K (\<lambda>_. qname_ok q) (rt (HGET R (TaskKey K q i) ''msg''))
      (onok (\<lambda>r _. \<forall>raw. r = Some raw \<longrightarrow> body_ok K q i raw))"
  proof (rule rg.rt)
    fix x assume x: "intact K x" "qname_ok q"
    have h: "HGET R (TaskKey K q i) ''msg'' x = (Inr (body K q i x), x)"
      using intactD(1) [OF x(1)] x(2) by (simp add: key_render typed_commands body_def)
    show "safe K x (snd (HGET R (TaskKey K q i) ''msg'' x)) \<and>
        (\<forall>a. fst (HGET R (TaskKey K q i) ''msg'' x) = Inr a \<longrightarrow> (\<forall>raw. a = Some raw \<longrightarrow> body_ok K q i raw))"
      using intactD(2) [OF x(1)] x(2) by (simp add: h safe_refl bodies_ok_def)
  qed simp
  fix r
  show "tri K (\<lambda>_. \<forall>raw. r = Some raw \<longrightarrow> body_ok K q i raw)
      (case r of None \<Rightarrow> fail RedisNil
       | Some v \<Rightarrow> (case decode_body v of None \<Rightarrow> fail ErrDecode | Some m \<Rightarrow> return m))
      (onok (\<lambda>m _. task_wf K q m))"
    by (auto simp: body_ok_def split: option.split intro!: rg.fail rg.return)
qed

lemma GetTask_known:
  "tri K (\<lambda>_. qname_ok q) (GetTask R K q i) (\<lambda>r _. qname_ok q \<and> (\<forall>m. r = Inr m \<longrightarrow> task_wf K q m))"
  by (rule rg.conseq [OF rg.frame [OF GetTask_tri [of K q i], where F = "\<lambda>_. qname_ok q"]]) auto

lemma queueStats_tri: "tri K (\<lambda>_. qname_ok q) (queueStats R K q) (onok whatever)"
proof -
  have z: "tri K (\<lambda>_. qname_ok q) (rt (ZCARD R z)) (onok whatever)"
    if "z \<in> {ScheduledKey K q, RetryKey K q, ArchivedKey K q, CompletedKey K q}" for z
    by (rule read_tri) (use that in \<open>auto simp: key_render typed_commands dest: intactD(1)\<close>)
  have l: "tri K (\<lambda>_. qname_ok q) (rt (XLEN R (StreamKey K q))) (onok whatever)"
    by (rule read_tri) (auto simp: key_render XLEN dest: intactD(1))
  have p: "snd (XPENDING R (StreamKey K q) ConsumerGroup d) = d" if "intact K d" "qname_ok q" for d
  proof -
    have t: "is_stream (d (StreamKey K q))" using intactD(1) [OF that(1)] that(2) by (simp add: key_render)
    show ?thesis
      using XPENDING [where d = d, OF t] XPENDING_nogroup [where d = d, OF t]
      by (cases "groups (e_stream (d (StreamKey K q))) ConsumerGroup") simp_all
  qed
  have a: "tri K (\<lambda>_. qname_ok q) (queueActive R (StreamKey K q)) (onok whatever)"
    unfolding queueActive_def [abs_def]
  proof (rule rg.sum_case [where Q = "onok whatever"])
    show "tri K (\<lambda>_. qname_ok q) (rt (XPENDING R (StreamKey K q) ConsumerGroup)) (onok whatever)"
      by (rule read_tri [OF p]) auto
    show "tri K (onok whatever (Inl e)) (\<lambda>w. if e = RedisErr NoGroup then (Inr 0, w) else (Inl e, w)) (onok whatever)"
      for e :: err
      by (cases "e = RedisErr NoGroup") (auto intro: rg.pure)
    show "tri K (onok whatever (Inr n)) (\<lambda>w. (Inr n, w)) (onok whatever)" for n :: int
      by (rule rg.pure) simp
  qed
  show ?thesis
    unfolding queueStats_def Let_def by (intro seq_any z l a rg.return) auto
qed

subsection \<open>Pausing and the registry\<close>

lemma global_frame:
  assumes "intact K d"
  shows "safe K d (sput (PausedKey K) us d)" "safe K d (sdel (PausedKey K) m d)"
    "safe K d (hput (SchedulesKey K) fvs d)" "safe K d (hrem (SchedulesKey K) fs d)"
  using intactD [OF assms] by (intro frame_safe [OF assms]; auto simp: key_render)+

lemma PauseQueue_tri: "tri K (\<lambda>_. True) (PauseQueue R K q) (onok whatever)"
  unfolding PauseQueue_def
  by (rule rt_safe) (use global_frame(1) intactD(1) in \<open>auto simp: typed_commands key_render\<close>)

lemma ResumeQueue_tri: "tri K (\<lambda>_. True) (ResumeQueue R K q) (onok whatever)"
  unfolding ResumeQueue_def
  by (rule rt_safe) (use global_frame(2) intactD(1) in \<open>auto simp: typed_commands key_render\<close>)

lemma RegisterSchedules_tri: "tri K (\<lambda>_. True) (RegisterSchedules R K now ms) (onok whatever)"
  unfolding RegisterSchedules_def
  by (auto intro!: rg.return rt_safe) (use global_frame(3) intactD(1) in \<open>auto simp: typed_commands key_render\<close>)

lemma schedules_writes:
  "fvs \<noteq> [] \<Longrightarrow> tri K (\<lambda>_. True) (rt (HSET R (SchedulesKey K) fvs)) (onok whatever)"
  "fs \<noteq> [] \<Longrightarrow> tri K (\<lambda>_. True) (rt (HDEL R (SchedulesKey K) fs)) (onok whatever)"
  "fs \<noteq> [] \<Longrightarrow> tri K (\<lambda>_. True) (rt (HMGET R (SchedulesKey K) fs)) (onok whatever)"
  "tri K (\<lambda>_. True) (rt (HGETALL R (SchedulesKey K))) (onok whatever)"
  using global_frame(3,4) intactD(1) safe_refl
  by (intro rt_safe read_tri; auto simp: typed_commands key_render hgetall_read)+

lemma TouchSchedules_tri: "tri K (\<lambda>_. True) (TouchSchedules R K now ids) (onok whatever)"
  unfolding TouchSchedules_def Let_def
  by (auto intro!: rg.return seq_any schedules_writes)

lemma delLastFired_tri: "tri K (\<lambda>_. True) (\<lambda>w. ((), delLastFired R K fs w)) (\<lambda>_ _. True)"
proof (induction fs)
  case Nil
  show ?case by (auto intro: rg.pure)
next
  case (Cons f fs)
  have "tri K (\<lambda>_. True) (rt (DEL R [ScheduleLastFiredKey K f])) (onok whatever)"
    by (rule rt_safe) (use last_fired_frame(2) in \<open>auto simp: untyped_commands\<close>)
  from rg.bind [OF rg.any [OF this], where k = "\<lambda>_ w. ((), delLastFired R K fs w)"] Cons
  show ?case by (simp add: split_beta)
qed

lemma PruneSchedules_tri: "tri K (\<lambda>_. True) (PruneSchedules R K ids t) (onok whatever)"
proof -
  have d: "tri K (\<lambda>_. True) (\<lambda>w. (Inr n, delLastFired R K fs w)) (onok whatever)" for n fs
    using rg.bind [OF delLastFired_tri [of K fs] rg.pure [where P = "\<lambda>_. True" and Q = "onok whatever" and r = "Inr n"]] by simp
  show ?thesis
    unfolding PruneSchedules_def Let_def
    by (auto intro!: rg.return seq_any schedules_writes d)
qed

lemma scanLoop_tri:
  "tri K (\<lambda>_. \<forall>k \<in> set ks. \<exists>s. k = ScheduleLastFiredKey K s) (scanLoop R pre suf ks acc) (onok whatever)"
proof (induction ks arbitrary: acc)
  case Nil
  have run: "scanLoop R pre suf [] acc = return acc" by (simp add: fun_eq_iff return_def)
  show ?case unfolding run by (rule rg.return) simp
next
  case (Cons key ks)
  let ?P = "\<lambda>_. \<forall>k \<in> set (key # ks). \<exists>s. k = ScheduleLastFiredKey K s"
  have g: "tri K ?P (rt (GET R key)) (onok whatever)"
    by (rule read_tri) (auto simp: key_render typed_commands dest: intactD(1))
  have run: "scanLoop R pre suf (key # ks) acc = andthen (rt (GET R key)) (\<lambda>v. case v of
        None \<Rightarrow> scanLoop R pre suf ks acc
      | Some raw \<Rightarrow> (case ParseInt raw of None \<Rightarrow> scanLoop R pre suf ks acc
         | Some ts \<Rightarrow> scanLoop R pre suf ks
             (acc @ [\<lparr>F_ID = TrimSuffix (TrimPrefix key pre) suf, F_LastFired = ts\<rparr>])))"
    by (rule ext) (auto simp: andthen_def split: prod.split sum.split option.split)
  have IH: "tri K ?P (scanLoop R pre suf ks acc) (onok whatever)" for acc
    by (rule weaken [OF Cons.IH]) simp
  show ?case
    unfolding run using IH by (intro seq_any g) (auto split: option.split)
qed

lemma scan_pattern:
  "takeWhile (\<lambda>c. c \<noteq> CHR ''*'') (ScheduleLastFiredKey K ''*'') @ m @
     drop (length (takeWhile (\<lambda>c. c \<noteq> CHR ''*'') (ScheduleLastFiredKey K ''*'')) + 1) (ScheduleLastFiredKey K ''*'')
   = ScheduleLastFiredKey K m"
  if "CHR ''*'' \<notin> set (prefix K)"
  using that by (auto simp: ScheduleLastFiredKey_def takeWhile_append)

lemma ScanSchedules_tri:
  "tri K (\<lambda>_. CHR ''*'' \<notin> set (prefix K)) (ScanSchedules R K) (onok whatever)"
  unfolding ScanSchedules_def Let_def
proof (rule rg.andthen)
  let ?pre = "takeWhile (\<lambda>c. c \<noteq> CHR ''*'') (ScheduleLastFiredKey K ''*'')"
  let ?suf = "drop (length ?pre + 1) (ScheduleLastFiredKey K ''*'')"
  let ?ok = "\<lambda>ks. \<forall>k \<in> set ks. \<exists>s. k = ScheduleLastFiredKey K s"
  show "tri K (\<lambda>_. CHR ''*'' \<notin> set (prefix K)) (rt (SCAN R ?pre ?suf)) (onok (\<lambda>ks _. ?ok ks))"
    by (rule rg.rt) (use SCAN_only [of ?pre ?suf] scan_pattern [of K] in \<open>fastforce simp: safe_refl\<close>)+
qed (rule scanLoop_tri)

subsection \<open>Tasks in the sorted sets\<close>

lemma state_set:
  "ZSetKeyForState K q st = Some z \<Longrightarrow> z \<in> {ScheduledKey K q, RetryKey K q, ArchivedKey K q, CompletedKey K q}"
  by (auto simp: ZSetKeyForState_def split: if_splits)

lemma zset_reads:
  assumes "intact K d" "qname_ok q" "z \<in> {ScheduledKey K q, RetryKey K q, ArchivedKey K q, CompletedKey K q}"
  shows "snd (ZSCORE R z i d) = d" "0 \<le> n \<Longrightarrow> snd (ZRANGE R z n d) = d"
  using assms(2,3) intactD(1) [OF assms(1)] by (auto simp: key_render typed_commands ZSCORE)

lemma ZScore_tri:
  assumes "ZSetKeyForState K q st = Some z"
  shows "tri K (\<lambda>_. qname_ok q) (ZScore R z i) (onok whatever)"
  unfolding ZScore_def by (rule read_tri) (use zset_reads(1) state_set [OF assms] in auto)

lemma listLoop_tri: "tri K (\<lambda>_. qname_ok q) (listLoop R K q zs) (onok whatever)"
proof (induction zs)
  case Nil
  have run: "listLoop R K q [] = return []" by (simp add: fun_eq_iff return_def)
  show ?case unfolding run by (rule rg.return) simp
next
  case (Cons e zs)
  obtain x i where e: "e = (x, i)" by fastforce
  have run: "listLoop R K q (e # zs) = (\<lambda>w. case GetTask R K q i w of
      (Inl er, w1) \<Rightarrow> (if er = RedisNil then listLoop R K q zs w1 else (Inl er, w1))
    | (Inr m, w1) \<Rightarrow> andthen (listLoop R K q zs) (\<lambda>ts. return (\<lparr>Z_Msg = m, Z_Score = x\<rparr> # ts)) w1)"
    by (rule ext) (simp add: e)
  show ?case
    unfolding run
  proof (rule rg.sum_case [where Q = "\<lambda>_ _. qname_ok q"])
    show "tri K (\<lambda>_. qname_ok q) (GetTask R K q i) (\<lambda>_ _. qname_ok q)"
      by (rule rg.conseq [OF GetTask_known]) auto
    show "tri K (\<lambda>_. qname_ok q) (\<lambda>w. if er = RedisNil then listLoop R K q zs w else (Inl er, w)) (onok whatever)"
      for er
      using Cons by (cases "er = RedisNil") (auto intro: rg.pure)
    show "tri K (\<lambda>_. qname_ok q) (andthen (listLoop R K q zs) (\<lambda>ts. return (\<lparr>Z_Msg = m, Z_Score = x\<rparr> # ts)))
        (onok whatever)" for m
      using Cons by (intro seq_any rg.return) auto
  qed
qed

lemma ListZSetTasks_tri:
  assumes "ZSetKeyForState K q st = Some z"
  shows "tri K (\<lambda>_. qname_ok q) (ListZSetTasks R K q z n) (onok whatever)"
  unfolding ListZSetTasks_def
  using zset_reads(2) [OF _ _ state_set [OF assms]]
  by (auto intro!: rg.return seq_any read_tri listLoop_tri)

lemma runTaskCmd_run:
  assumes "wt K d" "qname_ok q"
  shows "runTaskCmd R (ScheduledKey K q) (RetryKey K q) (ArchivedKey K q)
      (CompletedKey K q) (StreamKey K q) (TaskKey K q i) i (Num StatePending) d =
    (if \<not> parked K q i d then (Inr 0, unpark K q i d)
     else if d (TaskKey K q i) = None then (Inr 0, unpark K q i d)
     else (Inr 1, set_state K q StatePending i (xpush R (StreamKey K q) i (unpark K q i d))))"
proof -
  have "unpark K q i d (TaskKey K q i) = d (TaskKey K q i)"
    using assms(2) by (simp add: unpark_def key_render)
  moreover have p: "parked K q i d \<longleftrightarrow>
      i \<in> z_members (e_zset (d (ScheduledKey K q))) \<or> i \<in> z_members (e_zset (d (RetryKey K q))) \<or>
      i \<in> z_members (e_zset (d (ArchivedKey K q))) \<or> i \<in> z_members (e_zset (d (CompletedKey K q)))"
    by (auto simp: parked_def zmem_def)
  ultimately show ?thesis
    using assms unfolding p
    by (auto simp: runTaskCmd_def unpark_def set_state_def key_render typed_commands bool_calls)
qed

lemma runTaskCmd_safe:
  assumes "intact K d" "qname_ok q"
  shows "safe K d (snd (runTaskCmd R (ScheduledKey K q) (RetryKey K q) (ArchivedKey K q)
    (CompletedKey K q) (StreamKey K q) (TaskKey K q i) i (Num StatePending) d))"
  unfolding runTaskCmd_run [OF intactD(1) [OF assms(1)] assms(2)]
  using safe_unpark_none [OF assms] safe_unpark_gone [OF assms] safe_unpark_push [OF assms] by auto

lemma RunTask_tri: "tri K (\<lambda>_. qname_ok q) (RunTask R K q i) (onok whatever)"
  unfolding RunTask_def by (intro seq_any rt_safe rg.return) (auto intro: runTaskCmd_safe)

lemma delete_run:
  "wt K d \<Longrightarrow> qname_ok q \<Longrightarrow> tx [discard (ZREM R (ScheduledKey K q) i), discard (ZREM R (RetryKey K q) i),
      discard (ZREM R (ArchivedKey K q) i), discard (ZREM R (CompletedKey K q) i), DEL R [TaskKey K q i]] d =
    (Inr (), kdel (TaskKey K q i) (unpark K q i d))"
  by (simp add: unpark_def discard_def key_render typed_commands untyped_commands)

lemma delete_tri:
  "tri K (\<lambda>_. qname_ok q) (rt (tx [discard (ZREM R (ScheduledKey K q) i), discard (ZREM R (RetryKey K q) i),
     discard (ZREM R (ArchivedKey K q) i), discard (ZREM R (CompletedKey K q) i), DEL R [TaskKey K q i]]))
   (onok whatever)"
proof (rule rt_safe)
  fix d assume d: "intact K d" "qname_ok q"
  show "safe K d (snd (tx [discard (ZREM R (ScheduledKey K q) i), discard (ZREM R (RetryKey K q) i),
      discard (ZREM R (ArchivedKey K q) i), discard (ZREM R (CompletedKey K q) i), DEL R [TaskKey K q i]] d))"
    unfolding delete_run [OF intactD(1) [OF d(1)] d(2)] snd_conv
    using safe_delete [OF d] by (simp add: unpark_def)
qed simp

lemma DeleteTask_tri: "tri K (\<lambda>_. qname_ok q) (DeleteTask R K q i) (onok whatever)"
  unfolding DeleteTask_def [abs_def]
proof (rule rg.sum_case [where Q = "\<lambda>r _. qname_ok q \<and> (\<forall>m. r = Inr m \<longrightarrow> task_wf K q m)"])
  show "tri K (\<lambda>_. qname_ok q) (GetTask R K q i) (\<lambda>r _. qname_ok q \<and> (\<forall>m. r = Inr m \<longrightarrow> task_wf K q m))"
    by (rule GetTask_known)
next
  fix e :: err
  let ?tx = "rt (tx [discard (ZREM R (ScheduledKey K q) i), discard (ZREM R (RetryKey K q) i),
     discard (ZREM R (ArchivedKey K q) i), discard (ZREM R (CompletedKey K q) i), DEL R [TaskKey K q i]])"
  show "tri K (\<lambda>_. qname_ok q \<and> (\<forall>m. Inl e = Inr m \<longrightarrow> task_wf K q m))
      (\<lambda>w. if e \<noteq> RedisNil then (Inl e, w) else ?tx w) (onok whatever)"
    using delete_tri by (cases "e \<noteq> RedisNil") (auto intro: rg.pure)
next
  fix m
  let ?tx = "rt (tx [discard (ZREM R (ScheduledKey K q) i), discard (ZREM R (RetryKey K q) i),
     discard (ZREM R (ArchivedKey K q) i), discard (ZREM R (CompletedKey K q) i), DEL R [TaskKey K q i]])"
  show "tri K (\<lambda>_. qname_ok q \<and> (\<forall>m'. Inr m = Inr m' \<longrightarrow> task_wf K q m'))
      (andthen ?tx (\<lambda>_. releaseUnique R m)) (onok whatever)"
    by (intro seq_any weaken [OF delete_tri] weaken [OF releaseUnique_tri, where P' = "\<lambda>_. qname_ok q \<and> (\<forall>m'. Inr m = Inr m' \<longrightarrow> task_wf K q m')"])
      (auto simp: task_wf_def)
qed

end

end
