(* ===== verification/Misfire.thy ===== *)
theory Misfire
  imports Prelude
begin

section \<open>Due triggers and misfires (schedule.go)\<close>

text \<open>
  \<^verbatim>\<open>computeFires\<close> decides what a scheduler tick enqueues.  The schedule itself comes from the cron
  library and is a parameter: the function from a time to the next activation time after it.
  What the library documents is that the activation is later than the given time; for a
  specification that no date satisfies it returns the zero time instead.
\<close>

datatype MisfirePolicy = MisfireSkip | MisfireFireOnce

definition maxScan :: nat where
  "maxScan = 100000"

text \<open>The bounded search for the latest trigger that is not after \<open>now\<close>.\<close>

fun scan_latest :: "nat \<Rightarrow> (time \<Rightarrow> time) \<Rightarrow> time \<Rightarrow> time \<Rightarrow> time" where
  "scan_latest 0 Next now latest = latest"
| "scan_latest (Suc i) Next now latest =
     (let n = Next latest in if now < n then latest else scan_latest i Next now n)"

definition computeFires ::
  "(time \<Rightarrow> time) \<Rightarrow> time \<Rightarrow> time \<Rightarrow> MisfirePolicy \<Rightarrow> time list \<times> time" where
  "computeFires Next lastFired now policy =
     (let next = Next lastFired
      in if now < next then ([], lastFired)
         else
           (let latest = scan_latest maxScan Next now next;
                gap = next < latest
            in if \<not> gap then ([next], next)
               else if policy = MisfireFireOnce then ([latest], latest)
               else ([], latest)))"

text \<open>The zero \<^verbatim>\<open>time.Time\<close>: the first of January of year one.\<close>

definition zeroTime :: time where
  "zeroTime = - 62135596800 * Second"

definition later :: "(time \<Rightarrow> time) \<Rightarrow> bool" where
  "later Next \<longleftrightarrow> (\<forall>t. t < Next t)"

subsection \<open>The search\<close>

lemma scan_latest_spec:
  "\<exists>j \<le> i. scan_latest i Next now t = (Next ^^ j) t \<and>
     (\<forall>m. 1 \<le> m \<and> m \<le> j \<longrightarrow> (Next ^^ m) t \<le> now) \<and>
     (j < i \<longrightarrow> now < Next ((Next ^^ j) t))"
proof (induction i arbitrary: t)
  case (Suc i)
  show ?case
  proof (cases "now < Next t")
    case True
    then show ?thesis by (intro exI [of _ 0]) simp
  next
    case False
    obtain j where j: "j \<le> i" "scan_latest i Next now (Next t) = (Next ^^ j) (Next t)"
      "\<And>m. 1 \<le> m \<and> m \<le> j \<Longrightarrow> (Next ^^ m) (Next t) \<le> now"
      "j < i \<Longrightarrow> now < Next ((Next ^^ j) (Next t))"
      using Suc [of "Next t"] by blast
    have shift: "(Next ^^ m) (Next t) = (Next ^^ Suc m) t" for m by (simp add: funpow_swap1)
    have "(Next ^^ m) t \<le> now" if "1 \<le> m" "m \<le> Suc j" for m
    proof (cases "m = 1")
      case True
      with False show ?thesis by simp
    next
      case m: False
      with that obtain m' where "m = Suc m'" "1 \<le> m'" "m' \<le> j" by (cases m) auto
      with j(3) [of m'] shift [of m'] show ?thesis by simp
    qed
    then show ?thesis
      using j(1,2,4) False shift [of j] by (intro exI [of _ "Suc j"]) (auto simp: Let_def)
  qed
qed simp

lemma scan_latest_stop: "now < Next t \<Longrightarrow> scan_latest i Next now t = t"
  by (cases i) simp_all

lemma scan_latest_step:
  "0 < i \<Longrightarrow> \<not> now < Next t \<Longrightarrow> scan_latest i Next now t = scan_latest (i - 1) Next now (Next t)"
  by (cases i) simp_all

lemma iterate_less:
  assumes "later Next"
  shows "i < j \<Longrightarrow> (Next ^^ i) t < (Next ^^ j) t"
proof (induction j)
  case (Suc j)
  have step: "(Next ^^ j) t < (Next ^^ Suc j) t" using assms by (simp add: later_def)
  show ?case
  proof (cases "i = j")
    case False
    with Suc have "(Next ^^ i) t < (Next ^^ j) t" by simp
    also note step
    finally show ?thesis .
  qed (use step in simp)
qed simp

lemma computeFires_char:
  assumes "later Next"
  shows "\<exists>k \<le> Suc maxScan.
    snd (computeFires Next lastFired now policy) = (Next ^^ k) lastFired \<and>
    (\<forall>m. 1 \<le> m \<and> m \<le> k \<longrightarrow> (Next ^^ m) lastFired \<le> now) \<and>
    (k < Suc maxScan \<longrightarrow> now < Next ((Next ^^ k) lastFired)) \<and>
    fst (computeFires Next lastFired now policy) =
      (if k = 0 then [] else if k = 1 \<or> policy = MisfireFireOnce then [(Next ^^ k) lastFired] else [])"
proof (cases "now < Next lastFired")
  case True
  then show ?thesis by (intro exI [of _ 0]) (simp add: computeFires_def)
next
  case False
  let ?n = "Next lastFired"
  obtain j where j: "j \<le> maxScan" "scan_latest maxScan Next now ?n = (Next ^^ j) ?n"
    "\<And>m. 1 \<le> m \<and> m \<le> j \<Longrightarrow> (Next ^^ m) ?n \<le> now" "j < maxScan \<Longrightarrow> now < Next ((Next ^^ j) ?n)"
    using scan_latest_spec [of maxScan Next now ?n] by blast
  have shift: "(Next ^^ m) ?n = (Next ^^ Suc m) lastFired" for m by (simp add: funpow_swap1)
  have gap: "?n < (Next ^^ j) ?n \<longleftrightarrow> 0 < j"
    using iterate_less [OF assms, of 0 j ?n] by (cases j) auto
  have le: "(Next ^^ m) lastFired \<le> now" if "1 \<le> m" "m \<le> Suc j" for m
  proof (cases "m = 1")
    case True
    with False show ?thesis by simp
  next
    case m: False
    with that obtain m' where "m = Suc m'" "1 \<le> m'" "m' \<le> j" by (cases m) auto
    with j(3) [of m'] shift [of m'] show ?thesis by simp
  qed
  show ?thesis
    using j(1,2,4) gap le shift [of j] False
    by (intro exI [of _ "Suc j"]) (auto simp: computeFires_def Let_def)
qed

text \<open>
  C38: what a tick fires.  With a schedule whose activations are later than the time they are asked
  for, a tick looks at the activations after the last one that was handled, in order: it stops
  at the last one that is not after now, or at the cap of 100,001.  It fires nothing when none is
  due, the one that is due when there is exactly one, and when several were missed, only the
  latest or none, as the policy says; the new last-fired time is the activation where it stopped.
\<close>

theorem computeFires_spec:
  assumes "later Next"
  shows "\<exists>k \<le> Suc maxScan.
    snd (computeFires Next lastFired now policy) = (Next ^^ k) lastFired \<and>
    (\<forall>m. 1 \<le> m \<and> m \<le> k \<longrightarrow> (Next ^^ m) lastFired \<le> now) \<and>
    (k < Suc maxScan \<longrightarrow> now < Next ((Next ^^ k) lastFired)) \<and>
    fst (computeFires Next lastFired now policy) =
      (if k = 0 then [] else if k = 1 \<or> policy = MisfireFireOnce then [(Next ^^ k) lastFired] else [])"
  using assms by (rule computeFires_char)

theorem computeFires_spec_witness:
  "later (\<lambda>t. t + 10) \<and>
   computeFires (\<lambda>t. t + 10) 0 15 MisfireSkip = ([10], 10) \<and>
   computeFires (\<lambda>t. t + 10) 0 35 MisfireFireOnce = ([30], 30) \<and>
   computeFires (\<lambda>t. t + 10) 0 35 MisfireSkip = ([], 30) \<and>
   (\<exists>k \<le> Suc maxScan. snd (computeFires (\<lambda>t. t + 10) 0 5 MisfireSkip) = ((\<lambda>t. t + 10) ^^ k) 0)"
proof -
  have l: "later (\<lambda>t. t + 10)" by (simp add: later_def)
  from computeFires_spec [OF l, of 0 5 MisfireSkip]
  have "\<exists>k \<le> Suc maxScan. snd (computeFires (\<lambda>t. t + 10) 0 5 MisfireSkip) = ((\<lambda>t. t + 10) ^^ k) 0"
    by blast
  with l show ?thesis
    by (simp add: computeFires_def Let_def maxScan_def scan_latest_stop scan_latest_step)
qed

subsection \<open>Successive ticks\<close>

text \<open>The triggers that a leader fires over a sequence of ticks, as \<^verbatim>\<open>fireDue\<close> threads last-fired.\<close>

fun tick_fires :: "(time \<Rightarrow> time) \<Rightarrow> MisfirePolicy \<Rightarrow> time \<Rightarrow> time list \<Rightarrow> time list" where
  "tick_fires Next policy lastFired [] = []"
| "tick_fires Next policy lastFired (now # nows) =
     (case computeFires Next lastFired now policy of
        (fires, newLast) \<Rightarrow> fires @ tick_fires Next policy newLast nows)"

lemma computeFires_mono:
  assumes "later Next" "computeFires Next lastFired now policy = (fires, newLast)"
  shows "lastFired \<le> newLast" "fires = [] \<or> fires = [newLast] \<and> lastFired < newLast \<and> newLast \<le> now"
proof -
  obtain k where k: "newLast = (Next ^^ k) lastFired"
    "\<forall>m. 1 \<le> m \<and> m \<le> k \<longrightarrow> (Next ^^ m) lastFired \<le> now"
    "fires = (if k = 0 then [] else if k = 1 \<or> policy = MisfireFireOnce then [(Next ^^ k) lastFired] else [])"
    using computeFires_char [OF assms(1), of lastFired now policy] assms(2) by auto
  have "k \<noteq> 0 \<Longrightarrow> lastFired < newLast" using iterate_less [OF assms(1), of 0 k lastFired] k(1) by simp
  then show "lastFired \<le> newLast" "fires = [] \<or> fires = [newLast] \<and> lastFired < newLast \<and> newLast \<le> now"
    using k by (cases "k = 0"; auto)+
qed

lemma tick_fires_after:
  "later Next \<Longrightarrow> x \<in> set (tick_fires Next policy lastFired nows) \<Longrightarrow> lastFired < x"
proof (induction nows arbitrary: lastFired)
  case (Cons now nows)
  obtain fires newLast where c: "computeFires Next lastFired now policy = (fires, newLast)"
    by (cases "computeFires Next lastFired now policy")
  note m = computeFires_mono [OF Cons.prems(1) c]
  from Cons.prems(2) c consider "x \<in> set fires" | "x \<in> set (tick_fires Next policy newLast nows)" by auto
  then show ?case
  proof cases
    case 1
    with m(2) show ?thesis by auto
  next
    case 2
    with Cons.IH [OF Cons.prems(1)] m(1) show ?thesis by fastforce
  qed
qed simp



text \<open>
  A schedule that is never satisfied fires.  For such a specification the cron library returns
  the zero time, which is not after now: every tick fires a trigger for the zero time.
\<close>

theorem unsatisfiable_schedule_fires:
  "zeroTime \<le> now \<Longrightarrow> computeFires (\<lambda>_. zeroTime) lastFired now policy = ([zeroTime], zeroTime)"
proof -
  assume now: "zeroTime \<le> now"
  have "scan_latest i (\<lambda>_. zeroTime) now zeroTime = zeroTime" for i
    by (induction i) simp_all
  with now show ?thesis by (simp add: computeFires_def)
qed

theorem unsatisfiable_schedule_fires_witness:
  "computeFires (\<lambda>_. zeroTime) 1700000000000000000 1700000001000000000 MisfireSkip = ([zeroTime], zeroTime)"
  using unsatisfiable_schedule_fires [of 1700000001000000000 1700000000000000000 MisfireSkip]
  by (simp add: zeroTime_def Second_def)

end
