(* ===== verification/Client.thy ===== *)
theory Client
  imports Rdb_Admin Misfire
begin

section \<open>Client (chronos.go, codec.go)\<close>

text \<open>
  Enqueue options and the routing of a message to one of the four enqueue paths.  The arguments
  of a task are the user's: the model keeps their kind and what \<^verbatim>\<open>json.Marshal\<close> makes of them, if it
  does not fail.  The zero \<^verbatim>\<open>time.Time\<close> of an option is \<open>None\<close>.
\<close>

record TaskArgs =
  A_Kind :: string
  A_JSON :: "bytes option"

definition encodeArgs :: "TaskArgs \<Rightarrow> err + bytes" where
  "encodeArgs args = (case A_JSON args of None \<Rightarrow> Inl ErrEncodeArgs | Some b \<Rightarrow> Inr b)"

definition DefaultQueue :: string where
  "DefaultQueue = ''default''"

definition DefaultMaxRetry :: int where
  "DefaultMaxRetry = 25"

record TaskInfo =
  TI_ID :: string
  TI_Kind :: string
  TI_Queue :: string
  TI_State :: string
  TI_Payload :: bytes
  TI_Retried :: int
  TI_MaxRetry :: int
  TI_LastErr :: string
  NextProcessAt :: "time option"
  TI_CompletedAt :: "time option"
  ChainPending :: int
  TI_ChainIndex :: int
  ChainNext :: "string list"
  TI_GroupID :: string
  TI_GroupPending :: int
  TI_GroupQueue :: string
  HasResult :: bool
  ResultSize :: int

definition zeroInfo :: TaskInfo where
  "zeroInfo = \<lparr>TI_ID = [], TI_Kind = [], TI_Queue = [], TI_State = [], TI_Payload = [],
     TI_Retried = 0, TI_MaxRetry = 0, TI_LastErr = [], NextProcessAt = None,
     TI_CompletedAt = None, ChainPending = 0, TI_ChainIndex = 0, ChainNext = [], TI_GroupID = [],
     TI_GroupPending = 0, TI_GroupQueue = [], HasResult = False, ResultSize = 0\<rparr>"

record enqueueOptions =
  o_queue :: string
  o_taskID :: string
  o_maxRetry :: int
  o_noArchive :: bool
  o_processAt :: "time option"
  o_processAtAbsolute :: bool
  o_uniqueTTL :: duration
  o_misfire :: MisfirePolicy
  o_retention :: duration

definition defaultOptions :: enqueueOptions where
  "defaultOptions = \<lparr>o_queue = DefaultQueue, o_taskID = [], o_maxRetry = DefaultMaxRetry,
     o_noArchive = False, o_processAt = None, o_processAtAbsolute = False, o_uniqueTTL = 0,
     o_misfire = MisfireSkip, o_retention = 0\<rparr>"

datatype Option =
    WithQueue string
  | WithTaskID string
  | WithMaxRetry int
  | WithDeadLetterDiscard
  | WithProcessAt "time option"
  | WithProcessIn duration
  | WithUnique duration
  | WithRetention duration
  | WithMisfirePolicy MisfirePolicy

fun apply_option :: "time \<Rightarrow> Option \<Rightarrow> enqueueOptions \<Rightarrow> enqueueOptions" where
  "apply_option now (WithQueue name) o' = o'\<lparr>o_queue := name\<rparr>"
| "apply_option now (WithTaskID i) o' = o'\<lparr>o_taskID := i\<rparr>"
| "apply_option now (WithMaxRetry n) o' = o'\<lparr>o_maxRetry := (if n < 0 then 0 else n)\<rparr>"
| "apply_option now WithDeadLetterDiscard o' = o'\<lparr>o_noArchive := True\<rparr>"
| "apply_option now (WithProcessAt t) o' = o'\<lparr>o_processAt := t, o_processAtAbsolute := True\<rparr>"
| "apply_option now (WithProcessIn d) o' = o'\<lparr>o_processAt := Some (now + d)\<rparr>"
| "apply_option now (WithUnique ttl) o' = (if 0 < ttl then o'\<lparr>o_uniqueTTL := ttl\<rparr> else o')"
| "apply_option now (WithRetention d) o' =
     (if d \<le> 0 then o'\<lparr>o_retention := 0\<rparr>
      else o'\<lparr>o_retention := (if d < Second then Second else d)\<rparr>)"
| "apply_option now (WithMisfirePolicy p) o' = o'\<lparr>o_misfire := p\<rparr>"

definition apply_options :: "time \<Rightarrow> Option list \<Rightarrow> enqueueOptions" where
  "apply_options now opts = fold (apply_option now) opts defaultOptions"

text \<open>\<^verbatim>\<open>time.Until\<close> saturates at the ends of the 64-bit range of a duration.\<close>

definition Until :: "time \<Rightarrow> time \<Rightarrow> duration" where
  "Until now t = max (- (2 ^ 63)) (min (2 ^ 63 - 1) (t - now))"

definition dispatchMessage ::
  "redis \<Rightarrow> Keys \<Rightarrow> time \<Rightarrow> TaskMessage \<Rightarrow> enqueueOptions \<Rightarrow> unit go" where
  "dispatchMessage R K now msg options =
     (let unique = 0 < o_uniqueTTL options
      in case o_processAt options of
           Some t \<Rightarrow>
             if now < t then
               (if unique
                then ScheduleUnique R K msg t (int64 (o_uniqueTTL options + Until now t))
                else Schedule R K msg t)
             else if unique then EnqueueUnique R K msg (o_uniqueTTL options)
             else Enqueue R K msg
         | None \<Rightarrow>
             if unique then EnqueueUnique R K msg (o_uniqueTTL options)
             else Enqueue R K msg)"

definition clientMessage :: "string \<Rightarrow> TaskArgs \<Rightarrow> bytes \<Rightarrow> enqueueOptions \<Rightarrow> TaskMessage" where
  "clientMessage uuid args payload options =
     zeroMessage\<lparr>ID := (if o_taskID options = [] then uuid else o_taskID options),
       Kind := A_Kind args, Payload := payload, Queue := o_queue options,
       MaxRetry := o_maxRetry options, NoArchive := o_noArchive options,
       Retention := quot (o_retention options) Second\<rparr>"

definition clientEnqueue ::
  "redis \<Rightarrow> Keys \<Rightarrow> time \<Rightarrow> string \<Rightarrow> TaskArgs \<Rightarrow> Option list \<Rightarrow> TaskInfo go" where
  "clientEnqueue R K now uuid args opts =
     (let options = apply_options now opts
      in case encodeArgs args of
           Inl e \<Rightarrow> fail e
         | Inr payload \<Rightarrow>
             (let msg = clientMessage uuid args payload options
              in andthen (dispatchMessage R K now msg options) (\<lambda>_.
                 return (zeroInfo\<lparr>TI_ID := ID msg, TI_Kind := Kind msg, TI_Queue := Queue msg\<rparr>))))"

subsection \<open>Typed tasks\<close>

record 'a Task =
  Args :: 'a
  t_id :: string
  t_queue :: string
  t_prevResult :: bytes
  t_groupResults :: "bytes list"

datatype resultErr = ErrNoResult | ErrDecodeResult | ErrMember nat resultErr

text \<open>\<open>dec\<close> is \<^verbatim>\<open>json.Unmarshal\<close> into the result type that the caller asks for.\<close>

definition PrevResult_of :: "(bytes \<Rightarrow> 'r option) \<Rightarrow> 'a Task \<Rightarrow> resultErr + 'r" where
  "PrevResult_of dec t =
     (if t_prevResult t = [] then Inl ErrNoResult
      else case dec (t_prevResult t) of None \<Rightarrow> Inl ErrDecodeResult | Some r \<Rightarrow> Inr r)"

fun group_results_loop :: "(bytes \<Rightarrow> 'r option) \<Rightarrow> nat \<Rightarrow> bytes list \<Rightarrow> resultErr + 'r list" where
  "group_results_loop dec i [] = Inr []"
| "group_results_loop dec i (raw # raws) =
     (if raw = [] then Inl (ErrMember i ErrNoResult)
      else case dec raw of
        None \<Rightarrow> Inl (ErrMember i ErrDecodeResult)
      | Some r \<Rightarrow>
          (case group_results_loop dec (Suc i) raws of Inl e \<Rightarrow> Inl e | Inr rs \<Rightarrow> Inr (r # rs)))"

definition GroupResults_of :: "(bytes \<Rightarrow> 'r option) \<Rightarrow> 'a Task \<Rightarrow> resultErr + 'r list" where
  "GroupResults_of dec t =
     (if t_groupResults t = [] then Inl ErrNoResult else group_results_loop dec 0 (t_groupResults t))"

end
