(* ===== verification/Backoff.thy ===== *)
theory Backoff
  imports Complex_Main Prelude
begin

section \<open>Retry policy (retry.go)\<close>

text \<open>
  Errors that a handler returns, the mark that makes one non-retryable and the default backoff.
  An error is its text together with the errors it wraps; \<^verbatim>\<open>errors.As\<close> walks through the wrapped
  ones.
\<close>

datatype gerr = Err string "gerr list" | skipRetryError gerr

fun Error :: "gerr \<Rightarrow> string" where
  "Error (Err s es) = s"
| "Error (skipRetryError e) = Error e"

definition SkipRetry :: "gerr \<Rightarrow> gerr" where
  "SkipRetry e = skipRetryError e"

fun asSkipRetry :: "gerr \<Rightarrow> bool" where
  "asSkipRetry (Err s es) = list_ex asSkipRetry es"
| "asSkipRetry (skipRetryError e) = True"

definition retryBaseDelay :: duration where
  "retryBaseDelay = 5 * Second"

definition retryMaxDelay :: duration where
  "retryMaxDelay = 15 * Minute"

text \<open>
  The product of the base delay and a power of two is exact in double arithmetic until it
  overflows to infinity, which the clamp replaces as well.
\<close>

definition retryCeiling :: "int \<Rightarrow> int" where
  "retryCeiling retried =
     \<lfloor>min (of_int retryBaseDelay * 2 powi retried) (of_int retryMaxDelay) :: rat\<rfloor>"

text \<open>\<open>Int63n\<close> is the random source: \<^verbatim>\<open>rand.Int63n(n)\<close> lies in the half-open interval from 0 to \<open>n\<close>.\<close>

definition DefaultRetryDelay :: "(int \<Rightarrow> int) \<Rightarrow> int \<Rightarrow> duration" where
  "DefaultRetryDelay Int63n retried = Int63n (retryCeiling retried + 1)"

definition int63n :: "(int \<Rightarrow> int) \<Rightarrow> bool" where
  "int63n f \<longleftrightarrow> (\<forall>n. 0 < n \<longrightarrow> 0 \<le> f n \<and> f n < n)"

lemma retryCeiling_bounds: "0 \<le> retryCeiling n \<and> retryCeiling n \<le> retryMaxDelay"
proof -
  have "(0::rat) \<le> of_int retryBaseDelay * 2 powi n" by (simp add: retryBaseDelay_def Second_def)
  then have "0 \<le> retryCeiling n"
    by (simp add: retryCeiling_def retryMaxDelay_def Minute_def Second_def)
  moreover have "of_int (retryCeiling n) \<le> (of_int retryMaxDelay :: rat)"
    unfolding retryCeiling_def by (rule order.trans [OF of_int_floor_le]) simp
  ultimately show ?thesis by simp
qed

lemma retryCeiling_nat: "retryCeiling (int n) = min (retryBaseDelay * 2 ^ n) retryMaxDelay"
proof -
  have "of_int retryBaseDelay * 2 powi int n = (of_int (retryBaseDelay * 2 ^ n) :: rat)" by simp
  then show ?thesis unfolding retryCeiling_def
    by (metis floor_of_int of_int_min)
qed

text \<open>
  C40: the default backoff.  Whatever the random source yields, the delay before the retry is
  between zero and the exponential ceiling, five seconds doubled for every retry and never more
  than fifteen minutes; the bound that is passed to the random source is positive, so it does not
  panic, and the ceiling never decreases from one retry to the next.
\<close>

theorem DefaultRetryDelay_bounds:
  assumes "int63n f"
  shows "0 \<le> DefaultRetryDelay f (int n) \<and>
    DefaultRetryDelay f (int n) \<le> min (retryBaseDelay * 2 ^ n) retryMaxDelay \<and>
    0 < retryCeiling (int n) + 1 \<and> retryCeiling (int n) \<le> retryCeiling (int (Suc n))"
proof -
  have c: "0 < retryCeiling (int n) + 1" using retryCeiling_bounds [of "int n"] by simp
  then have f: "0 \<le> f (retryCeiling (int n) + 1)" "f (retryCeiling (int n) + 1) < retryCeiling (int n) + 1"
    using assms unfolding int63n_def by blast+
  have "retryCeiling (int n) \<le> retryCeiling (int (Suc n))"
    unfolding retryCeiling_nat by (intro min.mono) (simp_all add: retryBaseDelay_def Second_def)
  then show ?thesis
    using f c unfolding DefaultRetryDelay_def retryCeiling_nat [symmetric] by linarith
qed

theorem DefaultRetryDelay_bounds_witness:
  "int63n (\<lambda>n. n - 1) \<and> DefaultRetryDelay (\<lambda>n. n - 1) (int 2) = 20000000000 \<and>
   DefaultRetryDelay (\<lambda>n. n - 1) (int 40) \<le> retryMaxDelay"
proof -
  have i: "int63n (\<lambda>n. n - 1)" by (simp add: int63n_def)
  have "DefaultRetryDelay (\<lambda>n. n - 1) (int 2) = 20000000000"
    unfolding DefaultRetryDelay_def retryCeiling_nat
    by (simp add: retryBaseDelay_def retryMaxDelay_def Minute_def Second_def)
  moreover have "DefaultRetryDelay (\<lambda>n. n - 1) (int 40) \<le> retryMaxDelay"
    using DefaultRetryDelay_bounds [OF i, of 40] by simp
  ultimately show ?thesis using i by simp
qed

lemma asSkipRetry_SkipRetry [simp]: "asSkipRetry (SkipRetry e)"
  by (simp add: SkipRetry_def)

lemma Error_SkipRetry [simp]: "Error (SkipRetry e) = Error e"
  by (simp add: SkipRetry_def)

end
