(* ===== verification/Handler.thy ===== *)
theory Handler
  imports Client Backoff
begin

section \<open>Handlers (handler.go)\<close>

text \<open>
  The routing of a message to the handler of its kind.  A handler is the user's function: the model
  takes it as an argument, together with what \<^verbatim>\<open>json.Unmarshal\<close> makes of a payload for its argument
  type and what \<^verbatim>\<open>json.Marshal\<close> makes of its result.  A handler returns, fails or panics.
\<close>

subsection \<open>Quoting\<close>

text \<open>
  \<^verbatim>\<open>strconv.Quote\<close>, which the verb \<^verbatim>\<open>%q\<close> uses.  Which code points above ASCII are printable is a
  table of package \<^verbatim>\<open>unicode\<close> and comes as an argument.
\<close>

definition hex_pad :: "nat \<Rightarrow> nat \<Rightarrow> string" where
  "hex_pad n v = map (\<lambda>i. hex_digit (v div 16 ^ i mod 16)) (rev [0..<n])"

definition quote_rune :: "(nat \<Rightarrow> bool) \<Rightarrow> nat \<Rightarrow> string \<Rightarrow> string" where
  "quote_rune isPrint r raw =
     (if r = 34 \<or> r = 92 then char_of (92 :: nat) # raw
      else if 32 \<le> r \<and> r < 127 \<or> 128 \<le> r \<and> isPrint r then raw
      else if r = 7 then [char_of (92 :: nat), CHR ''a'']
      else if r = 8 then [char_of (92 :: nat), CHR ''b'']
      else if r = 12 then [char_of (92 :: nat), CHR ''f'']
      else if r = 10 then [char_of (92 :: nat), CHR ''n'']
      else if r = 13 then [char_of (92 :: nat), CHR ''r'']
      else if r = 9 then [char_of (92 :: nat), CHR ''t'']
      else if r = 11 then [char_of (92 :: nat), CHR ''v'']
      else if r < 32 \<or> r = 127 then char_of (92 :: nat) # ''x'' @ hex_pad 2 r
      else if r < 65536 then char_of (92 :: nat) # ''u'' @ hex_pad 4 r
      else char_of (92 :: nat) # ''U'' @ hex_pad 8 r)"

function quote_body :: "(nat \<Rightarrow> bool) \<Rightarrow> nat list \<Rightarrow> string" where
  "quote_body isPrint bs =
     (if bs = [] then []
      else case decode_rune bs of (r, w) \<Rightarrow>
        (if r = 65533 \<and> w = 1 then char_of (92 :: nat) # ''x'' @ hex_pad 2 (hd bs)
         else quote_rune isPrint r (map char_of (take w bs))) @ quote_body isPrint (drop w bs))"
  by pat_completeness auto
termination
proof (relation "measure (\<lambda>(p, bs). length bs)")
  fix p :: "nat \<Rightarrow> bool" and bs :: "nat list" and r w
  assume "bs \<noteq> []" "(r, w) = decode_rune bs"
  then show "((p, drop w bs), p, bs) \<in> measure (\<lambda>(p, bs). length bs)"
    using decode_rune_width [of bs] by (cases "decode_rune bs") auto
qed simp

declare quote_body.simps [simp del]

definition Quote :: "(nat \<Rightarrow> bool) \<Rightarrow> string \<Rightarrow> string" where
  "Quote isPrint s = CHR 34 # quote_body isPrint (map of_char s) @ [CHR 34]"

subsection \<open>Mux\<close>

datatype 'r outcome = Returns 'r | Fails gerr | Panics string

type_synonym internalHandler = "TaskMessage \<Rightarrow> TaskMessage outcome"
type_synonym Mux = "string \<Rightarrow> internalHandler option"

definition NewMux :: Mux where
  "NewMux = (\<lambda>_. None)"

definition MaxResultSize :: nat where
  "MaxResultSize = 2 ^ 20"

definition ErrResultTooLarge :: gerr where
  "ErrResultTooLarge = Err ''chronos: result exceeds MaxResultSize'' []"

definition newTask :: "'a \<Rightarrow> TaskMessage \<Rightarrow> 'a Task" where
  "newTask args msg =
     \<lparr>Args = args, t_id = ID msg, t_queue = Queue msg, t_prevResult = PrevResult msg,
      t_groupResults = GroupResults msg\<rparr>"

text \<open>\<^verbatim>\<open>fmt.Errorf\<close> with a text in front of the wrapped error.\<close>

definition wrap :: "string \<Rightarrow> gerr \<Rightarrow> gerr" where
  "wrap s e = Err (s @ '': '' @ Error e) [e]"

definition decode_error :: "(nat \<Rightarrow> bool) \<Rightarrow> string \<Rightarrow> gerr \<Rightarrow> gerr" where
  "decode_error isPrint kind e = wrap (''chronos: decode payload for kind '' @ Quote isPrint kind) e"

definition handle ::
  "(nat \<Rightarrow> bool) \<Rightarrow> string \<Rightarrow> (bytes \<Rightarrow> gerr + 'a) \<Rightarrow> ('a Task \<Rightarrow> unit outcome) \<Rightarrow> internalHandler" where
  "handle isPrint kind decodeArgs fn msg =
     (case decodeArgs (Payload msg) of
        Inl e \<Rightarrow> Fails (decode_error isPrint kind e)
      | Inr args \<Rightarrow>
          (case fn (newTask args msg) of
             Returns _ \<Rightarrow> Returns msg
           | Fails e \<Rightarrow> Fails e
           | Panics p \<Rightarrow> Panics p))"

definition handleR ::
  "(nat \<Rightarrow> bool) \<Rightarrow> string \<Rightarrow> (bytes \<Rightarrow> gerr + 'a) \<Rightarrow> ('r \<Rightarrow> gerr + bytes) \<Rightarrow>
   ('a Task \<Rightarrow> 'r outcome) \<Rightarrow> internalHandler" where
  "handleR isPrint kind decodeArgs marshal fn msg =
     (case decodeArgs (Payload msg) of
        Inl e \<Rightarrow> Fails (decode_error isPrint kind e)
      | Inr args \<Rightarrow>
          (case fn (newTask args msg) of
             Fails e \<Rightarrow> Fails e
           | Panics p \<Rightarrow> Panics p
           | Returns res \<Rightarrow>
               (case marshal res of
                  Inl e \<Rightarrow>
                    Fails (SkipRetry (wrap (''chronos: marshal result for kind '' @ Quote isPrint kind) e))
                | Inr b \<Rightarrow>
                    if MaxResultSize < length b
                    then Fails (SkipRetry (wrap (''chronos: kind '' @ Quote isPrint kind @
                           '' result is '' @ dec_nat (length b) @ '' bytes'') ErrResultTooLarge))
                    else Returns (msg\<lparr>Result := b\<rparr>))))"

text \<open>Registering a kind twice panics.\<close>

definition AddHandler ::
  "(nat \<Rightarrow> bool) \<Rightarrow> Mux \<Rightarrow> string \<Rightarrow> (bytes \<Rightarrow> gerr + 'a) \<Rightarrow> ('a Task \<Rightarrow> unit outcome) \<Rightarrow> string + Mux" where
  "AddHandler isPrint mux kind decodeArgs fn =
     (if mux kind \<noteq> None
      then Inl (''chronos: handler already registered for kind '' @ Quote isPrint kind)
      else Inr (mux(kind \<mapsto> handle isPrint kind decodeArgs fn)))"

definition AddHandlerR ::
  "(nat \<Rightarrow> bool) \<Rightarrow> Mux \<Rightarrow> string \<Rightarrow> (bytes \<Rightarrow> gerr + 'a) \<Rightarrow> ('r \<Rightarrow> gerr + bytes) \<Rightarrow>
   ('a Task \<Rightarrow> 'r outcome) \<Rightarrow> string + Mux" where
  "AddHandlerR isPrint mux kind decodeArgs marshal fn =
     (if mux kind \<noteq> None
      then Inl (''chronos: handler already registered for kind '' @ Quote isPrint kind)
      else Inr (mux(kind \<mapsto> handleR isPrint kind decodeArgs marshal fn)))"

definition dispatch :: "(nat \<Rightarrow> bool) \<Rightarrow> Mux \<Rightarrow> TaskMessage \<Rightarrow> TaskMessage outcome" where
  "dispatch isPrint mux msg =
     (case mux (Kind msg) of
        None \<Rightarrow> Fails (Err (''chronos: no handler registered for kind '' @ Quote isPrint (Kind msg)) [])
      | Some h \<Rightarrow> h msg)"

text \<open>\<^verbatim>\<open>dispatchSafely\<close> of server.go: a panic becomes an error.\<close>

definition dispatchSafely :: "(nat \<Rightarrow> bool) \<Rightarrow> Mux \<Rightarrow> TaskMessage \<Rightarrow> gerr + TaskMessage" where
  "dispatchSafely isPrint mux msg =
     (case dispatch isPrint mux msg of
        Returns msg' \<Rightarrow> Inr msg'
      | Fails e \<Rightarrow> Inl e
      | Panics p \<Rightarrow> Inl (Err (''chronos: handler panic: '' @ p) []))"

subsection \<open>Results\<close>

text \<open>A mux of registered handlers changes nothing of a message but its result, which it bounds.\<close>

definition wf_mux :: "Mux \<Rightarrow> bool" where
  "wf_mux mux \<longleftrightarrow>
     (\<forall>k h msg msg'. mux k = Some h \<longrightarrow> h msg = Returns msg' \<longrightarrow>
        (msg' = msg \<or> (\<exists>b. msg' = msg\<lparr>Result := b\<rparr> \<and> length b \<le> MaxResultSize)))"

end
