(* ===== verification/Workflow.thy ===== *)
theory Workflow
  imports Client
begin

section \<open>Chain and group builders (chain.go, group.go)\<close>

text \<open>
  A chain is a list of stages, each a single task or a group; a group is a list of members, each
  a single task or a chain, with an optional callback.  A nil group or chain that the caller hands
  in is \<open>None\<close>.  Building only collects; \<^verbatim>\<open>Enqueue\<close> validates everything and freezes the later
  stages into links before the first task is stored.
\<close>

datatype Chain = MkChain "chainStage list"
and chainStage = TaskStage TaskArgs "Option list" | GroupStage "Group option"
and Group = MkGroup "groupMember list" "(TaskArgs \<times> Option list) option"
and groupMember = TaskMember TaskArgs "Option list" | ChainMember "Chain option"

fun stages :: "Chain \<Rightarrow> chainStage list" where
  "stages (MkChain ss) = ss"

fun members :: "Group \<Rightarrow> groupMember list" where
  "members (MkGroup ms cb) = ms"

fun callback :: "Group \<Rightarrow> (TaskArgs \<times> Option list) option" where
  "callback (MkGroup ms cb) = cb"

definition NewChain :: Chain where "NewChain = MkChain []"

fun Then :: "Chain \<Rightarrow> TaskArgs \<Rightarrow> Option list \<Rightarrow> Chain" where
  "Then (MkChain ss) args opts = MkChain (ss @ [TaskStage args opts])"

fun ThenGroup :: "Chain \<Rightarrow> Group option \<Rightarrow> Chain" where
  "ThenGroup (MkChain ss) g = MkChain (ss @ [GroupStage g])"

definition NewGroup :: Group where "NewGroup = MkGroup [] None"

fun Add :: "Group \<Rightarrow> TaskArgs \<Rightarrow> Option list \<Rightarrow> Group" where
  "Add (MkGroup ms cb) args opts = MkGroup (ms @ [TaskMember args opts]) cb"

fun AddChain :: "Group \<Rightarrow> Chain option \<Rightarrow> Group" where
  "AddChain (MkGroup ms cb) ch = MkGroup (ms @ [ChainMember ch]) cb"

fun OnComplete :: "Group \<Rightarrow> TaskArgs \<Rightarrow> Option list \<Rightarrow> Group" where
  "OnComplete (MkGroup ms cb) args opts = MkGroup ms (Some (args, opts))"

subsection \<open>Errors in sequence\<close>

definition ebind :: "err + 'a \<Rightarrow> ('a \<Rightarrow> err + 'b) \<Rightarrow> err + 'b" where
  "ebind x f = (case x of Inl e \<Rightarrow> Inl e | Inr a \<Rightarrow> f a)"

definition located :: "string \<Rightarrow> nat \<Rightarrow> err + 'a \<Rightarrow> err + 'a" where
  "located what i x = (case x of Inl e \<Rightarrow> Inl (ErrAt what i e) | Inr a \<Rightarrow> Inr a)"

fun mapE :: "(nat \<Rightarrow> 'a \<Rightarrow> err + 'b) \<Rightarrow> nat \<Rightarrow> 'a list \<Rightarrow> err + 'b list" where
  "mapE f i [] = Inr []"
| "mapE f i (x # xs) = ebind (f i x) (\<lambda>y. ebind (mapE f (Suc i) xs) (\<lambda>ys. Inr (y # ys)))"

lemma ebind_simps [simp]: "ebind (Inl e) f = Inl e" "ebind (Inr a) f = f a"
  by (simp_all add: ebind_def)

lemma ebind_Inr: "ebind x f = Inr b \<longleftrightarrow> (\<exists>a. x = Inr a \<and> f a = Inr b)"
  by (cases x) auto

lemma located_Inr [simp]: "located what i x = Inr a \<longleftrightarrow> x = Inr a"
  by (cases x) (simp_all add: located_def)

lemma mapE_Inr:
  "mapE f i xs = Inr ys \<longleftrightarrow>
   length ys = length xs \<and> (\<forall>j < length xs. f (i + j) (xs ! j) = Inr (ys ! j))"
proof (induction xs arbitrary: i ys)
  case (Cons x xs)
  have "mapE f i (x # xs) = Inr ys \<longleftrightarrow>
    (\<exists>y zs. ys = y # zs \<and> f i x = Inr y \<and> mapE f (Suc i) xs = Inr zs)"
    by (auto simp: ebind_Inr)
  also have "\<dots> \<longleftrightarrow> length ys = length (x # xs) \<and>
    (\<forall>j < length (x # xs). f (i + j) ((x # xs) ! j) = Inr (ys ! j))"
    by (cases ys) (auto simp: Cons.IH nth_Cons' less_Suc_eq_0_disj all_conj_distrib)
  finally show ?case .
qed auto

subsection \<open>Freezing links\<close>

definition resolveChainOptions :: "time \<Rightarrow> Option list \<Rightarrow> err + enqueueOptions" where
  "resolveChainOptions now opts =
     (let o' = apply_options now opts
      in if o_taskID o' \<noteq> [] then Inl ErrTaskIDInChain
         else if 0 < o_uniqueTTL o' then Inl ErrUniqueInChain
         else Inr o')"

text \<open>The addition of half a second is a 64-bit addition.\<close>

definition captureRelativeDelay :: "time \<Rightarrow> enqueueOptions \<Rightarrow> int" where
  "captureRelativeDelay now o' =
     (case o_processAt o' of
        None \<Rightarrow> 0
      | Some t \<Rightarrow>
          (let d = Until now t
           in if d \<le> 0 then 0
              else let delay = quot (int64 (d + quot Second 2)) Second
                   in if delay = 0 then 1 else delay))"

definition snapshotChainLink :: "time \<Rightarrow> TaskArgs \<Rightarrow> Option list \<Rightarrow> bool \<Rightarrow> err + ChainLink" where
  "snapshotChainLink now args opts isLast =
     ebind (resolveChainOptions now opts) (\<lambda>o'.
     if o_processAtAbsolute o' then Inl ErrProcessAtInChain
     else if o_noArchive o' \<and> \<not> isLast then Inl ErrNoArchiveMidChain
     else ebind (encodeArgs args) (\<lambda>payload.
       Inr \<lparr>L_Kind = A_Kind args, L_Payload = payload, L_Queue = o_queue o',
            L_MaxRetry = o_maxRetry o', L_NoArchive = o_noArchive o',
            L_Retention = quot (o_retention o') Second, L_Delay = captureRelativeDelay now o',
            L_Group = []\<rparr>))"

definition snapshotGroupMember :: "time \<Rightarrow> nat \<Rightarrow> groupMember \<Rightarrow> err + GroupMemberLink" where
  "snapshotGroupMember now j m =
     located ''member'' j
       (case m of
          ChainMember ch \<Rightarrow> Inl ErrChainMemberInStage
        | TaskMember args opts \<Rightarrow>
            ebind (resolveChainOptions now opts) (\<lambda>o'.
            if o_noArchive o' then Inl ErrDiscardMember
            else if o_processAtAbsolute o' then Inl ErrProcessAtInChain
            else ebind (encodeArgs args) (\<lambda>payload.
              let delay = captureRelativeDelay now o'
              in if GroupTTL_secs < delay then Inl ErrExceedsGroupTTL
                 else Inr \<lparr>M_Kind = A_Kind args, M_Payload = payload, M_Queue = o_queue o',
                           M_MaxRetry = o_maxRetry o',
                           M_Retention = quot (o_retention o') Second, M_Delay = delay\<rparr>)))"

definition snapshotGroupStage :: "time \<Rightarrow> Group option \<Rightarrow> nat \<Rightarrow> bool \<Rightarrow> err + ChainLink" where
  "snapshotGroupStage now g i isLast =
     located ''chain stage'' i
       (case g of
          None \<Rightarrow> Inl ErrNilGroup
        | Some g \<Rightarrow>
            if members g = [] then Inl ErrGroupEmpty
            else case callback g of
              None \<Rightarrow> Inl ErrNoOnComplete
            | Some (cb, cbOpts) \<Rightarrow>
                ebind (snapshotChainLink now cb cbOpts isLast) (\<lambda>link.
                ebind (mapE (snapshotGroupMember now) 0 (members g)) (\<lambda>ms.
                Inr (link\<lparr>L_Group := ms\<rparr>))))"

definition snapshotStage :: "time \<Rightarrow> nat \<Rightarrow> nat \<Rightarrow> chainStage \<Rightarrow> err + ChainLink" where
  "snapshotStage now n i st =
     (let isLast = (i = n - 1)
      in case st of
           TaskStage args opts \<Rightarrow> located ''chain link'' i (snapshotChainLink now args opts isLast)
         | GroupStage g \<Rightarrow> snapshotGroupStage now g i isLast)"

definition snapshotTail :: "time \<Rightarrow> Chain \<Rightarrow> err + ChainLink list" where
  "snapshotTail now ch = mapE (snapshotStage now (length (stages ch))) 1 (tl (stages ch))"

fun isGroup :: "chainStage \<Rightarrow> bool" where
  "isGroup (GroupStage g) = True"
| "isGroup _ = False"

definition hasGroupStage :: "Chain \<Rightarrow> bool" where
  "hasGroupStage ch = list_ex isGroup (stages ch)"

subsection \<open>Enqueueing a chain\<close>

definition firstLinkMessage ::
  "string \<Rightarrow> TaskArgs \<Rightarrow> bytes \<Rightarrow> enqueueOptions \<Rightarrow> bool \<Rightarrow> ChainLink list \<Rightarrow> TaskMessage" where
  "firstLinkMessage chainID args payload options noArchive tail =
     zeroMessage\<lparr>ID := chainID @ '':0'', Kind := A_Kind args, Payload := payload,
       Queue := o_queue options, MaxRetry := o_maxRetry options, NoArchive := noArchive,
       Retention := quot (o_retention options) Second, Chain := tail, ChainID := chainID,
       ChainIndex := 0\<rparr>"

definition prepareChain :: "time \<Rightarrow> string \<Rightarrow> Chain \<Rightarrow> err + (TaskMessage \<times> enqueueOptions)" where
  "prepareChain now chainID ch =
     (case stages ch of
        [] \<Rightarrow> Inl ErrEmptyChain
      | GroupStage g # rest \<Rightarrow> Inl ErrGroupFirst
      | TaskStage args opts # rest \<Rightarrow>
          ebind (snapshotTail now ch) (\<lambda>tail.
          ebind (located ''chain link'' 0 (resolveChainOptions now opts)) (\<lambda>options.
          if rest \<noteq> [] \<and> o_noArchive options then Inl (ErrAt ''chain link'' 0 ErrNoArchiveMidChain)
          else ebind (located ''chain link'' 0 (encodeArgs args)) (\<lambda>payload.
            Inr (firstLinkMessage chainID args payload options (o_noArchive options) tail, options)))))"

definition chainEnqueue :: "redis \<Rightarrow> Keys \<Rightarrow> time \<Rightarrow> string \<Rightarrow> Chain \<Rightarrow> TaskInfo go" where
  "chainEnqueue R K now uuid ch =
     (case prepareChain now uuid ch of
        Inl e \<Rightarrow> fail e
      | Inr (msg, options) \<Rightarrow>
          andthen (dispatchMessage R K now msg options) (\<lambda>_.
          return (zeroInfo\<lparr>TI_ID := ID msg, TI_Kind := Kind msg, TI_Queue := Queue msg,
                    ChainPending := int (length (Chain msg))\<rparr>)))"

definition snapshotForMember ::
  "time \<Rightarrow> Chain option \<Rightarrow> string \<Rightarrow> err + (TaskMessage \<times> enqueueOptions)" where
  "snapshotForMember now ch0 chainID =
     (case ch0 of
        None \<Rightarrow> Inl ErrNilChainMember
      | Some ch \<Rightarrow>
          if stages ch = [] then Inl ErrEmptyChainMember
          else if hasGroupStage ch then Inl ErrNestedStage
          else ebind (snapshotTail now ch) (\<lambda>tail.
            (case hd (stages ch) of
               GroupStage g \<Rightarrow> Inl ErrNestedStage
             | TaskStage args opts \<Rightarrow>
                 ebind (located ''chain member link'' 0 (resolveChainOptions now opts)) (\<lambda>options.
                 if o_noArchive options then Inl ErrDiscardMember
                 else if list_ex L_NoArchive tail then Inl ErrDiscardMember
                 else ebind (located ''chain member link'' 0 (encodeArgs args)) (\<lambda>payload.
                   Inr (firstLinkMessage chainID args payload options False tail, options))))))"

subsection \<open>Enqueueing a group\<close>

definition memberID :: "string \<Rightarrow> nat \<Rightarrow> string" where
  "memberID groupID i = groupID @ '':m'' @ dec_nat i"

text \<open>The delays of the later links add up in 64-bit arithmetic.\<close>

definition chainMemberDelay :: "time \<Rightarrow> enqueueOptions \<Rightarrow> ChainLink list \<Rightarrow> duration" where
  "chainMemberDelay now options links =
     fold (\<lambda>l acc. if 0 < L_Delay l then int64 (acc + int64 (L_Delay l * Second)) else acc) links
       (case o_processAt options of None \<Rightarrow> 0 | Some t \<Rightarrow> Until now t)"

definition prepareMember ::
  "time \<Rightarrow> string \<Rightarrow> nat \<Rightarrow> ChainLink \<Rightarrow> nat \<Rightarrow> groupMember \<Rightarrow> err + (TaskMessage \<times> enqueueOptions)" where
  "prepareMember now groupID n cbLink i m =
     located ''group member'' i
       (case m of
          ChainMember ch \<Rightarrow>
            ebind (snapshotForMember now ch (memberID groupID i)) (\<lambda>(msg, options).
            if GroupTTL < chainMemberDelay now options (Chain msg) then Inl ErrExceedsGroupTTL
            else Inr (msg\<lparr>GroupID := groupID, GroupQueue := L_Queue cbLink,
                        GroupCallback := Some cbLink, GroupIndex := int i, GroupSize := int n,
                        GroupMemberID := memberID groupID i\<rparr>, options))
        | TaskMember args opts \<Rightarrow>
            ebind (resolveChainOptions now opts) (\<lambda>options.
            if o_noArchive options then Inl ErrDiscardMember
            else if (case o_processAt options of None \<Rightarrow> False | Some t \<Rightarrow> GroupTTL < Until now t)
            then Inl ErrExceedsGroupTTL
            else ebind (encodeArgs args) (\<lambda>payload.
              Inr (zeroMessage\<lparr>ID := memberID groupID i, Kind := A_Kind args, Payload := payload,
                     Queue := o_queue options, MaxRetry := o_maxRetry options,
                     Retention := quot (o_retention options) Second, GroupID := groupID,
                     GroupQueue := L_Queue cbLink, GroupCallback := Some cbLink,
                     GroupIndex := int i, GroupSize := int n\<rparr>, options))))"

definition prepareGroup ::
  "time \<Rightarrow> string \<Rightarrow> Group \<Rightarrow> err + (ChainLink \<times> (TaskMessage \<times> enqueueOptions) list)" where
  "prepareGroup now groupID g =
     (if members g = [] then Inl ErrGroupEmpty
      else case callback g of
        None \<Rightarrow> Inl ErrNoOnComplete
      | Some (cb, cbOpts) \<Rightarrow>
          ebind (located ''group callback'' 0 (snapshotChainLink now cb cbOpts True)) (\<lambda>cbLink.
          ebind (mapE (prepareMember now groupID (length (members g)) cbLink) 0 (members g)) (\<lambda>pending.
          Inr (cbLink, pending))))"

record GroupInfo =
  GI_GroupID :: string
  MemberIDs :: "string list"
  CallbackID :: string

fun dispatchMembers ::
  "redis \<Rightarrow> Keys \<Rightarrow> time \<Rightarrow> nat \<Rightarrow> (TaskMessage \<times> enqueueOptions) list \<Rightarrow> unit go" where
  "dispatchMembers R K now i [] w = (Inr (), w)"
| "dispatchMembers R K now i ((msg, options) # ps) w =
     (case dispatchMessage R K now msg options w of
        (Inl e, w') \<Rightarrow> (Inl (ErrAt ''group member'' i e), w')
      | (Inr _, w') \<Rightarrow> dispatchMembers R K now (Suc i) ps w')"

definition groupEnqueue :: "redis \<Rightarrow> Keys \<Rightarrow> time \<Rightarrow> string \<Rightarrow> Group \<Rightarrow> GroupInfo go" where
  "groupEnqueue R K now groupID g =
     (case prepareGroup now groupID g of
        Inl e \<Rightarrow> fail e
      | Inr (cbLink, pending) \<Rightarrow>
          (let memberIDs = map (memberID groupID) [0..<length (members g)]
           in andthen (CreateGroup R K (L_Queue cbLink) groupID memberIDs) (\<lambda>_.
              andthen (dispatchMembers R K now 0 pending) (\<lambda>_.
              return \<lparr>GI_GroupID = groupID, MemberIDs = memberIDs,
                       CallbackID = groupID @ '':cb''\<rparr>))))"

end
