(* ===== verification/Wrr.thy ===== *)
theory Wrr
  imports Prelude "HOL-Library.Char_ord" "HOL-Library.List_Lexorder"
begin

section \<open>Smooth weighted round-robin (wrr.go)\<close>

text \<open>
  The queue picker of the server's fetch loop.  A picker keeps one running counter per queue;
  \<^verbatim>\<open>pick\<close> raises every counter by its weight, selects the first largest one and deducts the
  total weight from it.  The lemmas show that the counters always sum to zero, that a picker
  returns to its initial state after \<^verbatim>\<open>total\<close> picks, in which every queue was selected exactly
  \<^verbatim>\<open>weight\<close> times, and that no counter can leave the range of a 64-bit integer.
\<close>

subsection \<open>Model\<close>

definition maxWeight :: int where
  "maxWeight = 2 ^ 20"

definition normalizeWeight :: "int \<Rightarrow> int" where
  "normalizeWeight w = (if w \<le> 0 then 1 else if w > maxWeight then maxWeight else w)"

record wrrPicker =
  names :: "string list"
  weights :: "int list"
  current :: "int list"
  total :: int

text \<open>
  A Go map from queue names to weights is an association list with distinct keys, in the
  order in which the runtime happens to iterate over it.
\<close>

type_synonym queue_weights = "(string \<times> int) list"

definition weightOf :: "queue_weights \<Rightarrow> string \<Rightarrow> int" where
  "weightOf queues q = (case map_of queues q of None \<Rightarrow> 0 | Some w \<Rightarrow> w)"

definition newWRRPicker :: "queue_weights \<Rightarrow> wrrPicker" where
  "newWRRPicker queues =
     (let ns = sort (map fst queues);
          ws = map (\<lambda>q. normalizeWeight (weightOf queues q)) ns
      in \<lparr>names = ns, weights = ws, current = replicate (length ns) 0, total = sum_list ws\<rparr>)"

text \<open>The loop of \<^verbatim>\<open>pick\<close>: index, best index so far and the counters.\<close>

function pick_loop :: "int list \<Rightarrow> nat \<Rightarrow> nat \<Rightarrow> int list \<Rightarrow> nat \<times> int list" where
  "pick_loop ws i best cur =
     (if i < length ws then
        let cur' = cur[i := cur ! i + ws ! i]
        in pick_loop ws (Suc i) (if cur' ! i > cur' ! best then i else best) cur'
      else (best, cur))"
  by pat_completeness auto
termination
  by (relation "measure (\<lambda>(ws, i, best, cur). length ws - i)") auto

declare pick_loop.simps [simp del]

definition pick_index :: "wrrPicker \<Rightarrow> nat \<times> wrrPicker" where
  "pick_index p =
     (case pick_loop (weights p) 0 0 (current p) of
        (best, cur) \<Rightarrow> (best, p\<lparr>current := cur[best := cur ! best - total p]\<rparr>))"

definition pick :: "wrrPicker \<Rightarrow> string \<times> wrrPicker" where
  "pick p = (if names p = [] then ('''', p)
     else case pick_index p of (best, p') \<Rightarrow> (names p ! best, p'))"

text \<open>A run of \<open>n\<close> picks, with the queues it returns.\<close>

fun picks :: "nat \<Rightarrow> wrrPicker \<Rightarrow> string list \<times> wrrPicker" where
  "picks 0 p = ([], p)"
| "picks (Suc n) p =
     (case pick p of (q, p') \<Rightarrow> case picks n p' of (qs, p'') \<Rightarrow> (q # qs, p''))"

subsection \<open>Weights\<close>

lemma normalizeWeight_range: "1 \<le> normalizeWeight w \<and> normalizeWeight w \<le> maxWeight"
  by (simp add: normalizeWeight_def maxWeight_def)

lemma normalizeWeight_idem [simp]: "normalizeWeight (normalizeWeight w) = normalizeWeight w"
  by (simp add: normalizeWeight_def maxWeight_def)

subsection \<open>One pick\<close>

definition wf_picker :: "wrrPicker \<Rightarrow> bool" where
  "wf_picker p \<longleftrightarrow>
     names p \<noteq> [] \<and> distinct (names p) \<and>
     length (weights p) = length (names p) \<and> length (current p) = length (names p) \<and>
     total p = sum_list (weights p) \<and>
     (\<forall>w \<in> set (weights p). 1 \<le> w \<and> w \<le> maxWeight)"

text \<open>The counters sum to zero and none has fallen to \<open>- total\<close>.\<close>

definition balanced :: "wrrPicker \<Rightarrow> bool" where
  "balanced p \<longleftrightarrow> sum_list (current p) = 0 \<and> (\<forall>c \<in> set (current p). - total p < c)"

lemma pick_loop_spec:
  assumes "length cur = length ws" "i \<le> length ws"
    and "best < i \<or> best = 0" "\<forall>j<i. cur ! j \<le> cur ! best"
    and "\<forall>j<best. cur ! j < cur ! best" "ws \<noteq> []"
    and "pick_loop ws i best cur = (b, cur')"
  shows "length cur' = length ws \<and> b < length ws \<and>
    (\<forall>j<length ws. cur' ! j = (if j < i then cur ! j else cur ! j + ws ! j)) \<and>
    (\<forall>j<length ws. cur' ! j \<le> cur' ! b) \<and> (\<forall>j<b. cur' ! j < cur' ! b)"
  using assms
proof (induction ws i best cur rule: pick_loop.induct)
  case (1 ws i best cur)
  show ?case
  proof (cases "i < length ws")
    case False
    with "1.prems" show ?thesis
      by (subst (asm) pick_loop.simps) auto
  next
    case True
    define c where "c = cur[i := cur ! i + ws ! i]"
    define b' where "b' = (if c ! i > c ! best then i else best)"
    have best: "best < length ws" using "1.prems" True by auto
    have le: "\<forall>j<Suc i. c ! j \<le> c ! b'"
    proof (intro allI impI)
      fix j assume "j < Suc i"
      show "c ! j \<le> c ! b'"
      proof (cases "j < i")
        case True
        then have "c ! j = cur ! j" "c ! j \<le> cur ! best"
          using "1.prems"(4) by (auto simp: c_def)
        moreover have "best \<noteq> i" using True "1.prems"(3) by auto
        ultimately show ?thesis
          by (auto simp: b'_def c_def)
      next
        case False
        with \<open>j < Suc i\<close> show ?thesis by (auto simp: b'_def less_Suc_eq)
      qed
    qed
    have fst: "\<forall>j<b'. c ! j < c ! b'"
    proof (intro allI impI)
      fix j assume j: "j < b'"
      show "c ! j < c ! b'"
      proof (cases "c ! i > c ! best")
        case True
        with j have "j < i" "best \<noteq> i" "c ! j = cur ! j"
          by (auto simp: b'_def c_def)
        with "1.prems"(3,4) True show ?thesis by (force simp: b'_def c_def)
      next
        case False
        with j "1.prems"(3,5) show ?thesis by (auto simp: b'_def c_def)
      qed
    qed
    have rec: "pick_loop ws (Suc i) b' c = (b, cur')"
      using "1.prems"(7) True by (subst (asm) pick_loop.simps) (simp add: c_def b'_def Let_def)
    have IH: "length cur' = length ws \<and> b < length ws \<and>
      (\<forall>j<length ws. cur' ! j = (if j < Suc i then c ! j else c ! j + ws ! j)) \<and>
      (\<forall>j<length ws. cur' ! j \<le> cur' ! b) \<and> (\<forall>j<b. cur' ! j < cur' ! b)"
      by (rule "1.IH" [OF True c_def, unfolded b'_def [symmetric]])
        (use "1.prems" True le fst rec in \<open>auto simp: c_def b'_def\<close>)
    have eq: "(if j < Suc i then c ! j else c ! j + ws ! j) =
        (if j < i then cur ! j else cur ! j + ws ! j)" for j
      using True "1.prems"(1) by (auto simp: c_def nth_list_update less_Suc_eq)
    show ?thesis using IH unfolding eq .
  qed
qed

subsection \<open>The reference algorithm\<close>

text \<open>
  Smooth weighted round-robin as it is usually stated: raise all counters, take the first
  largest one, deduct the total from it.
\<close>

fun first_max :: "int list \<Rightarrow> nat" where
  "first_max [] = 0"
| "first_max [x] = 0"
| "first_max (x # y # ys) = (let k = first_max (y # ys) in if (y # ys) ! k > x then Suc k else 0)"

definition swrr_step :: "int list \<Rightarrow> int \<Rightarrow> int list \<Rightarrow> nat \<times> int list" where
  "swrr_step ws t cur =
     (let c = map2 (+) cur ws; b = first_max c in (b, c[b := c ! b - t]))"

fun swrr_run :: "nat \<Rightarrow> int list \<Rightarrow> int \<Rightarrow> int list \<Rightarrow> int list" where
  "swrr_run 0 ws t cur = cur"
| "swrr_run (Suc n) ws t cur = swrr_run n ws t (snd (swrr_step ws t cur))"

lemma first_max_unique:
  "b < length xs \<Longrightarrow> \<forall>j<length xs. xs ! j \<le> xs ! b \<Longrightarrow> \<forall>j<b. xs ! j < xs ! b \<Longrightarrow> first_max xs = b"
proof (induction xs arbitrary: b rule: first_max.induct)
  case (3 x y ys)
  show ?case
  proof (cases b)
    case 0
    have "first_max (y # ys) < length (y # ys)"
      by (induction "y # ys" arbitrary: y ys rule: first_max.induct) (auto simp: Let_def)
    then have "(x # y # ys) ! Suc (first_max (y # ys)) \<le> x"
      using "3.prems"(2) 0 by (metis Suc_less_eq length_Cons nth_Cons_0)
    then show ?thesis using 0 by (simp add: Let_def)
  next
    case (Suc b')
    have "first_max (y # ys) = b'"
      by (rule "3.IH") (use "3.prems" Suc in \<open>force\<close>)+
    moreover have "x < (y # ys) ! b'" using "3.prems"(3) Suc by auto
    ultimately show ?thesis using Suc by (simp add: Let_def)
  qed
qed auto

lemma pick_index_swrr:
  assumes "wf_picker p"
  shows "pick_index p = (case swrr_step (weights p) (total p) (current p) of
    (b, cur) \<Rightarrow> (b, p\<lparr>current := cur\<rparr>))"
proof -
  obtain b cur where L: "pick_loop (weights p) 0 0 (current p) = (b, cur)"
    by (cases "pick_loop (weights p) 0 0 (current p)")
  have wf: "length (current p) = length (weights p)" "weights p \<noteq> []"
    using assms by (auto simp: wf_picker_def)
  have S: "length cur = length (weights p)" "b < length (weights p)"
    "\<forall>j<length (weights p). cur ! j = current p ! j + weights p ! j"
    "\<forall>j<length (weights p). cur ! j \<le> cur ! b" "\<forall>j<b. cur ! j < cur ! b"
    using pick_loop_spec [OF wf(1) _ _ _ _ wf(2) L] by auto
  have "map2 (+) (current p) (weights p) = cur"
    using S(1,3) wf by (auto intro!: nth_equalityI)
  moreover have "first_max cur = b"
    using S by (intro first_max_unique) auto
  ultimately show ?thesis by (simp add: pick_index_def L swrr_step_def Let_def)
qed

lemma pick_swrr:
  "wf_picker p \<Longrightarrow> pick p = (case swrr_step (weights p) (total p) (current p) of
    (b, cur) \<Rightarrow> (names p ! b, p\<lparr>current := cur\<rparr>))"
  by (simp add: pick_def wf_picker_def pick_index_swrr split: prod.splits)

text \<open>
  C31: \<^verbatim>\<open>pick\<close>, which raises the counters and tracks the best index in a single pass that updates
  the slice in place, computes exactly one step of the reference algorithm: the queue at the
  first largest raised counter, with the total deducted from that counter only.
\<close>

theorem pick_reference:
  assumes "wf_picker p"
  shows "pick p = (case swrr_step (weights p) (total p) (current p) of
    (b, cur) \<Rightarrow> (names p ! b, p\<lparr>current := cur\<rparr>))"
  by (rule pick_swrr [OF assms])

theorem pick_reference_witness:
  "pick \<lparr>names = [''a'', ''b''], weights = [1, 3], current = [0, 0], total = 4\<rparr> =
   (''b'', \<lparr>names = [''a'', ''b''], weights = [1, 3], current = [1, -1], total = 4\<rparr>)"
  by (subst pick_reference) (simp_all add: wf_picker_def maxWeight_def swrr_step_def Let_def)

subsection \<open>Effect and invariant of one pick\<close>

lemma pick_index_spec:
  assumes "wf_picker p" and "pick_index p = (b, p')"
  shows "b < length (names p)"
    and "names p' = names p" "weights p' = weights p" "total p' = total p"
    and "length (current p') = length (names p)"
    and "\<And>j. j < length (names p) \<Longrightarrow>
      current p' ! j = current p ! j + weights p ! j - (if j = b then total p else 0)"
    and "\<And>j. j < length (names p) \<Longrightarrow>
      current p ! j + weights p ! j \<le> current p ! b + weights p ! b"
proof -
  obtain cur where L: "pick_loop (weights p) 0 0 (current p) = (b, cur)"
    and p': "p' = p\<lparr>current := cur[b := cur ! b - total p]\<rparr>"
    using assms(2) by (auto simp: pick_index_def split: prod.splits)
  have wf: "length (current p) = length (weights p)" "weights p \<noteq> []"
    "length (weights p) = length (names p)"
    using assms(1) by (auto simp: wf_picker_def)
  have S: "length cur = length (weights p)" "b < length (weights p)"
    "\<forall>j<length (weights p). cur ! j = current p ! j + weights p ! j"
    "\<forall>j<length (weights p). cur ! j \<le> cur ! b"
    using pick_loop_spec [OF wf(1) _ _ _ _ wf(2) L] by auto
  show "b < length (names p)" "names p' = names p" "weights p' = weights p" "total p' = total p"
    "length (current p') = length (names p)"
    using S p' wf by auto
  fix j assume j: "j < length (names p)"
  with S wf show "current p' ! j = current p ! j + weights p ! j - (if j = b then total p else 0)"
    by (auto simp: p' nth_list_update)
  from j S wf have "cur ! j \<le> cur ! b" by simp
  with j S wf show "current p ! j + weights p ! j \<le> current p ! b + weights p ! b" by simp
qed

lemma wf_total_pos: "wf_picker p \<Longrightarrow> 0 < total p"
  by (cases "weights p") (auto simp: wf_picker_def intro!: add_pos_nonneg sum_list_nonneg)

lemma sum_list_nth: "sum_list xs = (\<Sum>j<length xs. xs ! j)" for xs :: "int list"
  by (simp add: sum_list_sum_nth atLeast0LessThan)

lemma pick_index_wf: "wf_picker p \<Longrightarrow> pick_index p = (b, p') \<Longrightarrow> wf_picker p'"
  using pick_index_spec(2-5) [of p b p'] by (simp add: wf_picker_def)

lemma pick_index_sum:
  assumes "wf_picker p" "pick_index p = (b, p')"
  shows "sum_list (current p') = sum_list (current p)"
proof -
  let ?n = "length (names p)"
  note S = pick_index_spec [OF assms]
  have wf: "length (current p) = ?n" "length (weights p) = ?n" "total p = sum_list (weights p)"
    using assms(1) by (auto simp: wf_picker_def)
  have "sum_list (current p') = (\<Sum>j<?n. current p' ! j)"
    by (simp add: sum_list_nth S(5))
  also have "\<dots> = (\<Sum>j<?n. current p ! j + weights p ! j - (if j = b then total p else 0))"
    by (rule sum.cong) (auto simp: S(6))
  also have "\<dots> = (\<Sum>j<?n. current p ! j) + (\<Sum>j<?n. weights p ! j) - total p"
    by (simp add: sum.distrib sum_subtractf S(1))
  finally show ?thesis using wf by (simp add: sum_list_nth)
qed

text \<open>The selected counter was positive, so the deduction keeps it above \<open>- total\<close>.\<close>

lemma pick_index_winner_pos:
  assumes "wf_picker p" "balanced p" "pick_index p = (b, p')"
  shows "0 < current p ! b + weights p ! b"
proof (rule ccontr)
  let ?n = "length (names p)"
  note S = pick_index_spec [OF assms(1,3)]
  have wf: "length (current p) = ?n" "length (weights p) = ?n" "total p = sum_list (weights p)"
    using assms(1) by (auto simp: wf_picker_def)
  assume "\<not> ?thesis"
  then have "current p ! j + weights p ! j \<le> 0" if "j < ?n" for j
    using S(7) [OF that] by linarith
  then have "(\<Sum>j<?n. current p ! j + weights p ! j) \<le> 0"
    by (intro sum_nonpos) auto
  also have "(\<Sum>j<?n. current p ! j + weights p ! j) = sum_list (current p) + total p"
    using wf by (simp add: sum.distrib sum_list_nth)
  finally show False
    using wf_total_pos [OF assms(1)] assms(2) by (simp add: balanced_def)
qed

lemma pick_index_balanced:
  assumes "wf_picker p" "balanced p" "pick_index p = (b, p')"
  shows "balanced p'"
proof -
  note S = pick_index_spec [OF assms(1,3)]
  have "- total p < current p' ! j" if j: "j < length (names p)" for j
  proof (cases "j = b")
    case True
    then show ?thesis using S(6) [OF j] pick_index_winner_pos [OF assms] by simp
  next
    case False
    have "1 \<le> weights p ! j" "- total p < current p ! j"
      using assms(1,2) j by (auto simp: wf_picker_def balanced_def)
    then show ?thesis using S(6) [OF j] False by simp
  qed
  then show ?thesis
    using pick_index_sum [OF assms(1,3)] assms(2) S(4,5)
    by (auto simp: balanced_def in_set_conv_nth)
qed

subsection \<open>Runs\<close>

lemma pick_pick_index:
  "wf_picker p \<Longrightarrow> pick p = (case pick_index p of (b, p') \<Rightarrow> (names p ! b, p'))"
  by (simp add: pick_def wf_picker_def)

lemma picks_invariant:
  assumes "wf_picker p" "balanced p" "picks n p = (qs, p')"
  shows "wf_picker p' \<and> balanced p' \<and> names p' = names p \<and> weights p' = weights p \<and>
    total p' = total p \<and> length qs = n \<and> set qs \<subseteq> set (names p)"
  using assms
proof (induction n arbitrary: p qs)
  case 0
  then show ?case by simp
next
  case (Suc n)
  obtain b p1 where b: "pick_index p = (b, p1)" by (cases "pick_index p")
  obtain qs1 where r: "picks n p1 = (qs1, p')" and qs: "qs = names p ! b # qs1"
    using Suc.prems(3) by (auto simp: pick_pick_index [OF Suc.prems(1)] b split: prod.splits)
  note S = pick_index_spec [OF Suc.prems(1) b]
  show ?case
    using Suc.IH [OF pick_index_wf [OF Suc.prems(1) b] pick_index_balanced [OF Suc.prems(1,2) b] r]
      S(1-4) by (auto simp: qs)
qed

text \<open>Each counter records how far its queue is behind its share.\<close>

lemma picks_counts:
  assumes "wf_picker p" "picks n p = (qs, p')" "j < length (names p)"
  shows "current p' ! j =
    current p ! j + int n * weights p ! j - total p * int (count_list qs (names p ! j))"
  using assms
proof (induction n arbitrary: p qs)
  case 0
  then show ?case by simp
next
  case (Suc n)
  obtain b p1 where b: "pick_index p = (b, p1)" by (cases "pick_index p")
  obtain qs1 where r: "picks n p1 = (qs1, p')" and qs: "qs = names p ! b # qs1"
    using Suc.prems(2) by (auto simp: pick_pick_index [OF Suc.prems(1)] b split: prod.splits)
  note S = pick_index_spec [OF Suc.prems(1) b]
  have "distinct (names p)" using Suc.prems(1) by (simp add: wf_picker_def)
  then have "names p ! b = names p ! j \<longleftrightarrow> j = b"
    using S(1) Suc.prems(3) by (auto simp: nth_eq_iff_index_eq)
  moreover have "current p' ! j =
    current p1 ! j + int n * weights p1 ! j - total p1 * int (count_list qs1 (names p1 ! j))"
    using Suc.IH [OF pick_index_wf [OF Suc.prems(1) b] r] Suc.prems(3) S(2) by simp
  ultimately show ?case
    using S(2-4) S(6) [OF Suc.prems(3)] by (auto simp: qs algebra_simps)
qed

lemma multiple_above_minus: "- t < t * k \<Longrightarrow> 0 < t \<Longrightarrow> 0 \<le> k" for t k :: int
  by (rule ccontr) (use mult_left_mono [of k "-1" t] in auto)

text \<open>
  From all counters at zero, \<^verbatim>\<open>total\<close> picks bring every counter back to zero: each is a
  multiple of the total, above \<open>- total\<close>, and they sum to zero.
\<close>

lemma cycle_returns:
  assumes wf: "wf_picker p" and zero: "current p = replicate (length (names p)) 0"
    and run: "picks (nat (total p)) p = (qs, p')"
  shows "p' = p"
    and "\<And>j. j < length (names p) \<Longrightarrow> int (count_list qs (names p ! j)) = weights p ! j"
proof -
  let ?n = "length (names p)"
  have pos: "0 < total p" by (rule wf_total_pos [OF wf])
  have bal: "balanced p" by (simp add: balanced_def zero pos sum_list_replicate)
  note I = picks_invariant [OF wf bal run]
  have cur: "current p' ! j = total p * (weights p ! j - int (count_list qs (names p ! j)))"
    if "j < ?n" for j
    using picks_counts [OF wf run that] that pos by (simp add: zero algebra_simps)
  have len: "length (current p') = ?n" using I by (simp add: wf_picker_def)
  have nonneg: "0 \<le> weights p ! j - int (count_list qs (names p ! j))" if j: "j < ?n" for j
  proof -
    have "- total p < current p' ! j" using I len j by (auto simp: balanced_def)
    then show ?thesis using cur [OF j] pos by (intro multiple_above_minus) simp_all
  qed
  have "(\<Sum>j<?n. current p' ! j) = 0" using I len by (simp add: balanced_def sum_list_nth)
  then have z: "current p' ! j = 0" if "j < ?n" for j
    using that nonneg cur pos sum_nonneg_eq_0_iff [of "{..<?n}" "\<lambda>j. current p' ! j"] by auto
  then show "int (count_list qs (names p ! j)) = weights p ! j" if "j < ?n" for j
    using cur [OF that] that pos by auto
  have "current p' = current p"
    using z len by (auto simp: zero intro!: nth_equalityI)
  then show "p' = p" using I by (cases p; cases p') simp
qed

subsection \<open>The picker of a queue map\<close>

lemma newWRRPicker_wf:
  assumes "distinct (map fst queues)" "queues \<noteq> []"
  shows "wf_picker (newWRRPicker queues)"
proof -
  have "sort (map fst queues) \<noteq> []"
    using assms(2) by (metis length_0_conv length_map length_sort)
  then show ?thesis
    using assms normalizeWeight_range
    by (auto simp: wf_picker_def newWRRPicker_def Let_def)
qed

lemma newWRRPicker_sel:
  "names (newWRRPicker queues) = sort (map fst queues)"
  "weights (newWRRPicker queues) =
     map (\<lambda>q. normalizeWeight (weightOf queues q)) (sort (map fst queues))"
  "current (newWRRPicker queues) = replicate (length (names (newWRRPicker queues))) 0"
  "total (newWRRPicker queues) = sum_list (weights (newWRRPicker queues))"
  by (simp_all add: newWRRPicker_def Let_def)

lemma newWRRPicker_balanced:
  assumes "distinct (map fst queues)" "queues \<noteq> []"
  shows "balanced (newWRRPicker queues)"
  using wf_total_pos [OF newWRRPicker_wf [OF assms]]
  by (auto simp: balanced_def newWRRPicker_sel(3) sum_list_replicate)

lemma two_queues:
  "newWRRPicker [(''hi'', 2), (''lo'', 1)] =
   \<lparr>names = [''hi'', ''lo''], weights = [2, 1], current = [0, 0], total = 3\<rparr>"
  by (simp add: newWRRPicker_def weightOf_def normalizeWeight_def maxWeight_def)

text \<open>
  C30: over one cycle of \<^verbatim>\<open>total\<close> picks of a fresh picker every configured queue is selected
  exactly as often as its normalised weight says, no other name is ever returned, and the
  picker is back in its initial state, so the sequence repeats with that period and no queue
  starves.
\<close>

theorem wrr_cycle:
  assumes "distinct (map fst queues)" "queues \<noteq> []"
    and "picks (nat (total (newWRRPicker queues))) (newWRRPicker queues) = (qs, p)"
  shows "(\<forall>q \<in> fst ` set queues. int (count_list qs q) = normalizeWeight (weightOf queues q)) \<and>
    set qs \<subseteq> fst ` set queues \<and> p = newWRRPicker queues"
proof -
  let ?p = "newWRRPicker queues"
  have wf: "wf_picker ?p" by (rule newWRRPicker_wf [OF assms(1,2)])
  note C = cycle_returns [OF wf newWRRPicker_sel(3) assms(3)]
  have "int (count_list qs q) = normalizeWeight (weightOf queues q)" if q: "q \<in> set (names ?p)" for q
  proof -
    obtain j where "j < length (names ?p)" "names ?p ! j = q"
      using q unfolding in_set_conv_nth by blast
    then show ?thesis
      using C(2) [of j] by (auto simp: newWRRPicker_sel(1,2))
  qed
  moreover have "set qs \<subseteq> set (names ?p)"
    using picks_invariant [OF wf newWRRPicker_balanced [OF assms(1,2)] assms(3)] by simp
  ultimately show ?thesis using C(1) by (simp add: newWRRPicker_sel(1))
qed

theorem wrr_cycle_witness:
  "int (count_list [''hi'', ''lo'', ''hi''] ''hi'') =
     normalizeWeight (weightOf [(''hi'', 2), (''lo'', 1)] ''hi'') \<and>
   snd (picks 3 (newWRRPicker [(''hi'', 2), (''lo'', 1)])) =
     newWRRPicker [(''hi'', 2), (''lo'', 1)]"
proof -
  let ?qs = "[(''hi'', 2), (''lo'', 1)]"
  have run: "picks (nat (total (newWRRPicker ?qs))) (newWRRPicker ?qs) =
    ([''hi'', ''lo'', ''hi''], newWRRPicker ?qs)"
    by (simp add: two_queues pick_swrr wf_picker_def maxWeight_def swrr_step_def Let_def
        eval_nat_numeral)
  have t: "nat (total (newWRRPicker ?qs)) = 3" by (simp add: two_queues)
  have "\<forall>q \<in> fst ` set ?qs.
      int (count_list [''hi'', ''lo'', ''hi''] q) = normalizeWeight (weightOf ?qs q)"
    using wrr_cycle [OF _ _ run] by simp
  with run show ?thesis unfolding t by simp
qed

text \<open>A counter is the negated sum of the others, each above \<open>- total\<close>.\<close>

lemma balanced_upper:
  assumes "wf_picker p" "balanced p" "j < length (names p)"
  shows "current p ! j \<le> int (length (names p)) * total p"
proof -
  let ?n = "length (names p)"
  have len: "length (current p) = ?n" using assms(1) by (simp add: wf_picker_def)
  have low: "- total p \<le> current p ! i" if "i < ?n" for i
    using assms(2) that len by (auto simp: balanced_def less_imp_le)
  have "(\<Sum>i\<in>{..<?n} - {j}. - total p) \<le> (\<Sum>i\<in>{..<?n} - {j}. current p ! i)"
    by (rule sum_mono) (use low in auto)
  moreover have "(\<Sum>i<?n. current p ! i) = current p ! j + (\<Sum>i\<in>{..<?n} - {j}. current p ! i)"
    by (rule sum.remove) (use assms(3) in auto)
  moreover have "(\<Sum>i<?n. current p ! i) = 0"
    using assms(2) len by (simp add: balanced_def sum_list_nth)
  ultimately have "current p ! j \<le> int (?n - 1) * total p"
    using assms(3) by simp
  also have "\<dots> \<le> int ?n * total p"
    using wf_total_pos [OF assms(1)] by (intro mult_right_mono) auto
  finally show ?thesis .
qed

lemma sum_list_le_bound: "\<forall>x \<in> set xs. x \<le> b \<Longrightarrow> sum_list xs \<le> int (length xs) * b" for b :: int
  by (induction xs) (auto simp: algebra_simps)

lemma wf_total_upper: "wf_picker p \<Longrightarrow> total p \<le> int (length (names p)) * maxWeight"
  using sum_list_le_bound [of "weights p" maxWeight] by (auto simp: wf_picker_def)

lemma wf_balanced_int64:
  assumes "wf_picker p" "balanced p" "length (names p) \<le> 2 ^ 20" "j < length (names p)"
  shows "int64 (total p) = total p" "int64 (current p ! j) = current p ! j"
    "int64 (current p ! j + weights p ! j) = current p ! j + weights p ! j"
proof -
  let ?n = "int (length (names p))"
  have n: "?n \<le> 2 ^ 20" using assms(3) by (metis of_nat_le_iff of_nat_numeral of_nat_power)
  have t: "0 < total p" "total p \<le> 2 ^ 40"
    using wf_total_pos [OF assms(1)] wf_total_upper [OF assms(1)] n
    by (auto simp: maxWeight_def)
  have "?n * total p \<le> 2 ^ 20 * 2 ^ 40"
    using n t by (intro mult_mono) auto
  then have up: "current p ! j \<le> 2 ^ 60"
    using balanced_upper [OF assms(1,2,4)] by simp
  have low: "- total p < current p ! j" and w: "1 \<le> weights p ! j" "weights p ! j \<le> 2 ^ 20"
    using assms by (auto simp: wf_picker_def balanced_def maxWeight_def)
  show "int64 (total p) = total p" "int64 (current p ! j) = current p ! j"
    "int64 (current p ! j + weights p ! j) = current p ! j + weights p ! j"
    by (rule int64_id; use t up low w in simp)+
qed

text \<open>
  C32: the arithmetic of the picker never overflows.  With at most \<open>2 ^ 20\<close> queues, whatever
  weights are configured and however long the picker runs, the total, every counter and every
  counter raised by its weight keep their value in a signed 64-bit integer.
\<close>

theorem wrr_no_overflow:
  assumes "distinct (map fst queues)" "queues \<noteq> []" "length queues \<le> 2 ^ 20"
    and "picks n (newWRRPicker queues) = (qs, p)" "j < length queues"
  shows "int64 (total p) = total p \<and> int64 (current p ! j) = current p ! j \<and>
    int64 (current p ! j + weights p ! j) = current p ! j + weights p ! j"
proof -
  note I = picks_invariant
    [OF newWRRPicker_wf [OF assms(1,2)] newWRRPicker_balanced [OF assms(1,2)] assms(4)]
  have "length (names p) = length queues"
    using I by (simp add: newWRRPicker_sel(1))
  then show ?thesis
    using wf_balanced_int64 [of p j] I assms(3,5) by simp
qed

theorem wrr_no_overflow_witness:
  "let p = snd (picks 2 (newWRRPicker [(''hi'', 9000000000000000000), (''lo'', -3)]))
   in int64 (total p) = total p \<and> int64 (current p ! 1) = current p ! 1 \<and>
     int64 (current p ! 1 + weights p ! 1) = current p ! 1 + weights p ! 1"
  using wrr_no_overflow [OF _ _ _ prod.collapse [symmetric],
    of "[(''hi'', 9000000000000000000), (''lo'', -3)]" 1 2]
  by (simp add: Let_def)

lemma current_picks:
  "wf_picker p \<Longrightarrow> current (snd (picks n p)) = swrr_run n (weights p) (total p) (current p)"
proof (induction n arbitrary: p)
  case (Suc n)
  obtain b cur where st: "swrr_step (weights p) (total p) (current p) = (b, cur)"
    by (cases "swrr_step (weights p) (total p) (current p)")
  then have "pick_index p = (b, p\<lparr>current := cur\<rparr>)"
    by (simp add: pick_index_swrr [OF Suc.prems])
  then show ?case
    using Suc.IH [OF pick_index_wf [OF Suc.prems]]
    by (simp add: pick_pick_index [OF Suc.prems] st split: prod.splits) (metis snd_conv)
qed simp

lemma six_queues:
  "newWRRPicker [(''a'', 39), (''b'', 24), (''c'', 9), (''d'', 1), (''e'', 9), (''f'', 1)] =
   \<lparr>names = [''a'', ''b'', ''c'', ''d'', ''e'', ''f''], weights = [39, 24, 9, 1, 9, 1],
    current = [0, 0, 0, 0, 0, 0], total = 83\<rparr>"
  by (simp add: newWRRPicker_def weightOf_def normalizeWeight_def maxWeight_def)

text \<open>
  The comment of \<^verbatim>\<open>wrrPicker\<close> says that the running counters stay bounded by \<^verbatim>\<open>total\<close> in
  magnitude.  They do not: with six queues of weights 39, 24, 9, 1, 9 and 1 (total 83) the
  counter of the second queue is 84 after 45 picks.
\<close>

theorem wrr_counter_exceeds_total:
  "let p = newWRRPicker [(''a'', 39), (''b'', 24), (''c'', 9), (''d'', 1), (''e'', 9), (''f'', 1)]
   in total p = 83 \<and> current (snd (picks 45 p)) ! 1 = 84"
proof -
  let ?p = "newWRRPicker [(''a'', 39), (''b'', 24), (''c'', 9), (''d'', 1), (''e'', 9), (''f'', 1)]"
  have "wf_picker ?p" by (rule newWRRPicker_wf) auto
  then have "current (snd (picks 45 ?p)) = swrr_run 45 [39, 24, 9, 1, 9, 1] 83 [0, 0, 0, 0, 0, 0]"
    by (simp only: current_picks) (simp only: six_queues wrrPicker.simps)
  also have "\<dots> ! 1 = 84"
    by (simp add: swrr_step_def Let_def eval_nat_numeral)
  finally show ?thesis by (simp only: Let_def) (simp only: six_queues wrrPicker.simps simp_thms)
qed

end
