(* ===== verification/Server.thy ===== *)
theory Server
  imports Handler Workflow Wrr
begin

section \<open>Server (server.go, metrics.go)\<close>

text \<open>
  The worker side: configuration, the fetch loop, the processing of one task and the maintenance
  loops.  Each loop is a function that performs one iteration; the goroutines of the server and all
  other processes act between the round trips of an iteration, as the environment of the world in
  which it runs.  What an iteration cannot determine by itself is an argument: the clock, whether
  the context is cancelled when the code looks at it and whether a worker slot becomes free before
  the cancellation.  The hooks of the user (\<^verbatim>\<open>OnDeadLetter\<close>, \<^verbatim>\<open>Metrics\<close>) are calls that an iteration
  reports; log messages are left out.
\<close>

subsection \<open>Configuration\<close>

datatype TaskOutcome = OutcomeSuccess | OutcomeRetry | OutcomeDeadLetter

text \<open>Whether metrics are configured, and whether they also implement \<^verbatim>\<open>RecoveryMetrics\<close>.\<close>

datatype Metrics = NoMetrics | TaskMetrics | TaskAndRecoveryMetrics

record ServerConfig =
  c_Queues :: queue_weights
  StrictPriority :: bool
  Concurrency :: int
  RetryDelayFunc :: "(int \<Rightarrow> gerr \<Rightarrow> duration) option"
  hasOnDeadLetter :: bool
  c_Metrics :: Metrics
  ForwardInterval :: duration
  RecoverInterval :: duration
  RecoverMinIdle :: duration
  HeartbeatInterval :: duration
  ArchivedRetention :: duration
  MaxArchived :: int
  MaxCompleted :: int
  JanitorInterval :: duration

definition pollBlock :: duration where "pollBlock = 1 * Second"
definition pauseCheckInterval :: duration where "pauseCheckInterval = Second"
definition maxFetchBatch :: int where "maxFetchBatch = 128"
definition forwardBatchSize :: int where "forwardBatchSize = 100"
definition recoverBatchSize :: int where "recoverBatchSize = 100"
definition janitorBatchSize :: int where "janitorBatchSize = 100"

text \<open>The defaults that \<^verbatim>\<open>newServer\<close> applies; \<open>defaultDelay\<close> is \<^verbatim>\<open>DefaultRetryDelay\<close>.\<close>

definition heartbeatOf :: "duration \<Rightarrow> duration \<Rightarrow> duration" where
  "heartbeatOf interval minIdle =
     (let h = (if interval \<le> 0 \<or> minIdle \<le> interval then quot minIdle 3 else interval)
      in if h < Millisecond then Millisecond else h)"

definition newServer :: "(int \<Rightarrow> gerr \<Rightarrow> duration) \<Rightarrow> ServerConfig \<Rightarrow> ServerConfig" where
  "newServer defaultDelay cfg =
     (let minIdle = (if RecoverMinIdle cfg \<le> 0 then 30 * Second else RecoverMinIdle cfg)
      in cfg\<lparr>Concurrency := (if Concurrency cfg \<le> 0 then 1 else Concurrency cfg),
             RetryDelayFunc := (case RetryDelayFunc cfg of None \<Rightarrow> Some defaultDelay | Some f \<Rightarrow> Some f),
             ForwardInterval := (if ForwardInterval cfg \<le> 0 then 1 * Second else ForwardInterval cfg),
             RecoverInterval := (if RecoverInterval cfg \<le> 0 then 15 * Second else RecoverInterval cfg),
             RecoverMinIdle := minIdle,
             HeartbeatInterval := heartbeatOf (HeartbeatInterval cfg) minIdle,
             ArchivedRetention :=
               (if ArchivedRetention cfg \<le> 0 then 7 * 24 * Hour else ArchivedRetention cfg),
             MaxArchived := (if MaxArchived cfg = 0 then 10000 else MaxArchived cfg),
             MaxCompleted := (if MaxCompleted cfg = 0 then 10000 else MaxCompleted cfg),
             JanitorInterval := (if JanitorInterval cfg \<le> 0 then 1 * Minute else JanitorInterval cfg)\<rparr>)"

definition queueNames :: "ServerConfig \<Rightarrow> string list" where
  "queueNames cfg = map fst (c_Queues cfg)"

text \<open>Sorting by descending weight, ties by name: the names are sorted first and the sort by weight is stable.\<close>

definition queuesByWeight :: "ServerConfig \<Rightarrow> string list" where
  "queuesByWeight cfg =
     sort_key (\<lambda>q. - normalizeWeight (weightOf (c_Queues cfg) q)) (sort (queueNames cfg))"

fun ensureGroups :: "redis \<Rightarrow> Keys \<Rightarrow> string list \<Rightarrow> unit go" where
  "ensureGroups R K [] w = (Inr (), w)"
| "ensureGroups R K (q # qs) w = andthen (EnsureGroup R K q) (\<lambda>_. ensureGroups R K qs) w"

definition serverStart :: "redis \<Rightarrow> Keys \<Rightarrow> ServerConfig \<Rightarrow> unit go" where
  "serverStart R K cfg =
     (if c_Queues cfg = [] then fail ErrNoQueues else ensureGroups R K (queueNames cfg))"

subsection \<open>Fetch loop\<close>

record fetchState =
  picker :: wrrPicker
  paused :: "string set"
  pausedChecked :: "time option"
  used :: int

definition initFetch :: "ServerConfig \<Rightarrow> fetchState" where
  "initFetch cfg =
     \<lparr>picker = newWRRPicker (c_Queues cfg), paused = {}, pausedChecked = None, used = 0\<rparr>"

definition roundOrder :: "ServerConfig \<Rightarrow> wrrPicker \<Rightarrow> string list \<times> wrrPicker" where
  "roundOrder cfg p =
     (let byWeight = queuesByWeight cfg
      in if StrictPriority cfg then (byWeight, p)
         else (case pick p of (primary, p') \<Rightarrow> (primary # filter (\<lambda>q. q \<noteq> primary) byWeight, p')))"

definition refreshPaused :: "redis \<Rightarrow> Keys \<Rightarrow> time \<Rightarrow> fetchState \<Rightarrow> world \<Rightarrow> fetchState \<times> world" where
  "refreshPaused R K now fs w =
     (if (case pausedChecked fs of None \<Rightarrow> False | Some t \<Rightarrow> now - t < pauseCheckInterval) then (fs, w)
      else (case PausedQueues R K w of
              (Inl e, w') \<Rightarrow> (fs\<lparr>pausedChecked := Some now\<rparr>, w')
            | (Inr qs, w') \<Rightarrow> (fs\<lparr>pausedChecked := Some now, paused := set qs\<rparr>, w')))"

definition batchSize :: "int \<Rightarrow> int \<Rightarrow> int" where
  "batchSize cap len =
     (let batch = 1 + (cap - len);
          batch = (if batch < 1 then 1 else batch)
      in if maxFetchBatch < batch then maxFetchBatch else batch)"

text \<open>
  The non-blocking sweep: \<open>None\<close> when the loop has to stop because the context is cancelled,
  otherwise the batch of the first queue that has one.
\<close>

fun sweep ::
  "redis \<Rightarrow> Keys \<Rightarrow> string \<Rightarrow> int \<Rightarrow> bool \<Rightarrow> string list \<Rightarrow> world \<Rightarrow> Dequeued list option \<times> world" where
  "sweep R K consumer batch cancelled [] w = (Some [], w)"
| "sweep R K consumer batch cancelled (q # qs) w =
     (case DequeueBatch R K consumer (- 1) q batch w of
        (Inr ts, w') \<Rightarrow> (Some ts, w')
      | (Inl e, w') \<Rightarrow>
          if e \<noteq> ErrNoTask \<and> cancelled then (None, w')
          else sweep R K consumer batch cancelled qs w')"

definition blockOn ::
  "redis \<Rightarrow> Keys \<Rightarrow> string \<Rightarrow> int \<Rightarrow> bool \<Rightarrow> string \<Rightarrow> world \<Rightarrow> Dequeued list option \<times> world" where
  "blockOn R K consumer batch cancelled q w =
     (case DequeueBatch R K consumer pollBlock q batch w of
        (Inr ts, w') \<Rightarrow> (Some ts, w')
      | (Inl e, w') \<Rightarrow> if e \<noteq> ErrNoTask \<and> cancelled then (None, w') else (Some [], w'))"

text \<open>
  Claimed tasks get their worker slots one after the other; \<open>acquire i\<close> says whether the \<open>i\<close>-th
  gets one before the cancellation.  The rest is returned to the stream.
\<close>

fun requeueRest :: "redis \<Rightarrow> Keys \<Rightarrow> Dequeued list \<Rightarrow> world \<Rightarrow> world" where
  "requeueRest R K [] w = w"
| "requeueRest R K (d # ds) w =
     requeueRest R K ds (snd (Requeue R K (Queue (Msg d)) (StreamID d) (Msg d) w))"

fun launch :: "(nat \<Rightarrow> bool) \<Rightarrow> nat \<Rightarrow> Dequeued list \<Rightarrow> Dequeued list \<times> Dequeued list" where
  "launch acquire i [] = ([], [])"
| "launch acquire i (d # ds) =
     (if 0 < i \<and> \<not> acquire i then ([], d # ds)
      else (case launch acquire (Suc i) ds of (go, rest) \<Rightarrow> (d # go, rest)))"

record roundInput =
  roundTime :: time
  stopBefore :: bool
  sweepCancelled :: bool
  blockCancelled :: bool
  slotFree :: "nat \<Rightarrow> bool"

datatype control = Continue | Stop

text \<open>
  One iteration of \<^verbatim>\<open>fetchLoop\<close>: it reports whether the loop goes on, the tasks that it hands to
  workers and its state.  The slot that the iteration takes first is released again unless a task
  uses it.
\<close>

definition handOut ::
  "redis \<Rightarrow> Keys \<Rightarrow> roundInput \<Rightarrow> fetchState \<Rightarrow> Dequeued list \<Rightarrow> world \<Rightarrow>
   (control \<times> Dequeued list \<times> fetchState) \<times> world" where
  "handOut R K inp fs tasks w =
     (case launch (slotFree inp) 0 tasks of (go, rest) \<Rightarrow>
        ((if rest = [] then Continue else Stop, go,
          fs\<lparr>used := used fs + int (length go)\<rparr>), requeueRest R K rest w))"

definition fetchRound ::
  "redis \<Rightarrow> Keys \<Rightarrow> ServerConfig \<Rightarrow> string \<Rightarrow> roundInput \<Rightarrow> fetchState \<Rightarrow> world \<Rightarrow>
   (control \<times> Dequeued list \<times> fetchState) \<times> world" where
  "fetchRound R K cfg consumer inp fs0 w0 =
     (if stopBefore inp then ((Stop, [], fs0), w0)
      else case roundOrder cfg (picker fs0) of (order0, p) \<Rightarrow>
        (case refreshPaused R K (roundTime inp) (fs0\<lparr>picker := p\<rparr>) w0 of (fs, w1) \<Rightarrow>
           (let order = filter (\<lambda>q. q \<notin> paused fs) order0;
                batch = batchSize (Concurrency cfg) (used fs + 1)
            in if paused fs \<noteq> {} \<and> order = [] then ((Continue, [], fs), w1)
               else (case sweep R K consumer batch (sweepCancelled inp) order w1 of
                       (None, w2) \<Rightarrow> ((Stop, [], fs), w2)
                     | (Some (t # ts), w2) \<Rightarrow> handOut R K inp fs (t # ts) w2
                     | (Some [], w2) \<Rightarrow>
                         if order = [] \<or> hd order = [] then ((Stop, [], fs), w2)
                         else (case blockOn R K consumer batch (blockCancelled inp) (hd order) w2 of
                                 (None, w3) \<Rightarrow> ((Stop, [], fs), w3)
                               | (Some [], w3) \<Rightarrow> ((Continue, [], fs), w3)
                               | (Some (t # ts), w3) \<Rightarrow> handOut R K inp fs (t # ts) w3)))))"

text \<open>
  The loop: its iterations until one stops it, with the tasks that they hand to workers.  Workers
  give their slots back between the iterations, so each one finds its own number of slots in use.
\<close>

fun fetchLoop ::
  "redis \<Rightarrow> Keys \<Rightarrow> ServerConfig \<Rightarrow> string \<Rightarrow> (roundInput \<times> int) list \<Rightarrow> fetchState \<Rightarrow> world \<Rightarrow>
   Dequeued list \<times> world" where
  "fetchLoop R K cfg consumer [] fs w = ([], w)"
| "fetchLoop R K cfg consumer ((inp, n) # inps) fs w =
     (case fetchRound R K cfg consumer inp (fs\<lparr>used := n\<rparr>) w of ((c, ts, fs'), w1) \<Rightarrow>
        if c = Stop then (ts, w1)
        else (case fetchLoop R K cfg consumer inps fs' w1 of (ts', w2) \<Rightarrow> (ts @ ts', w2)))"

subsection \<open>Workflow progress\<close>

text \<open>
  Up to three attempts with a pause in between, during which the deadline of the context may pass.
  The attempts differ in the time at which they run.
\<close>

fun withRetry :: "nat \<Rightarrow> (nat \<Rightarrow> bool) \<Rightarrow> (nat \<Rightarrow> 'a go) \<Rightarrow> nat \<Rightarrow> unit go" where
  "withRetry 0 expired f i w = (Inr (), w)"
| "withRetry (Suc n) expired f i w =
     (case f i w of
        (Inr _, w') \<Rightarrow> (Inr (), w')
      | (Inl e, w') \<Rightarrow>
          if expired i \<or> n = 0 then (Inl e, w') else withRetry n expired f (Suc i) w')"

definition stageID :: "TaskMessage \<Rightarrow> string" where
  "stageID msg = ChainID msg @ '':'' @ dec_int (ChainIndex msg + 1)"

definition nextMessage :: "TaskMessage \<Rightarrow> ChainLink \<Rightarrow> TaskMessage" where
  "nextMessage msg link =
     zeroMessage\<lparr>ID := stageID msg, Kind := L_Kind link, Payload := L_Payload link,
       Queue := L_Queue link, MaxRetry := L_MaxRetry link, NoArchive := L_NoArchive link,
       Retention := L_Retention link, Chain := tl (Chain msg), ChainID := ChainID msg,
       ChainIndex := ChainIndex msg + 1, PrevResult := Result msg, GroupID := GroupID msg,
       GroupQueue := GroupQueue msg, GroupCallback := GroupCallback msg,
       GroupIndex := GroupIndex msg, GroupSize := GroupSize msg,
       GroupMemberID := GroupMemberID msg\<rparr>"

text \<open>A task that is completed and kept reports again on behalf of its group.\<close>

definition drainCompletedStageMember ::
  "redis \<Rightarrow> Keys \<Rightarrow> time \<Rightarrow> string \<Rightarrow> string \<Rightarrow> unit go" where
  "drainCompletedStageMember R K now qname taskID w =
     (case taskState R K qname taskID w of
        (Inl e, w1) \<Rightarrow> if e = RedisNil then (Inr (), w1) else (Inl e, w1)
      | (Inr state, w1) \<Rightarrow>
          if state \<noteq> StateCompleted then (Inr (), w1)
          else (case GetTask R K qname taskID w1 of
                  (Inl e, w2) \<Rightarrow> if e = RedisNil then (Inr (), w2) else (Inl e, w2)
                | (Inr stored, w2) \<Rightarrow>
                    andthen (CompleteGroupMember R K now stored) (\<lambda>_. return ()) w2))"

definition callbackLink :: "ChainLink \<Rightarrow> ChainLink" where
  "callbackLink link = link\<lparr>L_Group := []\<rparr>"

definition stageMember :: "TaskMessage \<Rightarrow> ChainLink \<Rightarrow> nat \<Rightarrow> GroupMemberLink \<Rightarrow> TaskMessage" where
  "stageMember msg link j m =
     zeroMessage\<lparr>ID := memberID (stageID msg) j, Kind := M_Kind m, Payload := M_Payload m,
       Queue := M_Queue m, MaxRetry := M_MaxRetry m, Retention := M_Retention m,
       GroupID := stageID msg, GroupQueue := L_Queue link,
       GroupCallback := Some (callbackLink link), GroupIndex := int j,
       GroupSize := int (length (L_Group link)), GroupCallbackChain := tl (Chain msg),
       ChainID := ChainID msg, ChainIndex := ChainIndex msg + 1, PrevResult := Result msg\<rparr>"

fun stageMembers ::
  "redis \<Rightarrow> Keys \<Rightarrow> time \<Rightarrow> TaskMessage \<Rightarrow> ChainLink \<Rightarrow> string set option \<Rightarrow> nat \<Rightarrow>
   GroupMemberLink list \<Rightarrow> unit go" where
  "stageMembers R K now msg link pendingSet j [] w = (Inr (), w)"
| "stageMembers R K now msg link pendingSet j (m # ms) w =
     (if (case pendingSet of None \<Rightarrow> False | Some ids \<Rightarrow> memberID (stageID msg) j \<notin> ids)
      then stageMembers R K now msg link pendingSet (Suc j) ms w
      else let member = stageMember msg link j m
           in (case EnqueueChainLink R K now member (int64 (M_Delay m * Second)) w of
                 (Inl e, w1) \<Rightarrow> (Inl (ErrAt ''stage member'' j e), w1)
               | (Inr created, w1) \<Rightarrow>
                   if created then stageMembers R K now msg link pendingSet (Suc j) ms w1
                   else (case drainCompletedStageMember R K now (Queue member) (ID member) w1 of
                           (Inl e, w2) \<Rightarrow> (Inl (ErrAt ''stage member'' j e), w2)
                         | (Inr _, w2) \<Rightarrow>
                             stageMembers R K now msg link pendingSet (Suc j) ms w2)))"

definition enqueueNextGroup ::
  "redis \<Rightarrow> Keys \<Rightarrow> time \<Rightarrow> TaskMessage \<Rightarrow> ChainLink \<Rightarrow> unit go" where
  "enqueueNextGroup R K now msg link =
     (let groupID = stageID msg;
          memberIDs = map (memberID groupID) [0..<length (L_Group link)]
      in andthen (CreateGroupIfAbsent R K (L_Queue link) groupID memberIDs (groupID @ '':cb'')) (\<lambda>state.
         case state of
           GroupStageDone \<Rightarrow> return ()
         | GroupStageExists \<Rightarrow>
             andthen (GroupMembers R K (L_Queue link) groupID) (\<lambda>ids.
               stageMembers R K now msg link (Some (set ids)) 0 (L_Group link))
         | GroupStageCreated \<Rightarrow> stageMembers R K now msg link None 0 (L_Group link)))"

definition enqueueNext :: "redis \<Rightarrow> Keys \<Rightarrow> time \<Rightarrow> TaskMessage \<Rightarrow> unit go" where
  "enqueueNext R K now msg =
     (let link = hd (Chain msg)
      in if L_Group link \<noteq> [] then enqueueNextGroup R K now msg link
         else andthen (EnqueueChainLink R K now (nextMessage msg link)
                         (int64 (L_Delay link * Second))) (\<lambda>_. return ()))"

definition enqueueNextWithRetry ::
  "redis \<Rightarrow> Keys \<Rightarrow> (nat \<Rightarrow> time) \<Rightarrow> (nat \<Rightarrow> bool) \<Rightarrow> TaskMessage \<Rightarrow> unit go" where
  "enqueueNextWithRetry R K clock expired msg =
     withRetry 3 expired (\<lambda>i. enqueueNext R K (clock i) msg) 0"

definition completeGroupWithRetry ::
  "redis \<Rightarrow> Keys \<Rightarrow> (nat \<Rightarrow> time) \<Rightarrow> (nat \<Rightarrow> bool) \<Rightarrow> TaskMessage \<Rightarrow> unit go" where
  "completeGroupWithRetry R K clock expired msg =
     withRetry 3 expired (\<lambda>i. CompleteGroupMember R K (clock i) msg) 0"

subsection \<open>Processing a task\<close>

datatype observation =
    OnDeadLetter TaskInfo gerr
  | ObserveTask string string TaskOutcome duration
  | ObserveRecovered string int int

definition observe :: "ServerConfig \<Rightarrow> TaskMessage \<Rightarrow> TaskOutcome \<Rightarrow> duration \<Rightarrow> observation list" where
  "observe cfg msg outc dur =
     (if c_Metrics cfg = NoMetrics then [] else [ObserveTask (Queue msg) (Kind msg) outc dur])"

definition observeRecovered :: "ServerConfig \<Rightarrow> string \<Rightarrow> int \<Rightarrow> int \<Rightarrow> observation list" where
  "observeRecovered cfg q recovered deadLettered =
     (if c_Metrics cfg = TaskAndRecoveryMetrics then [ObserveRecovered q recovered deadLettered] else [])"

definition shortInfo :: "TaskMessage \<Rightarrow> TaskInfo" where
  "shortInfo msg = zeroInfo\<lparr>TI_ID := ID msg, TI_Kind := Kind msg, TI_Queue := Queue msg\<rparr>"

definition onDeadLetter :: "ServerConfig \<Rightarrow> TaskMessage \<Rightarrow> gerr \<Rightarrow> observation list" where
  "onDeadLetter cfg msg cause =
     (if hasOnDeadLetter cfg then [OnDeadLetter (shortInfo msg) cause] else [])"

definition deadLetter ::
  "redis \<Rightarrow> Keys \<Rightarrow> ServerConfig \<Rightarrow> time \<Rightarrow> string \<Rightarrow> sid \<Rightarrow> TaskMessage \<Rightarrow> gerr \<Rightarrow> world \<Rightarrow>
   observation list \<times> world" where
  "deadLetter R K cfg now qname sid msg0 cause w =
     (let msg = msg0\<lparr>LastErr := Error cause, CompletedAt := 0\<rparr>
      in (onDeadLetter cfg msg cause,
          if NoArchive msg then snd (Done R K now qname sid (msg\<lparr>Retention := 0\<rparr>) w)
          else snd (Archive R K qname sid msg now w)))"

definition retryDelay :: "ServerConfig \<Rightarrow> int \<Rightarrow> gerr \<Rightarrow> duration" where
  "retryDelay cfg retried e = (case RetryDelayFunc cfg of None \<Rightarrow> 0 | Some f \<Rightarrow> f retried e)"

text \<open>The clock readings and deadlines of one call of \<^verbatim>\<open>process\<close>.\<close>

record timing =
  duration_of :: duration
  nextClock :: "nat \<Rightarrow> time"
  nextExpired :: "nat \<Rightarrow> bool"
  groupClock :: "nat \<Rightarrow> time"
  groupExpired :: "nat \<Rightarrow> bool"
  ackClock :: time

definition succeed ::
  "redis \<Rightarrow> Keys \<Rightarrow> ServerConfig \<Rightarrow> timing \<Rightarrow> string \<Rightarrow> sid \<Rightarrow> TaskMessage \<Rightarrow> world \<Rightarrow>
   observation list \<times> world" where
  "succeed R K cfg tm qname sid msg0 w0 =
     (let hadSuccessor = Chain msg0 \<noteq> []
      in case (if hadSuccessor then enqueueNextWithRetry R K (nextClock tm) (nextExpired tm) msg0
               else return ()) w0 of
           (Inl e, w1) \<Rightarrow> ([], w1)
         | (Inr _, w1) \<Rightarrow>
             (let msg = msg0\<lparr>Chain := []\<rparr>
              in case (if GroupID msg \<noteq> [] \<and> \<not> hadSuccessor
                       then completeGroupWithRetry R K (groupClock tm) (groupExpired tm) msg
                       else return ()) w1 of
                   (Inl e, w2) \<Rightarrow> ([], w2)
                 | (Inr _, w2) \<Rightarrow>
                     (observe cfg msg OutcomeSuccess (duration_of tm),
                      snd (Done R K (ackClock tm) qname sid msg w2))))"

definition process ::
  "redis \<Rightarrow> Keys \<Rightarrow> (nat \<Rightarrow> bool) \<Rightarrow> Mux \<Rightarrow> ServerConfig \<Rightarrow> timing \<Rightarrow> string \<Rightarrow> sid \<Rightarrow>
   TaskMessage \<Rightarrow> world \<Rightarrow> observation list \<times> world" where
  "process R K isPrint mux cfg tm qname sid msg w =
     (case dispatchSafely isPrint mux msg of
        Inr msg' \<Rightarrow> succeed R K cfg tm qname sid msg' w
      | Inl e \<Rightarrow>
          if asSkipRetry e \<or> MaxRetry msg \<le> Retried msg then
            (case deadLetter R K cfg (ackClock tm) qname sid msg e w of (obs, w') \<Rightarrow>
               (obs @ observe cfg msg OutcomeDeadLetter (duration_of tm), w'))
          else
            (let msg' = msg\<lparr>Retried := Retried msg + 1, LastErr := Error e, CompletedAt := 0\<rparr>;
                 retryAt = ackClock tm + retryDelay cfg (Retried msg') e
             in (observe cfg msg' OutcomeRetry (duration_of tm),
                 snd (Retry R K qname sid msg' retryAt w))))"

subsection \<open>Heartbeat\<close>

record inflightEntry =
  i_streamID :: sid
  i_queue :: string
  i_uniqueKey :: string

text \<open>The map of the tasks in flight, in the order in which the runtime happens to iterate over it.\<close>

type_synonym inflight = "(string \<times> inflightEntry) list"

definition trackInflight :: "string \<Rightarrow> inflightEntry \<Rightarrow> inflight \<Rightarrow> inflight" where
  "trackInflight i e fl = (i, e) # filter (\<lambda>(j, _). j \<noteq> i) fl"

definition untrackInflight :: "string \<Rightarrow> inflight \<Rightarrow> inflight" where
  "untrackInflight i fl = filter (\<lambda>(j, _). j \<noteq> i) fl"

definition byQueue :: "inflight \<Rightarrow> (string \<times> sid list) list" where
  "byQueue fl =
     (let es = map snd fl
      in map (\<lambda>q. (q, map i_streamID (filter (\<lambda>e. i_queue e = q) es))) (remdups (map i_queue es)))"

fun extendLeases :: "redis \<Rightarrow> Keys \<Rightarrow> string \<Rightarrow> (string \<times> sid list) list \<Rightarrow> world \<Rightarrow> world" where
  "extendLeases R K consumer [] w = w"
| "extendLeases R K consumer ((q, ids) # qs) w =
     extendLeases R K consumer qs (snd (ExtendLease R K q consumer ids w))"

definition beat :: "redis \<Rightarrow> Keys \<Rightarrow> string \<Rightarrow> inflight \<Rightarrow> duration \<Rightarrow> world \<Rightarrow> world" where
  "beat R K consumer fl renewTTL w =
     (let uniqueKeys = filter (\<lambda>k. k \<noteq> []) (map (i_uniqueKey \<circ> snd) fl);
          w1 = extendLeases R K consumer (byQueue fl) w
      in if uniqueKeys = [] then w1 else snd (RenewUnique R uniqueKeys renewTTL w1))"

definition heartbeatTick ::
  "redis \<Rightarrow> Keys \<Rightarrow> ServerConfig \<Rightarrow> string \<Rightarrow> inflight \<Rightarrow> world \<Rightarrow> world" where
  "heartbeatTick R K cfg consumer fl w = beat R K consumer fl (int64 (2 * RecoverMinIdle cfg)) w"

subsection \<open>Maintenance loops\<close>

text \<open>
  One tick of each loop over the configured queues.  When a call fails and the context is
  cancelled the loop returns; otherwise it goes on.
\<close>

fun forwarderTick ::
  "redis \<Rightarrow> Keys \<Rightarrow> time \<Rightarrow> bool \<Rightarrow> string list \<Rightarrow> world \<Rightarrow> control \<times> world" where
  "forwarderTick R K now cancelled [] w = (Continue, w)"
| "forwarderTick R K now cancelled (q # qs) w =
     (case ForwardRetry R K q now forwardBatchSize w of (r1, w1) \<Rightarrow>
        if cancelled \<and> isl r1 then (Stop, w1)
        else (case ForwardScheduled R K q now forwardBatchSize w1 of (r2, w2) \<Rightarrow>
                if cancelled \<and> isl r2 then (Stop, w2)
                else forwarderTick R K now cancelled qs w2))"

definition errRecoveredExhausted :: gerr where
  "errRecoveredExhausted = Err ''chronos: retries exhausted after recovery'' []"

fun recovererTick ::
  "redis \<Rightarrow> Keys \<Rightarrow> ServerConfig \<Rightarrow> string \<Rightarrow> time \<Rightarrow> bool \<Rightarrow> string list \<Rightarrow> world \<Rightarrow>
   (control \<times> observation list) \<times> world" where
  "recovererTick R K cfg consumer now cancelled [] w = ((Continue, []), w)"
| "recovererTick R K cfg consumer now cancelled (q # qs) w =
     (case Recover R K now q consumer (RecoverMinIdle cfg) recoverBatchSize w of
        ((recovered, archived, None), w1) \<Rightarrow>
          (case recovererTick R K cfg consumer now cancelled qs w1 of ((c, obs), w2) \<Rightarrow>
             ((c, concat (map (\<lambda>msg. onDeadLetter cfg msg errRecoveredExhausted) archived) @
                  observeRecovered cfg q recovered (int (length archived)) @ obs), w2))
      | ((recovered, archived, Some e), w1) \<Rightarrow>
          if cancelled then ((Stop, []), w1)
          else recovererTick R K cfg consumer now cancelled qs w1)"

fun janitorTick ::
  "redis \<Rightarrow> Keys \<Rightarrow> ServerConfig \<Rightarrow> time \<Rightarrow> bool \<Rightarrow> string list \<Rightarrow> world \<Rightarrow> control \<times> world" where
  "janitorTick R K cfg now cancelled [] w = (Continue, w)"
| "janitorTick R K cfg now cancelled (q # qs) w =
     (case TrimArchived R K q (now - ArchivedRetention cfg) (MaxArchived cfg) janitorBatchSize w of
        (Inl e, w1) \<Rightarrow> if cancelled then (Stop, w1) else janitorTick R K cfg now cancelled qs w1
      | (Inr _, w1) \<Rightarrow>
          (case TrimCompleted R K q now (MaxCompleted cfg) janitorBatchSize w1 of
             (Inl e, w2) \<Rightarrow> if cancelled then (Stop, w2) else janitorTick R K cfg now cancelled qs w2
           | (Inr _, w2) \<Rightarrow> janitorTick R K cfg now cancelled qs w2))"

end
