(* ===== verification/Safe_Server.thy ===== *)
theory Safe_Server
  imports Safe_Admin Server
begin

section \<open>The server is safe\<close>

text \<open>
  The triples of the workflow progress, of the processing of a task and of one iteration of each
  loop of server.go.
\<close>

subsection \<open>Messages that the server makes\<close>

lemma stageID_utf8: "task_wf K q m \<Longrightarrow> utf8_ok (stageID m)"
  by (simp add: stageID_def task_wf_def msg_ok_def)

lemma nextMessage_wf:
  assumes "task_wf K q m" "Chain m \<noteq> []"
  shows "task_wf K (L_Queue (hd (Chain m))) (nextMessage m (hd (Chain m)))"
proof -
  obtain l ls where c: "Chain m = l # ls" using assms(2) by (cases "Chain m") auto
  have "small (ChainIndex m + 1)" "small (ChainIndex m + 1 + int (length ls))"
    using assms(1) c by (auto simp: task_wf_def small_def)
  with assms(1) c stageID_utf8 [OF assms(1)] show ?thesis
    by (auto simp: task_wf_def msg_ok_def nextMessage_def zeroMessage_def link_wf_def link_ok_def lock_ok_def)
qed

lemma stageMember_wf:
  assumes "task_wf K q m" "Chain m = l # ls" "g \<in> set (L_Group l)" "j < length (L_Group l)"
  shows "task_wf K (M_Queue g) (stageMember m l j g)"
proof -
  have i: "small (ChainIndex m + 1)" "small (ChainIndex m + 1 + int (length ls))"
    using assms(1,2) by (auto simp: task_wf_def small_def)
  have l: "link_wf l" using assms(1,2) by (simp add: task_wf_def)
  then have g: "member_wf g" using assms(3) by (simp add: link_wf_def list_all_iff)
  have n: "small (int j)" "small (int (length (L_Group l)))" using l assms(4) by (auto simp: link_wf_def small_def)
  have cb: "link_wf (callbackLink l)" using l by (simp add: link_wf_def link_ok_def callbackLink_def)
  then have "link_ok (callbackLink l)" by (simp add: link_wf_def)
  then show ?thesis
    using assms(1,2) i l g n cb stageID_utf8 [OF assms(1)]
    by (auto simp: task_wf_def msg_ok_def stageMember_def zeroMessage_def link_wf_def link_ok_def
        member_wf_def member_ok_def memberID_def lock_ok_def list_all_iff)
qed

text \<open>All members of the group stage that follows a task are well-formed.\<close>

definition stage_ok :: "Keys \<Rightarrow> TaskMessage \<Rightarrow> ChainLink \<Rightarrow> bool" where
  "stage_ok K m l \<longleftrightarrow> (\<forall>j < length (L_Group l). task_wf K (M_Queue (L_Group l ! j)) (stageMember m l j (L_Group l ! j)))"

definition claimed :: "Keys \<Rightarrow> Dequeued list \<Rightarrow> keyspace \<Rightarrow> bool" where
  "claimed K ts d \<longleftrightarrow> (\<forall>t \<in> set ts. claim K (Queue (Msg t)) (StreamID t) (Msg t) d)"

definition picker_ok :: "wrrPicker \<Rightarrow> bool" where
  "picker_ok p \<longleftrightarrow> (names p = [] \<or> wf_picker p) \<and> (\<forall>q \<in> set (names p). qname_ok q)"

definition queues_ok :: "ServerConfig \<Rightarrow> bool" where
  "queues_ok cfg \<longleftrightarrow> distinct (map fst (c_Queues cfg)) \<and> (\<forall>q \<in> set (queueNames cfg). qname_ok q)"

definition round_post :: "Keys \<Rightarrow> control \<times> Dequeued list \<times> fetchState \<Rightarrow> keyspace \<Rightarrow> bool" where
  "round_post K r d \<longleftrightarrow> claimed K (fst (snd r)) d"

text \<open>The tasks in flight: their queues are usable and their locks are unique locks.\<close>

definition inflight_ok :: "Keys \<Rightarrow> inflight \<Rightarrow> bool" where
  "inflight_ok K fl \<longleftrightarrow> (\<forall>(i, e) \<in> set fl. qname_ok (i_queue e) \<and> lock_ok K (i_queue e) (i_uniqueKey e))"

definition some_claimed :: "Keys \<Rightarrow> Dequeued list option \<Rightarrow> keyspace \<Rightarrow> bool" where
  "some_claimed K r d \<longleftrightarrow> (\<forall>ts. r = Some ts \<longrightarrow> claimed K ts d)"

context redis_laws
begin

subsection \<open>Workflow progress\<close>

lemma withRetry_tri:
  assumes "\<And>i. tri K P (f i) (onok whatever)" "stab K P"
  shows "tri K P (withRetry n ex f i) (onok whatever)"
proof (induction n arbitrary: i)
  case 0
  have run: "withRetry 0 ex f i = return ()" by (simp add: fun_eq_iff return_def)
  show ?case unfolding run by (rule rg.return) simp
next
  case (Suc n)
  have run: "withRetry (Suc n) ex f i = (\<lambda>w. case f i w of
      (Inl e, w1) \<Rightarrow> (if ex i \<or> n = 0 then (Inl e, w1) else withRetry n ex f (Suc i) w1)
    | (Inr a, w1) \<Rightarrow> (Inr (), w1))"
    by (rule ext) (simp split: prod.split sum.split)
  show ?case
    unfolding run
  proof (rule rg.sum_case)
    show "tri K P (f i) (\<lambda>_. P)" by (rule rg.conseq [OF rg.frame [OF assms(1,2)]]) auto
    show "tri K P (\<lambda>w. if ex i \<or> n = 0 then (Inl e, w) else withRetry n ex f (Suc i) w) (onok whatever)" for e
      using Suc by (cases "ex i \<or> n = 0") (auto intro: rg.pure)
    show "tri K P (\<lambda>w. (Inr (), w)) (onok whatever)" for a by (rule rg.pure) simp
  qed
qed

lemma taskState_tri: "tri K (\<lambda>_. qname_ok q) (taskState R K q i) (onok whatever)"
  unfolding taskState_def
  by (intro seq_any read_tri)
    (auto simp: key_render typed_commands dest: intactD(1) intro!: rg.fail rg.return split: option.split)

lemma drain_tri: "tri K (\<lambda>_. qname_ok q) (drainCompletedStageMember R K now q i) (onok whatever)"
proof -
  have end1: "tri K P (\<lambda>w. if e = RedisNil then (Inr (), w) else (Inl e, w)) (onok whatever)" for P and e :: err
    by (cases "e = RedisNil") (auto intro: rg.pure)
  have get: "tri K (\<lambda>_. qname_ok q) (\<lambda>w. case GetTask R K q i w of
      (Inl e, w2) \<Rightarrow> (if e = RedisNil then (Inr (), w2) else (Inl e, w2))
    | (Inr stored, w2) \<Rightarrow> andthen (CompleteGroupMember R K now stored) (\<lambda>_. return ()) w2) (onok whatever)"
  proof (rule rg.sum_case [OF GetTask_known end1])
    fix m
    show "tri K (\<lambda>_. qname_ok q \<and> (\<forall>m'. Inr m = Inr m' \<longrightarrow> task_wf K q m'))
        (andthen (CompleteGroupMember R K now m) (\<lambda>_. return ())) (onok whatever)"
      by (intro seq_any weaken [OF CompleteGroupMember_tri [of K q]] rg.return) auto
  qed
  show ?thesis
    unfolding drainCompletedStageMember_def [abs_def]
  proof (rule rg.sum_case [OF _ end1])
    show "tri K (\<lambda>_. qname_ok q) (taskState R K q i) (\<lambda>_ _. qname_ok q)"
      by (rule rg.conseq [OF rg.frame [OF taskState_tri [of K q i], where F = "\<lambda>_. qname_ok q"]]) auto
    show "tri K (\<lambda>_. qname_ok q) (\<lambda>w. if st \<noteq> StateCompleted then (Inr (), w)
        else case GetTask R K q i w of
          (Inl e, w2) \<Rightarrow> (if e = RedisNil then (Inr (), w2) else (Inl e, w2))
        | (Inr stored, w2) \<Rightarrow> andthen (CompleteGroupMember R K now stored) (\<lambda>_. return ()) w2)
        (onok whatever)" for st
      using get by (cases "st \<noteq> StateCompleted") (auto intro: rg.pure)
  qed
qed

text \<open>Handing a failure on under a description.\<close>

lemma located_step:
  assumes "tri K (\<lambda>_. b) f (onok whatever)" "\<And>a. tri K (\<lambda>_. b) (g a) (onok whatever)"
  shows "tri K (\<lambda>_. b) (\<lambda>w. case f w of (Inl e, w1) \<Rightarrow> (Inl (h e), w1) | (Inr a, w1) \<Rightarrow> g a w1) (onok whatever)"
proof (rule rg.sum_case)
  show "tri K (\<lambda>_. b) f (\<lambda>_ _. b)"
    by (rule rg.conseq [OF rg.frame [OF assms(1), where F = "\<lambda>_. b"]]) auto
  show "tri K (\<lambda>_. b) (\<lambda>w. (Inl (h e), w)) (onok whatever)" for e by (rule rg.pure) simp
qed (rule assms(2))

lemma stageMembers_tri:
  "tri K (\<lambda>_. stage_ok K m l \<and> ms = drop j (L_Group l))
    (stageMembers R K now m l ids j ms) (onok whatever)"
proof (induction ms arbitrary: j)
  case Nil
  have run: "stageMembers R K now m l ids j [] = return ()" by (simp add: fun_eq_iff return_def)
  show ?case unfolding run by (rule rg.return) simp
next
  case (Cons g gs)
  let ?P = "stage_ok K m l \<and> g # gs = drop j (L_Group l)"
  let ?m = "stageMember m l j g"
  have P: "j < length (L_Group l) \<and> g = L_Group l ! j \<and> gs = drop (Suc j) (L_Group l)" if ?P
  proof -
    have j: "j < length (L_Group l)" using that by (cases "j < length (L_Group l)") auto
    then show ?thesis using that Cons_nth_drop_Suc [OF j] by (metis list.inject)
  qed
  have q: "Queue ?m = M_Queue g" by (simp add: stageMember_def)
  have wf: "task_wf K (M_Queue g) ?m" if ?P using P [OF that] that by (auto simp: stage_ok_def)
  have IH: "tri K (\<lambda>_. ?P) (stageMembers R K now m l ids (Suc j) gs) (onok whatever)"
    by (rule weaken [OF Cons.IH]) (use P in auto)
  have E: "tri K (\<lambda>_. ?P) (EnqueueChainLink R K now ?m t) (onok whatever)" for t
    by (rule weaken [OF EnqueueChainLink_tri]) (use wf q in auto)
  have D: "tri K (\<lambda>_. ?P) (drainCompletedStageMember R K now (Queue ?m) i) (onok whatever)" for i
    by (rule weaken [OF drain_tri]) (use wf q in \<open>auto simp: task_wf_def\<close>)
  let ?k = "\<lambda>created. if created then stageMembers R K now m l ids (Suc j) gs
    else (\<lambda>w. case drainCompletedStageMember R K now (Queue ?m) (ID ?m) w of
       (Inl e, w2) \<Rightarrow> (Inl (ErrAt ''stage member'' j e), w2)
     | (Inr _, w2) \<Rightarrow> stageMembers R K now m l ids (Suc j) gs w2)"
  have k: "tri K (\<lambda>_. ?P) (?k c) (onok whatever)" for c
    using IH located_step [OF D IH] by (cases c) simp_all
  have run: "stageMembers R K now m l ids j (g # gs) =
    (if case ids of None \<Rightarrow> False | Some X \<Rightarrow> memberID (stageID m) j \<notin> X
     then stageMembers R K now m l ids (Suc j) gs
     else (\<lambda>w. case EnqueueChainLink R K now ?m (int64 (M_Delay g * Second)) w of
        (Inl e, w1) \<Rightarrow> (Inl (ErrAt ''stage member'' j e), w1) | (Inr c, w1) \<Rightarrow> ?k c w1))"
    by (rule ext) (simp add: Let_def split: prod.split sum.split)
  show ?case
    unfolding run using IH located_step [OF E k] by auto
qed

lemma GroupMembers_tri: "tri K (\<lambda>_. qname_ok q) (GroupMembers R K q g) (onok whatever)"
  unfolding GroupMembers_def by (rule read_tri) (simp_all add: key_render smembers_read)

lemma enqueueNext_tri:
  "tri K (\<lambda>_. task_wf K q m \<and> Chain m \<noteq> []) (enqueueNext R K now m) (onok whatever)"
proof -
  let ?l = "hd (Chain m)"
  let ?P = "task_wf K q m \<and> Chain m \<noteq> []"
  have l: "link_wf ?l" if ?P using that by (cases "Chain m") (auto simp: task_wf_def)
  have st: "stage_ok K m ?l" if ?P
    using that unfolding stage_ok_def by (cases "Chain m") (auto intro!: stageMember_wf)
  have single: "tri K (\<lambda>_. ?P) (EnqueueChainLink R K now (nextMessage m ?l) t) (onok whatever)" for t
    by (rule weaken [OF EnqueueChainLink_tri])
      (use nextMessage_wf in \<open>auto simp: nextMessage_def\<close>)
  have members: "tri K (\<lambda>_. ?P) (stageMembers R K now m ?l ids 0 (L_Group ?l)) (onok whatever)" for ids
    by (rule weaken [OF stageMembers_tri]) (use st in auto)
  have group: "tri K (\<lambda>_. ?P) (enqueueNextGroup R K now m ?l) (onok whatever)"
    unfolding enqueueNextGroup_def Let_def
  proof (rule seq_any)
    show "tri K (\<lambda>_. ?P) (CreateGroupIfAbsent R K (L_Queue ?l) (stageID m)
        (map (memberID (stageID m)) [0..<length (L_Group ?l)]) (stageID m @ '':cb'')) (onok whatever)"
      by (rule weaken [OF CreateGroupIfAbsent_tri]) (use l in \<open>auto simp: link_wf_def\<close>)
    have g: "tri K (\<lambda>_. ?P) (GroupMembers R K (L_Queue ?l) (stageID m)) (onok whatever)"
      by (rule weaken [OF GroupMembers_tri]) (use l in \<open>auto simp: link_wf_def\<close>)
    show "tri K (\<lambda>_. ?P) (case s of GroupStageDone \<Rightarrow> return ()
        | GroupStageExists \<Rightarrow> andthen (GroupMembers R K (L_Queue ?l) (stageID m))
            (\<lambda>ids. stageMembers R K now m ?l (Some (set ids)) 0 (L_Group ?l))
        | GroupStageCreated \<Rightarrow> stageMembers R K now m ?l None 0 (L_Group ?l)) (onok whatever)" for s
      using members g by (cases s) (auto intro!: rg.return seq_any)
  qed
  show ?thesis
    unfolding enqueueNext_def Let_def using group single by (auto intro!: seq_any rg.return)
qed

lemma WithRetry_tri:
  "tri K (\<lambda>_. task_wf K q m \<and> Chain m \<noteq> []) (enqueueNextWithRetry R K ck ex m) (onok whatever)"
  "tri K (\<lambda>_. task_wf K q m) (completeGroupWithRetry R K ck ex m) (onok whatever)"
  unfolding enqueueNextWithRetry_def completeGroupWithRetry_def
  by (intro withRetry_tri enqueueNext_tri CompleteGroupMember_tri stable_const)+

subsection \<open>Processing a task\<close>

lemma claim_fields:
  assumes "claim K q n m d"
  shows "claim K q n (m\<lparr>Result := b\<rparr>) d" "claim K q n (m\<lparr>Chain := []\<rparr>) d"
    "claim K q n (m\<lparr>LastErr := e, CompletedAt := 0\<rparr>) d"
    "claim K q n (m\<lparr>LastErr := e, CompletedAt := 0, Retention := 0\<rparr>) d"
    "\<not> MaxRetry m \<le> Retried m \<Longrightarrow> claim K q n (m\<lparr>Retried := Retried m + 1, LastErr := e, CompletedAt := 0\<rparr>) d"
  using assms by (auto simp: claim_def task_wf_def msg_ok_def int64_ok_def small_def)

lemma ignored_any:
  assumes "tri K P f Q" "stab K P"
  shows "tri K P (\<lambda>w. (r, snd (f w))) whatever"
  using rg.bind [OF ignored [OF assms] rg.pure [where r = r and Q = whatever]] by simp

lemma stab_const_claim: "stab K (\<lambda>d. b \<and> claim K q n m d)"
  by (intro stab_intros)

lemma deadLetter_tri:
  "tri K (\<lambda>d. clock_ok now \<and> claim K q n m d) (deadLetter R K cfg now q n m cause) whatever"
proof -
  let ?m = "m\<lparr>LastErr := Error cause, CompletedAt := 0\<rparr>"
  let ?P = "\<lambda>d. clock_ok now \<and> claim K q n m d"
  have d: "tri K ?P (Done R K now q n (?m\<lparr>Retention := 0\<rparr>)) (onok whatever)"
    by (rule weaken [OF Done_tri]) (use claim_fields(4) in simp)
  have a: "tri K ?P (Archive R K q n ?m now) (onok whatever)"
    by (rule weaken [OF Archive_tri]) (use claim_fields(3) in simp)
  have run: "deadLetter R K cfg now q n m cause = (\<lambda>w. (onDeadLetter cfg ?m cause,
      snd ((if NoArchive ?m then Done R K now q n (?m\<lparr>Retention := 0\<rparr>) else Archive R K q n ?m now) w)))"
    by (rule ext) (simp add: deadLetter_def Let_def)
  show ?thesis
    unfolding run by (rule ignored_any [OF _ stab_const_claim]) (use d a in auto)
qed

text \<open>An optional step in front of the rest, which a failure ends.\<close>

lemma guarded_step:
  assumes "b \<Longrightarrow> tri K P f (onok whatever)" "stab K P" "tri K P g whatever"
  shows "tri K P (\<lambda>w. case (if b then f else return ()) w of (Inl e, w1) \<Rightarrow> (r, w1) | (Inr a, w1) \<Rightarrow> g w1) whatever"
proof (rule rg.sum_case)
  have "tri K P (if b then f else return ()) (onok whatever)" using assms(1) by (auto intro: rg.return)
  then show "tri K P (if b then f else return ()) (\<lambda>_. P)" by (rule rg.conseq [OF rg.frame [OF _ assms(2)]]) auto
  show "tri K P (\<lambda>w. (r, w)) whatever" for e :: err by (rule rg.pure) simp
qed (rule assms(3))

lemma succeed_tri:
  "tri K (\<lambda>d. clock_ok (ackClock tm) \<and> claim K q n m d) (succeed R K cfg tm q n m) whatever"
proof -
  let ?P = "\<lambda>d. clock_ok (ackClock tm) \<and> claim K q n m d"
  let ?m = "m\<lparr>Chain := []\<rparr>"
  have next_ok: "tri K ?P (enqueueNextWithRetry R K (nextClock tm) (nextExpired tm) m) (onok whatever)"
    if "Chain m \<noteq> []"
    by (rule weaken [OF WithRetry_tri(1) [of K q]]) (use that in \<open>auto simp: claim_def\<close>)
  have group_ok: "tri K ?P (completeGroupWithRetry R K (groupClock tm) (groupExpired tm) ?m) (onok whatever)"
    by (rule weaken [OF WithRetry_tri(2) [of K q]]) (use claim_fields(2) in \<open>force simp: claim_def\<close>)
  have done_ok: "tri K ?P (\<lambda>w. (obs, snd (Done R K (ackClock tm) q n ?m w))) whatever" for obs :: "observation list"
    by (rule ignored_any [OF weaken [OF Done_tri] stab_const_claim]) (use claim_fields(2) in auto)
  show ?thesis
    unfolding succeed_def [abs_def] Let_def
    by (intro guarded_step next_ok group_ok done_ok stab_const_claim)
qed

lemma process_tri:
  assumes "wf_mux mux"
  shows "tri K (\<lambda>d. clock_ok (ackClock tm) \<and> claim K q n m d) (process R K pr mux cfg tm q n m) whatever"
proof (cases "dispatchSafely pr mux m")
  case (Inr m')
  have "m' = m \<or> (\<exists>b. m' = m\<lparr>Result := b\<rparr>)"
    using Inr assms unfolding dispatchSafely_def dispatch_def wf_mux_def
    by (auto split: option.splits outcome.splits) blast
  then have "claim K q n m' d" if "claim K q n m d" for d using that claim_fields(1) by auto
  then show ?thesis
    unfolding process_def [abs_def] Inr sum.case by (auto intro: weaken [OF succeed_tri])
next
  case (Inl e)
  let ?P = "\<lambda>d. clock_ok (ackClock tm) \<and> claim K q n m d"
  show ?thesis
  proof (cases "asSkipRetry e \<or> MaxRetry m \<le> Retried m")
    case True
    show ?thesis
      unfolding process_def [abs_def] Inl sum.case if_P [OF True]
      by (rule rg.bind [OF deadLetter_tri]) (auto intro: rg.pure)
  next
    case False
    show ?thesis
      unfolding process_def [abs_def] Inl sum.case if_not_P [OF False] Let_def
      by (rule ignored_any [OF weaken [OF Retry_tri] stab_const_claim])
        (use False claim_fields(5) in auto)
  qed
qed

subsection \<open>Fetch loop\<close>

lemma stab_claimed: "stab K (claimed K ts)"
  unfolding claimed_def by (intro stab_intros)

lemma claims_claimed: "claims K q ts d \<Longrightarrow> claimed K ts d"
  by (auto simp: claims_def claimed_def claim_def task_wf_def)

lemma requeueRest_tri:
  "tri K (claimed K ts) (\<lambda>w. ((), requeueRest R K ts w)) whatever"
proof (induction ts)
  case Nil
  show ?case by (auto intro: rg.pure)
next
  case (Cons t ts)
  have "tri K (claimed K (t # ts)) (Requeue R K (Queue (Msg t)) (StreamID t) (Msg t)) (onok whatever)"
    by (rule weaken [OF Requeue_tri]) (simp add: claimed_def)
  from rg.bind [OF ignored [OF this stab_claimed], where k = "\<lambda>_ w. ((), requeueRest R K ts w)"]
  have "tri K (claimed K (t # ts)) (\<lambda>w. ((), requeueRest R K ts
      (snd (Requeue R K (Queue (Msg t)) (StreamID t) (Msg t) w)))) whatever"
    using weaken [OF Cons.IH, of "claimed K (t # ts)"] by (auto simp: claimed_def)
  then show ?case by simp
qed

lemma launch_split: "launch acq i ts = (gos, rest) \<Longrightarrow> gos @ rest = ts"
  by (induction acq i ts arbitrary: gos rest rule: launch.induct) (auto split: if_splits prod.splits)

lemma handOut_tri:
  "tri K (claimed K ts) (handOut R K inp fs ts) (round_post K)"
proof -
  obtain gos rest where l: "launch (slotFree inp) 0 ts = (gos, rest)" by fastforce
  have run: "handOut R K inp fs ts = (\<lambda>w. ((if rest = [] then Continue else Stop, gos,
      fs\<lparr>used := used fs + int (length gos)\<rparr>), requeueRest R K rest w))"
    by (rule ext) (simp add: handOut_def l)
  have "set gos \<subseteq> set ts" "set rest \<subseteq> set ts" using launch_split [OF l] by auto
  then have c: "claimed K rest d \<and> claimed K gos d" if "claimed K ts d" for d
    using that by (auto simp: claimed_def)
  have "tri K (claimed K ts) (\<lambda>w. ((), requeueRest R K rest w)) (\<lambda>_. claimed K gos)"
    using rg.frame [OF requeueRest_tri stab_claimed [of K gos]] by (rule rg.conseq) (use c in auto)
  from rg.bind [OF this, where k = "\<lambda>_ w. ((if rest = [] then Continue else Stop, gos,
      fs\<lparr>used := used fs + int (length gos)\<rparr>), w)" and Q' = "round_post K"]
  show ?thesis unfolding run by (simp add: rg.pure round_post_def)
qed

lemma none_claimed:
  "tri K P (\<lambda>w. (None, w)) (some_claimed K)" "tri K P (\<lambda>w. (Some [], w)) (some_claimed K)"
  by (rule rg.pure; simp add: some_claimed_def claimed_def)+

lemma batch_step:
  assumes "block_ok b" "\<And>e. tri K (\<lambda>_. P) (g e) (some_claimed K)"
  shows "tri K (\<lambda>_. qname_ok q \<and> P) (\<lambda>w. case DequeueBatch R K c b q n w of
      (Inl e, w1) \<Rightarrow> g e w1 | (Inr ts, w1) \<Rightarrow> (Some ts, w1)) (some_claimed K)"
proof (rule rg.sum_case)
  have "tri K (\<lambda>_. (qname_ok q \<and> block_ok b) \<and> P) (DequeueBatch R K c b q n)
      (\<lambda>r d. onok (\<lambda>ts d. ts \<noteq> [] \<and> claims K q ts d) r d \<and> P)"
    by (rule rg.frame [OF DequeueBatch_tri]) simp
  then show "tri K (\<lambda>_. qname_ok q \<and> P) (DequeueBatch R K c b q n) (\<lambda>r d. P \<and> onok (\<lambda>ts. claimed K ts) r d)"
    by (rule rg.conseq) (use assms(1) claims_claimed in \<open>auto simp: onok_def split: sum.splits\<close>)
  show "tri K (\<lambda>d. P \<and> onok (\<lambda>ts. claimed K ts) (Inl e) d) (g e) (some_claimed K)" for e
    by (rule weaken [OF assms(2)]) simp
  show "tri K (\<lambda>d. P \<and> onok (\<lambda>ts. claimed K ts) (Inr ts) d) (\<lambda>w. (Some ts, w)) (some_claimed K)" for ts
    by (rule rg.pure) (simp add: some_claimed_def)
qed

lemma sweep_tri:
  "tri K (\<lambda>_. \<forall>q \<in> set qs. qname_ok q) (sweep R K c n cancelled qs) (some_claimed K)"
proof (induction qs)
  case Nil
  have run: "sweep R K c n cancelled [] = (\<lambda>w. (Some [], w))" by (simp add: fun_eq_iff)
  show ?case unfolding run by (rule rg.pure) (simp add: some_claimed_def claimed_def)
next
  case (Cons q qs)
  let ?g = "\<lambda>e w. if e \<noteq> ErrNoTask \<and> cancelled then (None, w) else sweep R K c n cancelled qs w"
  have run: "sweep R K c n cancelled (q # qs) = (\<lambda>w. case DequeueBatch R K c (- 1) q n w of
      (Inl e, w1) \<Rightarrow> ?g e w1 | (Inr ts, w1) \<Rightarrow> (Some ts, w1))"
    by (rule ext) (simp split: prod.split sum.split)
  have "tri K (\<lambda>_. \<forall>q \<in> set qs. qname_ok q) (?g e) (some_claimed K)" for e
    using Cons.IH by (cases "e \<noteq> ErrNoTask \<and> cancelled") (auto intro: none_claimed)
  from batch_step [OF _ this, of "- 1" q] show ?case
    unfolding run by (auto simp: block_ok_def elim!: weaken)
qed

lemma blockOn_tri: "tri K (\<lambda>_. qname_ok q) (blockOn R K c n cancelled q) (some_claimed K)"
proof -
  let ?g = "\<lambda>e w. if e \<noteq> ErrNoTask \<and> cancelled then (None, w) else (Some [], w)"
  have run: "blockOn R K c n cancelled q = (\<lambda>w. case DequeueBatch R K c pollBlock q n w of
      (Inl e, w1) \<Rightarrow> ?g e w1 | (Inr ts, w1) \<Rightarrow> (Some ts, w1))"
    by (rule ext) (simp add: blockOn_def split: prod.split sum.split)
  have "tri K (\<lambda>_. True) (?g e) (some_claimed K)" for e
    by (cases "e \<noteq> ErrNoTask \<and> cancelled") (auto intro: none_claimed)
  from batch_step [OF _ this, of pollBlock q] show ?thesis
    unfolding run by (auto simp: block_ok_def pollBlock_def Second_def Millisecond_def elim!: weaken)
qed

lemma refreshPaused_tri: "tri K (\<lambda>_. True) (refreshPaused R K now fs) whatever"
  unfolding refreshPaused_def [abs_def]
proof (rule rg.cond)
  show "tri K (\<lambda>_. True) (\<lambda>w. (fs, w)) whatever" by (rule rg.pure) simp
  show "tri K (\<lambda>_. True) (\<lambda>w. case PausedQueues R K w of
        (Inl e, w') \<Rightarrow> (fs\<lparr>pausedChecked := Some now\<rparr>, w')
      | (Inr qs, w') \<Rightarrow> (fs\<lparr>pausedChecked := Some now, paused := set qs\<rparr>, w')) whatever"
    by (rule rg.sum_case [OF rg.any [OF listing_tri(1)]]; rule rg.pure; simp)
qed

lemma refreshPaused_picker: "picker (fst (refreshPaused R K now fs w)) = picker fs"
  by (auto simp: refreshPaused_def split: prod.split sum.split)

lemma pick_names:
  assumes "picker_ok p" "pick p = (q, p')"
  shows "qname_ok q \<and> picker_ok p'"
proof (cases "names p = []")
  case True
  then show ?thesis using assms by (simp add: pick_def qname_ok_def)
next
  case False
  then have wf: "wf_picker p" using assms(1) by (simp add: picker_ok_def)
  obtain b where b: "pick_index p = (b, p')" "q = names p ! b"
    using assms(2) False by (auto simp: pick_def split: prod.splits)
  then show ?thesis
    using pick_index_spec(1,2) [OF wf b(1)] pick_index_wf [OF wf b(1)] assms(1)
    by (auto simp: picker_ok_def)
qed

lemma roundOrder_names:
  assumes "picker_ok p" "queues_ok cfg" "roundOrder cfg p = (order, p')"
  shows "(\<forall>q \<in> set order. qname_ok q) \<and> picker_ok p'"
proof -
  have w: "\<forall>q \<in> set (queuesByWeight cfg). qname_ok q"
    using assms(2) by (auto simp: queuesByWeight_def queueNames_def queues_ok_def)
  then show ?thesis
    using assms(1,3) pick_names [OF assms(1)]
    by (auto simp: roundOrder_def Let_def split: if_splits prod.splits)
qed

lemma fetched_end:
  "tri K P (\<lambda>w. ((c, [], fs), w)) (round_post K)"
  by (rule rg.pure) (simp add: round_post_def claimed_def)

lemma fetchRound_body:
  "tri K (\<lambda>_. \<forall>q \<in> set order. qname_ok q) (\<lambda>w1.
     case sweep R K c n sc order w1 of
       (None, w2) \<Rightarrow> ((Stop, [], fs), w2)
     | (Some (t # ts), w2) \<Rightarrow> handOut R K inp fs (t # ts) w2
     | (Some [], w2) \<Rightarrow>
         if order = [] \<or> hd order = [] then ((Stop, [], fs), w2)
         else (case blockOn R K c n bc (hd order) w2 of
                 (None, w3) \<Rightarrow> ((Stop, [], fs), w3)
               | (Some [], w3) \<Rightarrow> ((Continue, [], fs), w3)
               | (Some (t # ts), w3) \<Rightarrow> handOut R K inp fs (t # ts) w3)) (round_post K)"
proof -
  let ?P = "\<forall>q \<in> set order. qname_ok q"
  let ?b = "\<lambda>r. case r of None \<Rightarrow> (\<lambda>w. ((Stop, [], fs), w)) | Some [] \<Rightarrow> (\<lambda>w. ((Continue, [], fs), w))
    | Some (t # ts) \<Rightarrow> handOut R K inp fs (t # ts)"
  let ?k = "\<lambda>r. case r of None \<Rightarrow> (\<lambda>w. ((Stop, [], fs), w))
    | Some (t # ts) \<Rightarrow> handOut R K inp fs (t # ts)
    | Some [] \<Rightarrow> if order = [] \<or> hd order = [] then (\<lambda>w. ((Stop, [], fs), w))
        else (\<lambda>w. case blockOn R K c n bc (hd order) w of (r', w3) \<Rightarrow> ?b r' w3)"
  have b: "tri K (some_claimed K r) (?b r) (round_post K)" for r
  proof (cases r)
    case None
    then show ?thesis using fetched_end by simp
  next
    case (Some ts)
    then show ?thesis
      using fetched_end weaken [OF handOut_tri]
      by (cases ts) (auto simp: some_claimed_def [abs_def])
  qed
  have blk: "tri K (\<lambda>_. ?P) (\<lambda>w. case blockOn R K c n bc (hd order) w of (r', w3) \<Rightarrow> ?b r' w3) (round_post K)"
    if "order \<noteq> []"
    by (rule weaken [OF rg.bind [OF blockOn_tri b]]) (use that in auto)
  have k: "tri K (\<lambda>d. some_claimed K r d \<and> ?P) (?k r) (round_post K)" for r
  proof (cases r)
    case None
    then show ?thesis using fetched_end by simp
  next
    case (Some ts)
    show ?thesis
    proof (cases ts)
      case Nil
      have "tri K (\<lambda>d. some_claimed K r d \<and> ?P)
          (\<lambda>w. case blockOn R K c n bc (hd order) w of (r', w3) \<Rightarrow> ?b r' w3) (round_post K)" if "order \<noteq> []"
        by (rule weaken [OF blk [OF that]]) simp
      then show ?thesis using Some Nil fetched_end by (cases "order = [] \<or> hd order = []") simp_all
    next
      case (Cons t ts')
      then have "tri K (\<lambda>d. some_claimed K r d \<and> ?P) (handOut R K inp fs (t # ts')) (round_post K)"
        using Some by (intro weaken [OF handOut_tri]) (simp add: some_claimed_def)
      then show ?thesis using Some Cons by simp
    qed
  qed
  have "tri K (\<lambda>_. ?P) (sweep R K c n sc order) (\<lambda>r d. some_claimed K r d \<and> ?P)"
    by (rule rg.conseq [OF rg.frame [OF sweep_tri, where F = "\<lambda>_. ?P"]]) auto
  from rg.bind [OF this k] show ?thesis
    by (rule back_subst [of "\<lambda>h. tri K (\<lambda>_. ?P) h (round_post K)"])
      (auto simp: fun_eq_iff split: prod.split option.split list.split)
qed

lemma fetchRound_tri:
  assumes "queues_ok cfg" "picker_ok (picker fs)"
  shows "tri K (\<lambda>_. True) (fetchRound R K cfg c inp fs) (round_post K)"
proof (cases "stopBefore inp")
  case True
  then show ?thesis unfolding fetchRound_def [abs_def] by (simp add: fetched_end)
next
  case False
  obtain order p where o: "roundOrder cfg (picker fs) = (order, p)" by fastforce
  have names: "\<forall>q \<in> set order. qname_ok q" using roundOrder_names [OF assms(2,1) o] by blast
  let ?n = "\<lambda>fs. batchSize (Concurrency cfg) (used fs + 1)"
  let ?order = "\<lambda>fs. filter (\<lambda>q. q \<notin> paused fs) order"
  have body: "tri K (\<lambda>_. True) (\<lambda>w1. if paused f \<noteq> {} \<and> ?order f = [] then ((Continue, [], f), w1)
      else (case sweep R K c (?n f) (sweepCancelled inp) (?order f) w1 of
         (None, w2) \<Rightarrow> ((Stop, [], f), w2)
       | (Some (t # ts), w2) \<Rightarrow> handOut R K inp f (t # ts) w2
       | (Some [], w2) \<Rightarrow>
           if ?order f = [] \<or> hd (?order f) = [] then ((Stop, [], f), w2)
           else (case blockOn R K c (?n f) (blockCancelled inp) (hd (?order f)) w2 of
                   (None, w3) \<Rightarrow> ((Stop, [], f), w3)
                 | (Some [], w3) \<Rightarrow> ((Continue, [], f), w3)
                 | (Some (t # ts), w3) \<Rightarrow> handOut R K inp f (t # ts) w3))) (round_post K)" for f
    by (rule rg.cond [OF fetched_end weaken [OF fetchRound_body]]) (use names in auto)
  have run: "fetchRound R K cfg c inp fs = (\<lambda>w. case refreshPaused R K (roundTime inp) (fs\<lparr>picker := p\<rparr>) w of
      (f, w1) \<Rightarrow> if paused f \<noteq> {} \<and> ?order f = [] then ((Continue, [], f), w1)
      else (case sweep R K c (?n f) (sweepCancelled inp) (?order f) w1 of
         (None, w2) \<Rightarrow> ((Stop, [], f), w2)
       | (Some (t # ts), w2) \<Rightarrow> handOut R K inp f (t # ts) w2
       | (Some [], w2) \<Rightarrow>
           if ?order f = [] \<or> hd (?order f) = [] then ((Stop, [], f), w2)
           else (case blockOn R K c (?n f) (blockCancelled inp) (hd (?order f)) w2 of
                   (None, w3) \<Rightarrow> ((Stop, [], f), w3)
                 | (Some [], w3) \<Rightarrow> ((Continue, [], f), w3)
                 | (Some (t # ts), w3) \<Rightarrow> handOut R K inp f (t # ts) w3)))"
    using False o by (simp add: fun_eq_iff fetchRound_def Let_def)
  show ?thesis unfolding run by (rule rg.bind [OF refreshPaused_tri body])
qed

lemma handOut_picker: "picker (snd (snd (fst (handOut R K inp fs ts w)))) = picker fs"
  by (simp add: handOut_def split: prod.split)

lemma fetchRound_picker:
  assumes "queues_ok cfg" "picker_ok (picker fs)"
  shows "picker_ok (picker (snd (snd (fst (fetchRound R K cfg c inp fs w)))))"
proof -
  obtain order p where o: "roundOrder cfg (picker fs) = (order, p)" by fastforce
  then have p: "picker_ok p" using roundOrder_names [OF assms(2,1)] by blast
  obtain f w1 where r: "refreshPaused R K (roundTime inp) (fs\<lparr>picker := p\<rparr>) w = (f, w1)" by fastforce
  have "picker f = p" using refreshPaused_picker [of K "roundTime inp" "fs\<lparr>picker := p\<rparr>" w] r by simp
  then have ok: "picker_ok (picker f)" "picker_ok (picker (snd (snd (fst (handOut R K inp f ts w')))))" for ts w'
    using p by (simp_all add: handOut_picker)
  show ?thesis
    using assms(2) ok by (simp add: fetchRound_def o r Let_def split: prod.split option.split list.split)
qed

subsection \<open>The other loops\<close>

lemma ensureGroups_tri: "tri K (\<lambda>_. \<forall>q \<in> set qs. qname_ok q) (ensureGroups R K qs) (onok whatever)"
proof (induction qs)
  case Nil
  have run: "ensureGroups R K [] = return ()" by (simp add: fun_eq_iff return_def)
  show ?case unfolding run by (rule rg.return) simp
next
  case (Cons q qs)
  have run: "ensureGroups R K (q # qs) = andthen (EnsureGroup R K q) (\<lambda>_. ensureGroups R K qs)"
    by (simp add: fun_eq_iff)
  show ?case
    unfolding run by (intro seq_any weaken [OF EnsureGroup_tri] weaken [OF Cons.IH]) auto
qed

lemma serverStart_tri: "tri K (\<lambda>_. queues_ok cfg) (serverStart R K cfg) (onok whatever)"
  unfolding serverStart_def
  by (auto intro!: rg.fail weaken [OF ensureGroups_tri] simp: queues_ok_def)

lemma extendLeases_tri:
  "tri K (\<lambda>_. \<forall>p \<in> set ps. qname_ok (fst p)) (\<lambda>w. ((), extendLeases R K c ps w)) whatever"
proof (induction ps)
  case Nil
  show ?case by (auto intro: rg.pure)
next
  case (Cons p ps)
  obtain q ns where p: "p = (q, ns)" by fastforce
  let ?P = "\<lambda>_. \<forall>p \<in> set (p # ps). qname_ok (fst p)"
  have e: "tri K ?P (ExtendLease R K q c ns) (onok whatever)"
    by (rule weaken [OF ExtendLease_tri]) (simp add: p)
  have IH: "tri K ?P (\<lambda>w. ((), extendLeases R K c ps w)) whatever" by (rule weaken [OF Cons.IH]) simp
  show ?case
    using rg.bind [OF ignored [OF e] IH] by (simp add: p)
qed

lemma byQueue_queues: "(q, ns) \<in> set (byQueue fl) \<Longrightarrow> \<exists>e \<in> set (map snd fl). i_queue e = q"
  by (auto simp: byQueue_def Let_def)

lemma beat_tri: "tri K (\<lambda>_. inflight_ok K fl) (\<lambda>w. ((), beat R K c fl t w)) whatever"
proof -
  let ?ks = "filter (\<lambda>k. k \<noteq> []) (map (i_uniqueKey \<circ> snd) fl)"
  have e: "tri K (\<lambda>_. inflight_ok K fl) (\<lambda>w. ((), extendLeases R K c (byQueue fl) w)) whatever"
    by (rule weaken [OF extendLeases_tri]) (fastforce simp: inflight_ok_def dest!: byQueue_queues)
  have u: "tri K (\<lambda>_. inflight_ok K fl) (RenewUnique R ?ks t) (onok whatever)"
    by (rule weaken [OF RenewUnique_tri]) (fastforce simp: inflight_ok_def unique_keys_def lock_ok_def)
  have k: "tri K (\<lambda>_. inflight_ok K fl) (if ?ks = [] then (\<lambda>w. ((), w)) else (\<lambda>w. ((), snd (RenewUnique R ?ks t w)))) whatever"
    using ignored_any [OF u] by (auto intro: rg.pure)
  have "tri K (\<lambda>_. inflight_ok K fl) (\<lambda>w. ((), extendLeases R K c (byQueue fl) w)) (\<lambda>_ _. inflight_ok K fl)"
    by (rule rg.conseq [OF rg.frame [OF e, where F = "\<lambda>_. inflight_ok K fl"]]) auto
  from rg.bind [OF this k] show ?thesis
    by (rule back_subst [of "\<lambda>h. tri K (\<lambda>_. inflight_ok K fl) h whatever"]) (auto simp: fun_eq_iff beat_def Let_def)
qed

lemma heartbeatTick_tri: "tri K (\<lambda>_. inflight_ok K fl) (\<lambda>w. ((), heartbeatTick R K cfg c fl w)) whatever"
  unfolding heartbeatTick_def by (rule beat_tri)

lemma forwarderTick_tri:
  "tri K (\<lambda>_. \<forall>q \<in> set qs. qname_ok q) (forwarderTick R K now cancelled qs) whatever"
proof (induction qs)
  case Nil
  have run: "forwarderTick R K now cancelled [] = (\<lambda>w. (Continue, w))" by (simp add: fun_eq_iff)
  show ?case unfolding run by (rule rg.pure) simp
next
  case (Cons q qs)
  let ?P = "\<forall>q \<in> set (q # qs). qname_ok q"
  have f: "tri K (\<lambda>_. ?P) (ForwardRetry R K q now n) (\<lambda>_ _. ?P)"
    "tri K (\<lambda>_. ?P) (ForwardScheduled R K q now n) (\<lambda>_ _. ?P)" for n
    by (rule rg.conseq [OF rg.frame [OF Forward_tri(1), where F = "\<lambda>_. ?P"]]; simp)
      (rule rg.conseq [OF rg.frame [OF Forward_tri(2), where F = "\<lambda>_. ?P"]]; simp)
  have stop: "tri K (\<lambda>_. ?P) (\<lambda>w. (Stop, w)) whatever" by (rule rg.pure) simp
  have IH: "tri K (\<lambda>_. ?P) (forwarderTick R K now cancelled qs) whatever" by (rule weaken [OF Cons.IH]) simp
  show ?case
    unfolding forwarderTick.simps(2) [abs_def]
    by (intro rg.bind [OF f(1)] rg.cond stop rg.bind [OF f(2)] IH)
qed

text \<open>A call of one queue, whose result decides what comes next.\<close>

lemma keep_const:
  assumes "tri K (\<lambda>_. b) f Q" "b' \<Longrightarrow> b"
  shows "tri K (\<lambda>_. b') f (\<lambda>_ _. b')"
  by (rule rg.conseq [OF rg.frame [OF assms(1), where F = "\<lambda>_. b'"]]) (use assms(2) in auto)

lemma recovererTick_tri:
  "tri K (\<lambda>_. \<forall>q \<in> set qs. qname_ok q) (recovererTick R K cfg c now cancelled qs) whatever"
proof (induction qs)
  case Nil
  have run: "recovererTick R K cfg c now cancelled [] = (\<lambda>w. ((Continue, []), w))" by (simp add: fun_eq_iff)
  show ?case unfolding run by (rule rg.pure) simp
next
  case (Cons q qs)
  let ?P = "\<forall>q \<in> set (q # qs). qname_ok q"
  let ?rest = "recovererTick R K cfg c now cancelled qs"
  let ?k = "\<lambda>(n, ar, r). case r of
      None \<Rightarrow> (\<lambda>w. case ?rest w of (p, w2) \<Rightarrow> ((fst p, concat (map (\<lambda>m. onDeadLetter cfg m errRecoveredExhausted) ar) @
        observeRecovered cfg q n (int (length ar)) @ snd p), w2))
    | Some e \<Rightarrow> if cancelled then (\<lambda>w. ((Stop, []), w)) else ?rest"
  have IH: "tri K (\<lambda>_. ?P) ?rest whatever" by (rule weaken [OF Cons.IH]) simp
  have r: "tri K (\<lambda>_. ?P) (Recover R K now q c (RecoverMinIdle cfg) recoverBatchSize) (\<lambda>_ _. ?P)"
    by (rule keep_const [OF Recover_tri]) (simp add: recoverBatchSize_def)
  have k: "tri K (\<lambda>_. ?P) (?k x) whatever" for x
  proof -
    have "tri K (\<lambda>_. ?P) (\<lambda>w. case ?rest w of (p, w2) \<Rightarrow> (f p, w2)) whatever" for f :: "control \<times> observation list \<Rightarrow> control \<times> observation list"
      by (rule rg.bind [OF IH]) (rule rg.pure, simp)
    moreover have "tri K (\<lambda>_. ?P) (\<lambda>w. ((Stop, []), w)) whatever" by (rule rg.pure) simp
    ultimately show ?thesis using IH by (auto split: prod.split option.split)
  qed
  have run: "recovererTick R K cfg c now cancelled (q # qs) = (\<lambda>w.
      case Recover R K now q c (RecoverMinIdle cfg) recoverBatchSize w of (x, w1) \<Rightarrow> ?k x w1)"
    by (rule ext) (auto split: prod.split option.split)
  show ?case unfolding run by (rule rg.bind [OF r k])
qed

lemma janitorTick_tri:
  "tri K (\<lambda>_. \<forall>q \<in> set qs. qname_ok q) (janitorTick R K cfg now cancelled qs) whatever"
proof (induction qs)
  case Nil
  have run: "janitorTick R K cfg now cancelled [] = (\<lambda>w. (Continue, w))" by (simp add: fun_eq_iff)
  show ?case unfolding run by (rule rg.pure) simp
next
  case (Cons q qs)
  let ?P = "\<forall>q \<in> set (q # qs). qname_ok q"
  have a: "tri K (\<lambda>_. ?P) (TrimArchived R K q t n janitorBatchSize) (\<lambda>_ _. ?P)"
    "tri K (\<lambda>_. ?P) (TrimCompleted R K q t n janitorBatchSize) (\<lambda>_ _. ?P)" for t n
    by (rule keep_const [OF Trim_tri(1)], simp add: janitorBatchSize_def)
      (rule keep_const [OF Trim_tri(2)], simp add: janitorBatchSize_def)
  have IH: "tri K (\<lambda>_. ?P) (janitorTick R K cfg now cancelled qs) whatever" by (rule weaken [OF Cons.IH]) simp
  have stop: "tri K (\<lambda>_. ?P) (\<lambda>w. (Stop, w)) whatever" by (rule rg.pure) simp
  show ?case
    unfolding janitorTick.simps(2) [abs_def]
    by (intro rg.sum_case [OF a(1)] rg.cond stop rg.sum_case [OF a(2)] IH)
qed

end

end
