(* ===== verification/Scheduler.thy ===== *)
theory Scheduler
  imports Client
begin

section \<open>Scheduler (scheduler.go)\<close>

text \<open>
  Registration of periodic jobs, leader election, the tick that enqueues due triggers and the
  upkeep of the registry.  The cron library is a parameter: \<open>Every\<close> and \<open>ParseStandard\<close> of a
  record \<open>cron\<close>; a parsed specification is either bound to a time zone or not.
\<close>

subsection \<open>Schedules\<close>

datatype Location = Local | Zone string

datatype parsed = SpecSchedule Location "Location \<Rightarrow> time \<Rightarrow> time" | OtherSchedule "time \<Rightarrow> time"

record cron =
  Every :: "duration \<Rightarrow> time \<Rightarrow> time"
  ParseStandard :: "string \<Rightarrow> parsed option"

record SchedulerConfig =
  c_Location :: "Location option"
  LeaderTTL :: duration

record scheduleEntry =
  e_id :: string
  e_kind :: string
  e_spec :: string
  e_payload :: bytes
  e_queue :: string
  e_maxRetry :: int
  e_noArch :: bool
  e_misfire :: MisfirePolicy
  e_retention :: duration
  e_schedule :: "time \<Rightarrow> time"

record Scheduler =
  s_cfg :: SchedulerConfig
  s_instance :: string
  s_entries :: "scheduleEntry list"
  s_isLeader :: bool

definition newScheduler :: "SchedulerConfig \<Rightarrow> string \<Rightarrow> Scheduler" where
  "newScheduler cfg uuid =
     \<lparr>s_cfg = cfg\<lparr>c_Location := (case c_Location cfg of None \<Rightarrow> Some Local | Some l \<Rightarrow> Some l),
                   LeaderTTL := (if LeaderTTL cfg \<le> 0 then 5 * Second else LeaderTTL cfg)\<rparr>,
      s_instance = uuid, s_entries = [], s_isLeader = False\<rparr>"

definition locationOf :: "Scheduler \<Rightarrow> Location" where
  "locationOf s = (case c_Location (s_cfg s) of None \<Rightarrow> Local | Some l \<Rightarrow> l)"

definition string_bytes :: "string \<Rightarrow> bytes" where
  "string_bytes s = map (\<lambda>c. word_of_nat (of_char c)) s"

definition scheduleID :: "string \<Rightarrow> string \<Rightarrow> string \<Rightarrow> bytes \<Rightarrow> string" where
  "scheduleID kind spec queue payload =
     kind @ '':'' @ spec @ ''#'' @ hex_encode (take 8 (Sum256 (string_bytes queue @ 0 # payload)))"

definition register ::
  "time \<Rightarrow> string \<Rightarrow> (time \<Rightarrow> time) \<Rightarrow> string \<Rightarrow> bytes \<Rightarrow> Option list \<Rightarrow> Scheduler \<Rightarrow> Scheduler" where
  "register now spec sched kind payload opts s =
     (let o' = apply_options now opts
      in s\<lparr>s_entries := s_entries s @
            [\<lparr>e_id = scheduleID kind spec (o_queue o') payload, e_kind = kind, e_spec = spec,
              e_payload = payload, e_queue = o_queue o', e_maxRetry = o_maxRetry o',
              e_noArch = o_noArchive o', e_misfire = o_misfire o', e_retention = o_retention o',
              e_schedule = sched\<rparr>]\<rparr>)"

text \<open>
  \<^verbatim>\<open>Duration.String\<close> of a duration of at least one second: hours, minutes and seconds, the seconds
  with a fraction of up to nine digits and no trailing zeros.
\<close>

definition frac_digits :: "nat \<Rightarrow> string" where
  "frac_digits ns = (if ns = 0 then [] else
     CHR ''.'' # rev (dropWhile (\<lambda>c. c = CHR ''0'')
       (map (\<lambda>i. digit (ns div 10 ^ i mod 10)) [0..<9])))"

definition duration_String :: "duration \<Rightarrow> string" where
  "duration_String d =
     (let ns = nat d; secs = ns div 1000000000; mins = secs div 60; hours = mins div 60;
          s = dec_nat (secs mod 60) @ frac_digits (ns mod 1000000000) @ ''s''
      in if mins = 0 then s
         else if hours = 0 then dec_nat mins @ ''m'' @ s
         else dec_nat hours @ ''h'' @ dec_nat (mins mod 60) @ ''m'' @ s)"

definition RegisterInterval ::
  "cron \<Rightarrow> time \<Rightarrow> duration \<Rightarrow> TaskArgs \<Rightarrow> Option list \<Rightarrow> Scheduler \<Rightarrow> err + Scheduler" where
  "RegisterInterval C now interval args opts s =
     (if interval < Second then Inl ErrInterval
      else case encodeArgs args of
        Inl e \<Rightarrow> Inl e
      | Inr payload \<Rightarrow>
          Inr (register now (''@every '' @ duration_String interval) (Every C interval)
                 (A_Kind args) payload opts s))"

fun resolveZone :: "Location \<Rightarrow> parsed \<Rightarrow> time \<Rightarrow> time" where
  "resolveZone loc (SpecSchedule l f) = f (if l = Local then loc else l)"
| "resolveZone loc (OtherSchedule f) = f"

definition RegisterCron ::
  "cron \<Rightarrow> time \<Rightarrow> string \<Rightarrow> TaskArgs \<Rightarrow> Option list \<Rightarrow> Scheduler \<Rightarrow> err + Scheduler" where
  "RegisterCron C now spec args opts s =
     (case ParseStandard C spec of
        None \<Rightarrow> Inl ErrCronSpec
      | Some sched \<Rightarrow>
          (case encodeArgs args of
             Inl e \<Rightarrow> Inl e
           | Inr payload \<Rightarrow>
               Inr (register now spec (resolveZone (locationOf s) sched) (A_Kind args) payload opts s)))"

subsection \<open>Registry\<close>

definition scheduleMetas :: "Scheduler \<Rightarrow> ScheduleMeta list" where
  "scheduleMetas s =
     map (\<lambda>e. \<lparr>S_ID = e_id e, S_Kind = e_kind e, S_Queue = e_queue e, S_Spec = e_spec e,
               RegisteredAt = 0, LastSeen = 0\<rparr>) (s_entries s)"

definition scheduleIDs :: "Scheduler \<Rightarrow> string list" where
  "scheduleIDs s = map e_id (s_entries s)"

definition staleAfter :: duration where
  "staleAfter = Minute"

definition pruneRegistry :: "redis \<Rightarrow> Keys \<Rightarrow> time \<Rightarrow> Scheduler \<Rightarrow> world \<Rightarrow> world" where
  "pruneRegistry R K now s w = snd (PruneSchedules R K (scheduleIDs s) (now - staleAfter) w)"

subsection \<open>Leadership\<close>

definition renewEvery :: "Scheduler \<Rightarrow> duration" where
  "renewEvery s =
     (let r = quot (LeaderTTL (s_cfg s)) 2 in if 20 * Second < r then 20 * Second else r)"

definition tryElect :: "redis \<Rightarrow> Keys \<Rightarrow> bool \<Rightarrow> Scheduler \<Rightarrow> world \<Rightarrow> Scheduler \<times> world" where
  "tryElect R K cancelled s w =
     (if cancelled then (s, w)
      else case AcquireOrRenewLeadership R K (s_instance s) (LeaderTTL (s_cfg s)) w of
             (Inl e, w') \<Rightarrow> (s, w')
           | (Inr ok, w') \<Rightarrow> (s\<lparr>s_isLeader := ok\<rparr>, w'))"

subsection \<open>Firing\<close>

definition triggerID :: "scheduleEntry \<Rightarrow> time \<Rightarrow> string" where
  "triggerID e trigger = e_id e @ '':'' @ dec_int (Unix trigger)"

definition triggerMessage :: "scheduleEntry \<Rightarrow> time \<Rightarrow> TaskMessage" where
  "triggerMessage e trigger =
     zeroMessage\<lparr>ID := triggerID e trigger, Kind := e_kind e, Payload := e_payload e,
       Queue := e_queue e, MaxRetry := e_maxRetry e, NoArchive := e_noArch e,
       Retention := quot (e_retention e) Second\<rparr>"

definition enqueueTrigger ::
  "redis \<Rightarrow> Keys \<Rightarrow> Scheduler \<Rightarrow> scheduleEntry \<Rightarrow> time \<Rightarrow> unit go" where
  "enqueueTrigger R K s e trigger =
     EnqueuePeriodic R K (triggerMessage e trigger) (triggerID e trigger)
       (int64 (10 * LeaderTTL (s_cfg s)))"

definition lastFiredOrInit ::
  "redis \<Rightarrow> Keys \<Rightarrow> scheduleEntry \<Rightarrow> time \<Rightarrow> world \<Rightarrow> time \<times> world" where
  "lastFiredOrInit R K e now w =
     (case GetLastFired R K (e_id e) w of
        (Inr (Some lst), w') \<Rightarrow> (lst, w')
      | (_, w') \<Rightarrow> (now, snd (SetLastFired R K (e_id e) now w')))"

text \<open>The triggers of one entry; the flag says whether one of them could not be enqueued.\<close>

fun fireAll ::
  "redis \<Rightarrow> Keys \<Rightarrow> Scheduler \<Rightarrow> scheduleEntry \<Rightarrow> time list \<Rightarrow> world \<Rightarrow> bool \<times> world" where
  "fireAll R K s e [] w = (False, w)"
| "fireAll R K s e (t # ts) w =
     (case enqueueTrigger R K s e t w of (r, w1) \<Rightarrow>
        (case fireAll R K s e ts w1 of (failed, w2) \<Rightarrow>
           (failed \<or> (r \<noteq> Inr () \<and> r \<noteq> Inl ErrDuplicateTask), w2)))"

definition fireEntry ::
  "redis \<Rightarrow> Keys \<Rightarrow> time \<Rightarrow> Scheduler \<Rightarrow> scheduleEntry \<Rightarrow> world \<Rightarrow> world" where
  "fireEntry R K now s e w =
     (case lastFiredOrInit R K e now w of (lst, w1) \<Rightarrow>
        (case computeFires (e_schedule e) lst now (e_misfire e) of (fires, newLast) \<Rightarrow>
           (case fireAll R K s e fires w1 of (failed, w2) \<Rightarrow>
              if failed \<or> newLast = lst then w2
              else snd (SetLastFired R K (e_id e) newLast w2))))"

definition fireDue :: "redis \<Rightarrow> Keys \<Rightarrow> time \<Rightarrow> Scheduler \<Rightarrow> world \<Rightarrow> world" where
  "fireDue R K now s w = fold (fireEntry R K now s) (s_entries s) w"

subsection \<open>The loop\<close>

text \<open>
  What wakes the loop, in the order of the \<^verbatim>\<open>select\<close>: the context, the renewal ticker, a
  resignation of another instance and the one-second ticker.
\<close>

datatype wakeup = CtxDone | RenewTick | ResignNotice | SecondTick

definition runStep ::
  "redis \<Rightarrow> Keys \<Rightarrow> time \<Rightarrow> bool \<Rightarrow> wakeup \<Rightarrow> Scheduler \<Rightarrow> world \<Rightarrow> Scheduler \<times> world" where
  "runStep R K now cancelled ev s w =
     (case ev of
        CtxDone \<Rightarrow> (s, w)
      | RenewTick \<Rightarrow>
          (case tryElect R K cancelled s w of (s', w1) \<Rightarrow>
             (let w2 = snd (TouchSchedules R K now (scheduleIDs s') w1)
              in (s', pruneRegistry R K now s' w2)))
      | ResignNotice \<Rightarrow> tryElect R K cancelled s w
      | SecondTick \<Rightarrow> if s_isLeader s then (s, fireDue R K now s w) else (s, w))"

definition schedulerStart ::
  "redis \<Rightarrow> Keys \<Rightarrow> time \<Rightarrow> bool \<Rightarrow> Scheduler \<Rightarrow> world \<Rightarrow> Scheduler \<times> world" where
  "schedulerStart R K now cancelled s w =
     (let w1 = snd (RegisterSchedules R K now (scheduleMetas s) w);
          w2 = pruneRegistry R K now s w1
      in tryElect R K cancelled s w2)"

text \<open>\<^verbatim>\<open>run\<close>: the wake-ups that the loop sees until the context ends it, each with its time.\<close>

fun run ::
  "redis \<Rightarrow> Keys \<Rightarrow> (time \<times> bool \<times> wakeup) list \<Rightarrow> Scheduler \<Rightarrow> world \<Rightarrow> Scheduler \<times> world" where
  "run R K [] s w = (s, w)"
| "run R K ((now, cancelled, ev) # evs) s w =
     (if ev = CtxDone then (s, w)
      else case runStep R K now cancelled ev s w of (s', w') \<Rightarrow> run R K evs s' w')"

definition schedulerShutdown :: "redis \<Rightarrow> Keys \<Rightarrow> Scheduler \<Rightarrow> world \<Rightarrow> world" where
  "schedulerShutdown R K s w =
     (if s_isLeader s then snd (ResignLeadership R K (s_instance s) w) else w)"

end
