(* ===== verification/Inspector.thy ===== *)
theory Inspector
  imports Scheduler
begin

section \<open>Inspector (inspector.go, namespace.go)\<close>

text \<open>
  The public read and administration interface on top of the stored state, and the namespace that
  fixes the key layout of all four kinds of objects.
\<close>

record QueueInfo =
  QI_Queue :: string
  QI_Pending :: int
  QI_Active :: int
  QI_Scheduled :: int
  QI_Retry :: int
  QI_Archived :: int
  QI_Completed :: int
  QI_Paused :: bool

definition queueInfo :: "string set \<Rightarrow> QueueStats \<Rightarrow> QueueInfo" where
  "queueInfo pausedNames st =
     \<lparr>QI_Queue = QS_Queue st, QI_Pending = QS_Pending st, QI_Active = QS_Active st,
      QI_Scheduled = QS_Scheduled st, QI_Retry = QS_Retry st, QI_Archived = QS_Archived st,
      QI_Completed = QS_Completed st, QI_Paused = QS_Queue st \<in> pausedNames\<rparr>"

fun queueInfos :: "redis \<Rightarrow> Keys \<Rightarrow> string set \<Rightarrow> string list \<Rightarrow> QueueInfo list go" where
  "queueInfos R K pausedNames [] w = (Inr [], w)"
| "queueInfos R K pausedNames (q # qs) w =
     andthen (queueStats R K q) (\<lambda>st.
     andthen (queueInfos R K pausedNames qs) (\<lambda>is.
     return (queueInfo pausedNames st # is))) w"

definition inspectorQueues :: "redis \<Rightarrow> Keys \<Rightarrow> QueueInfo list go" where
  "inspectorQueues R K =
     andthen (Queues R K) (\<lambda>qs.
     andthen (PausedQueues R K) (\<lambda>ps.
     queueInfos R K (set ps) qs))"

text \<open>The right arrow of the label of a group stage is the three bytes of its UTF-8 encoding.\<close>

definition stageLabel :: "ChainLink \<Rightarrow> string" where
  "stageLabel link =
     (if L_Group link \<noteq> []
      then ''group['' @ dec_nat (length (L_Group link)) @ '']'' @
           map char_of [226 :: nat, 134, 146] @ L_Kind link
      else L_Kind link)"

definition taskInfoFromMsg :: "TaskMessage \<Rightarrow> TaskInfo" where
  "taskInfoFromMsg m =
     \<lparr>TI_ID = ID m, TI_Kind = Kind m, TI_Queue = Queue m, TI_State = TaskState_String (State m),
      TI_Payload = Payload m, TI_Retried = Retried m, TI_MaxRetry = MaxRetry m,
      TI_LastErr = LastErr m, NextProcessAt = None,
      TI_CompletedAt = (if 0 < CompletedAt m then Some (CompletedAt m * Second) else None),
      ChainPending = int (length (Chain m)), TI_ChainIndex = ChainIndex m,
      ChainNext = map stageLabel (Chain m), TI_GroupID = GroupID m, TI_GroupPending = 0,
      TI_GroupQueue = GroupQueue m, HasResult = (Result m \<noteq> []),
      ResultSize = int (length (Result m))\<rparr>"

text \<open>\<^verbatim>\<open>time.Unix(int64(score), 0)\<close>: the conversion of a double truncates towards zero.\<close>

definition score_time :: "score \<Rightarrow> time" where
  "score_time x = (if 0 \<le> x then \<lfloor>x\<rfloor> else \<lceil>x\<rceil>) * Second"

definition ListTasks :: "redis \<Rightarrow> Keys \<Rightarrow> string \<Rightarrow> string \<Rightarrow> int \<Rightarrow> TaskInfo list go" where
  "ListTasks R K qname state limit =
     (case ZSetKeyForState K qname state of
        None \<Rightarrow> fail ErrInvalidState
      | Some zsetKey \<Rightarrow>
          andthen (ListZSetTasks R K qname zsetKey limit) (\<lambda>es.
          return (map (\<lambda>e. (taskInfoFromMsg (Z_Msg e))\<lparr>NextProcessAt := Some (score_time (Z_Score e))\<rparr>) es)))"

definition withScore :: "redis \<Rightarrow> Keys \<Rightarrow> string \<Rightarrow> string \<Rightarrow> TaskInfo \<Rightarrow> world \<Rightarrow> TaskInfo \<times> world" where
  "withScore R K qname taskID ti w =
     (case ZSetKeyForState K qname (TI_State ti) of
        None \<Rightarrow> (ti, w)
      | Some zsetKey \<Rightarrow>
          (case ZScore R zsetKey taskID w of
             (Inr (Some x), w') \<Rightarrow> (ti\<lparr>NextProcessAt := Some (score_time x)\<rparr>, w')
           | (_, w') \<Rightarrow> (ti, w')))"

definition withGroupPending ::
  "redis \<Rightarrow> Keys \<Rightarrow> TaskMessage \<Rightarrow> TaskInfo \<Rightarrow> world \<Rightarrow> TaskInfo \<times> world" where
  "withGroupPending R K msg ti w =
     (if GroupID msg \<noteq> [] \<and> GroupQueue msg \<noteq> [] then
        (case GroupPending R K (GroupQueue msg) (GroupID msg) w of
           (Inr n, w') \<Rightarrow> (ti\<lparr>TI_GroupPending := n\<rparr>, w')
         | (Inl e, w') \<Rightarrow> (ti, w'))
      else (ti, w))"

definition inspectorGetTask :: "redis \<Rightarrow> Keys \<Rightarrow> string \<Rightarrow> string \<Rightarrow> TaskInfo go" where
  "inspectorGetTask R K qname taskID w =
     (case GetTask R K qname taskID w of
        (Inl e, w1) \<Rightarrow> (Inl (if e = RedisNil then ErrTaskNotFound else e), w1)
      | (Inr msg, w1) \<Rightarrow>
          (case withScore R K qname taskID (taskInfoFromMsg msg) w1 of (ti, w2) \<Rightarrow>
             (case withGroupPending R K msg ti w2 of (ti', w3) \<Rightarrow> (Inr ti', w3))))"

record ScheduleInfo =
  SI_ID :: string
  SI_Kind :: string
  SI_Queue :: string
  SI_Spec :: string
  SI_LastFired :: "time option"
  SI_LastSeen :: "time option"
  Stale :: bool

record SchedulerStatus =
  SS_LeaderID :: string
  Schedules :: "ScheduleInfo list"

text \<open>The last of several entries with one identifier wins, as in a map that is filled in order.\<close>

definition firedAt :: "ScheduleFireInfo list \<Rightarrow> string \<Rightarrow> int option" where
  "firedAt fired = map_of (rev (map (\<lambda>f. (F_ID f, F_LastFired f)) fired))"

definition registryInfo :: "time \<Rightarrow> ScheduleFireInfo list \<Rightarrow> ScheduleMeta \<Rightarrow> ScheduleInfo" where
  "registryInfo now fired m =
     \<lparr>SI_ID = S_ID m, SI_Kind = S_Kind m, SI_Queue = S_Queue m, SI_Spec = S_Spec m,
      SI_LastFired = map_option (\<lambda>ts. ts * Second) (firedAt fired (S_ID m)),
      SI_LastSeen = Some (LastSeen m * Second),
      Stale = staleAfter < now - LastSeen m * Second\<rparr>"

definition historyInfo :: "ScheduleFireInfo \<Rightarrow> ScheduleInfo" where
  "historyInfo f =
     \<lparr>SI_ID = F_ID f, SI_Kind = [], SI_Queue = [], SI_Spec = [],
      SI_LastFired = Some (F_LastFired f * Second), SI_LastSeen = None, Stale = False\<rparr>"

definition mergeSchedules ::
  "time \<Rightarrow> ScheduleMeta list \<Rightarrow> ScheduleFireInfo list \<Rightarrow> ScheduleInfo list" where
  "mergeSchedules now registry fired =
     map (registryInfo now fired) registry @
     map historyInfo (filter (\<lambda>f. F_ID f \<notin> set (map S_ID registry)) fired)"

definition schedulerStatus :: "redis \<Rightarrow> Keys \<Rightarrow> time \<Rightarrow> SchedulerStatus go" where
  "schedulerStatus R K now =
     andthen (LeaderID R K) (\<lambda>leader.
     andthen (ListSchedules R K) (\<lambda>registry.
     andthen (ScanSchedules R K) (\<lambda>fired.
     return \<lparr>SS_LeaderID = leader, Schedules = mergeSchedules now registry fired\<rparr>)))"

subsection \<open>Namespaces\<close>

text \<open>All objects of a namespace use the same key layout.\<close>

record Namespace =
  n_keys :: Keys

definition NewNamespace :: "string \<Rightarrow> prefix_panic + Namespace" where
  "NewNamespace prefix' = (case NewKeys prefix' of Inl p \<Rightarrow> Inl p | Inr K \<Rightarrow> Inr \<lparr>n_keys = K\<rparr>)"

end
