(* ===== verification/Safe_Client.thy ===== *)
theory Safe_Client
  imports Safe_Server Inspector
begin

section \<open>The client, the builders, the scheduler and the inspector are safe\<close>

text \<open>
  The triples of the operations of chronos.go, chain.go, group.go, scheduler.go and inspector.go,
  from conditions on what the caller hands in: texts are UTF-8, queue names contain no closing
  brace, durations and retry budgets fit the fields that carry them.
\<close>

subsection \<open>What the caller hands in\<close>

fun option_ok :: "Option \<Rightarrow> bool" where
  "option_ok (WithQueue q) = (utf8_ok q \<and> qname_ok q)"
| "option_ok (WithTaskID i) = utf8_ok i"
| "option_ok (WithMaxRetry n) = small n"
| "option_ok (WithRetention d) = int64_ok d"
| "option_ok _ = True"

definition args_ok :: "TaskArgs \<Rightarrow> bool" where
  "args_ok a \<longleftrightarrow> utf8_ok (A_Kind a)"

definition options_ok :: "enqueueOptions \<Rightarrow> bool" where
  "options_ok o' \<longleftrightarrow> utf8_ok (o_queue o') \<and> qname_ok (o_queue o') \<and> utf8_ok (o_taskID o') \<and>
     small (o_maxRetry o') \<and> small (quot (o_retention o') Second)"

lemma small_quot: "int64_ok d \<Longrightarrow> small (quot d Second)"
proof -
  assume d: "int64_ok d"
  have "\<bar>d\<bar> div Second \<le> 2 ^ 63 div Second"
    using d by (intro zdiv_mono1) (auto simp: int64_ok_def Second_def)
  moreover have "0 \<le> \<bar>d\<bar> div Second" by (simp add: Second_def)
  ultimately show ?thesis by (auto simp: small_def quot_def sgn_if Second_def)
qed

lemma int64_ok_int64 [simp]: "int64_ok (int64 x)"
  by (auto simp: int64_ok_def int64_def)

lemma apply_options_ok:
  assumes "list_all option_ok opts"
  shows "options_ok (apply_options now opts)"
proof -
  have step: "options_ok (apply_option now opt o')" if "option_ok opt" "options_ok o'" for opt o'
    using that small_quot by (cases opt) (auto simp: options_ok_def small_def quot_def Second_def int64_ok_def)
  have "options_ok (fold (apply_option now) opts o')" if "options_ok o'" for o'
    using assms that
  proof (induction opts arbitrary: o')
    case (Cons opt opts)
    then show ?case using step by simp
  qed simp
  moreover have "options_ok defaultOptions"
    by (simp add: options_ok_def defaultOptions_def DefaultQueue_def DefaultMaxRetry_def qname_ok_def
        small_def quot_def)
  ultimately show ?thesis by (simp add: apply_options_def)
qed

lemma Until_ok: "int64_ok (Until now t)"
  by (auto simp: Until_def int64_ok_def)

lemma small_delay: "small (captureRelativeDelay now o')"
  using small_quot [OF int64_ok_int64]
  by (auto simp: captureRelativeDelay_def Let_def small_def split: option.split)

subsection \<open>Builders\<close>

fun chain_ok :: "Chain \<Rightarrow> bool" and stage_in_ok :: "chainStage \<Rightarrow> bool"
  and group_ok :: "Group \<Rightarrow> bool" and member_in_ok :: "groupMember \<Rightarrow> bool" where
  "chain_ok (MkChain ss) = (list_all stage_in_ok ss \<and> small (int (length ss)))"
| "stage_in_ok (TaskStage a opts) = (args_ok a \<and> list_all option_ok opts)"
| "stage_in_ok (GroupStage g) = (case g of None \<Rightarrow> True | Some g \<Rightarrow> group_ok g)"
| "group_ok (MkGroup ms cb) = (list_all member_in_ok ms \<and> small (int (length ms)) \<and>
     (case cb of None \<Rightarrow> True | Some (a, opts) \<Rightarrow> args_ok a \<and> list_all option_ok opts))"
| "member_in_ok (TaskMember a opts) = (args_ok a \<and> list_all option_ok opts)"
| "member_in_ok (ChainMember ch) = (case ch of None \<Rightarrow> True | Some ch \<Rightarrow> chain_ok ch)"

lemma resolveChainOptions_ok:
  "resolveChainOptions now opts = Inr o' \<Longrightarrow> list_all option_ok opts \<Longrightarrow> options_ok o'"
  using apply_options_ok by (auto simp: resolveChainOptions_def Let_def split: if_splits)

lemma snapshotChainLink_wf:
  assumes "snapshotChainLink now a opts b = Inr l" "args_ok a" "list_all option_ok opts"
  shows "link_wf l" "L_Group l = []"
  using assms(1) resolveChainOptions_ok [OF _ assms(3)] assms(2) small_delay
  by (auto simp: snapshotChainLink_def ebind_Inr options_ok_def args_ok_def link_wf_def link_ok_def
      split: if_splits)

lemma snapshotGroupMember_wf:
  assumes "snapshotGroupMember now j m = Inr l" "member_in_ok m"
  shows "member_wf l"
proof (cases m)
  case (TaskMember a opts)
  with assms(2) have "args_ok a" "list_all option_ok opts" by simp_all
  then show ?thesis
    using assms(1) TaskMember resolveChainOptions_ok [of now opts] small_delay
    by (auto simp: snapshotGroupMember_def ebind_Inr Let_def options_ok_def args_ok_def member_wf_def
        member_ok_def split: if_splits)
qed (use assms(1) in \<open>simp add: snapshotGroupMember_def located_def\<close>)

lemma mapE_wf:
  assumes "mapE f i xs = Inr ys" "\<And>j x y. x \<in> set xs \<Longrightarrow> f j x = Inr y \<Longrightarrow> P y"
  shows "list_all P ys" "length ys = length xs"
proof -
  show "length ys = length xs" using assms(1) by (simp add: mapE_Inr)
  show "list_all P ys"
    unfolding list_all_length
  proof (intro allI impI)
    fix n assume "n < length ys"
    then have "n < length xs" "f (i + n) (xs ! n) = Inr (ys ! n)" using assms(1) by (auto simp: mapE_Inr)
    then show "P (ys ! n)" using assms(2) nth_mem by blast
  qed
qed

lemma snapshotStage_wf:
  assumes "snapshotStage now n i st = Inr l" "stage_in_ok st"
  shows "link_wf l"
proof (cases st)
  case (TaskStage a opts)
  then show ?thesis using assms snapshotChainLink_wf [of now a opts] by (auto simp: snapshotStage_def Let_def)
next
  case (GroupStage g)
  with assms obtain g' cb cbo link ms where g: "g = Some g'" "callback g' = Some (cb, cbo)"
      "snapshotChainLink now cb cbo (i = n - 1) = Inr link"
      "mapE (snapshotGroupMember now) 0 (members g') = Inr ms" "l = link\<lparr>L_Group := ms\<rparr>"
    by (auto simp: snapshotStage_def snapshotGroupStage_def Let_def ebind_Inr split: option.splits if_splits)
  obtain mm where g': "g' = MkGroup mm (Some (cb, cbo))" using g(2) by (cases g') auto
  have ok: "list_all member_in_ok mm" "small (int (length mm))" "args_ok cb" "list_all option_ok cbo"
    using assms(2) GroupStage g(1) g' by simp_all
  have "list_all member_wf ms" "length ms = length mm"
    using mapE_wf [OF g(4), of member_wf] snapshotGroupMember_wf ok(1) g' by (auto simp: list_all_iff)
  then show ?thesis
    using snapshotChainLink_wf [OF g(3) ok(3,4)] g(5) ok(2)
    by (auto simp: link_wf_def link_ok_def member_wf_def list_all_iff)
qed

lemma snapshotTail_wf:
  assumes "snapshotTail now ch = Inr ls" "chain_ok ch" "stages ch \<noteq> []"
  shows "list_all link_wf ls" "small (int (length ls))"
proof -
  obtain ss where ch: "ch = MkChain ss" by (cases ch)
  have ok: "list_all stage_in_ok (tl ss)" "small (int (length ss))"
    using assms(2) ch by (cases ss; simp)+
  show "list_all link_wf ls"
  proof (rule mapE_wf)
    show "mapE (snapshotStage now (length ss)) 1 (tl ss) = Inr ls" using assms(1) ch by (simp add: snapshotTail_def)
    show "link_wf y" if "x \<in> set (tl ss)" "snapshotStage now (length ss) j x = Inr y" for j x y
      using snapshotStage_wf [OF that(2)] that(1) ok(1) by (simp add: list_all_iff)
  qed
  have "length ls = length ss - 1" using assms(1) ch by (auto simp: snapshotTail_def mapE_Inr)
  then show "small (int (length ls))" using ok(2) by (auto simp: small_def)
qed

lemma zeroMessage_simps [simp]:
  "UniqueLock zeroMessage = []" "LastErr zeroMessage = []" "State zeroMessage = 0" "Retried zeroMessage = 0"
  "CompletedAt zeroMessage = 0" "Chain zeroMessage = []" "ChainID zeroMessage = []" "ChainIndex zeroMessage = 0"
  "GroupID zeroMessage = []" "GroupQueue zeroMessage = []" "GroupCallback zeroMessage = None"
  "GroupIndex zeroMessage = 0" "GroupSize zeroMessage = 0" "GroupMemberID zeroMessage = []"
  "GroupCallbackChain zeroMessage = []"
  by (simp_all add: zeroMessage_def)

lemma int64_ok_0 [simp]: "int64_ok 0"
  by (simp add: int64_ok_def)

lemma lock_ok_Nil [simp]: "lock_ok K q []"
  by (simp add: lock_ok_def)

lemma link_wf_link_ok: "list_all link_wf ls \<Longrightarrow> list_all link_ok ls"
  by (auto simp: list_all_iff link_wf_def)

lemma firstLinkMessage_wf:
  assumes "utf8_ok c" "args_ok a" "options_ok o'" "list_all link_wf ls" "small (int (length ls))"
  shows "task_wf K (o_queue o') (firstLinkMessage c a p o' b ls)"
  using assms by (simp add: task_wf_def msg_ok_def firstLinkMessage_def options_ok_def args_ok_def link_wf_link_ok)

lemma prepareChain_wf:
  assumes "prepareChain now u ch = Inr (m, o')" "utf8_ok u" "chain_ok ch"
  shows "task_wf K (Queue m) m"
proof -
  obtain a opts rest ls p b where h: "stages ch = TaskStage a opts # rest" "snapshotTail now ch = Inr ls"
      "resolveChainOptions now opts = Inr o'" "m = firstLinkMessage u a p o' b ls"
    using assms(1) by (auto simp: prepareChain_def ebind_Inr split: list.splits chainStage.splits if_splits)
  have "args_ok a" "list_all option_ok opts" using assms(3) h(1) by (cases ch; simp)+
  moreover have "Queue m = o_queue o'" by (simp add: h(4) firstLinkMessage_def)
  ultimately show ?thesis
    using firstLinkMessage_wf [OF assms(2) _ resolveChainOptions_ok [OF h(3)]]
      snapshotTail_wf [OF h(2) assms(3)] h(1,4) by simp
qed

lemma snapshotForMember_wf:
  assumes "snapshotForMember now ch u = Inr (m, o')" "utf8_ok u" "case ch of None \<Rightarrow> True | Some c \<Rightarrow> chain_ok c"
  shows "task_wf K (Queue m) m \<and> GroupCallbackChain m = []"
proof -
  obtain c where c: "ch = Some c" "stages c \<noteq> []"
    using assms(1) by (auto simp: snapshotForMember_def split: option.splits if_splits)
  obtain a opts where t: "hd (stages c) = TaskStage a opts"
    using assms(1) c by (cases "hd (stages c)") (auto simp: snapshotForMember_def ebind_Inr split: if_splits)
  obtain ls p where h: "ch = Some c" "stages c \<noteq> []" "hd (stages c) = TaskStage a opts"
      "snapshotTail now c = Inr ls" "resolveChainOptions now opts = Inr o'"
      "m = firstLinkMessage u a p o' False ls"
    using assms(1) c t by (auto simp: snapshotForMember_def ebind_Inr split: if_splits)
  have "chain_ok c" using assms(3) h(1) by simp
  moreover have "args_ok a" "list_all option_ok opts"
    using \<open>chain_ok c\<close> h(2,3) by (cases c; cases "stages c"; auto)+
  moreover have "Queue m = o_queue o'" "GroupCallbackChain m = []" by (simp_all add: h(6) firstLinkMessage_def)
  ultimately show ?thesis
    using firstLinkMessage_wf [OF assms(2) _ resolveChainOptions_ok [OF h(5)]]
      snapshotTail_wf [OF h(4) _ h(2)] h(6) by simp
qed

lemma memberID_utf8 [simp]: "utf8_ok g \<Longrightarrow> utf8_ok (memberID g i)"
  by (simp add: memberID_def)

lemma prepareMember_wf:
  assumes "prepareMember now g n cb i mb = Inr (m, o')" "utf8_ok g" "member_in_ok mb" "link_wf cb"
    "small (int i)" "small (int n)"
  shows "task_wf K (Queue m) m"
proof -
  have cb: "link_ok cb" "utf8_ok (L_Queue cb)" "qname_ok (L_Queue cb)"
    using assms(4) by (simp_all add: link_wf_def link_ok_def)
  show ?thesis
  proof (cases mb)
    case (TaskMember a opts)
    then obtain p where h: "resolveChainOptions now opts = Inr o'"
        "m = zeroMessage\<lparr>ID := memberID g i, Kind := A_Kind a, Payload := p,
               Queue := o_queue o', MaxRetry := o_maxRetry o',
               Retention := quot (o_retention o') Second, GroupID := g,
               GroupQueue := L_Queue cb, GroupCallback := Some cb,
               GroupIndex := int i, GroupSize := int n\<rparr>"
      using assms(1) by (auto simp: prepareMember_def ebind_Inr split: if_splits)
    have "args_ok a" "list_all option_ok opts" using assms(3) TaskMember by simp_all
    then show ?thesis
      using resolveChainOptions_ok [OF h(1)] assms cb
      by (simp add: h(2) task_wf_def msg_ok_def options_ok_def args_ok_def)
  next
    case (ChainMember ch)
    then obtain m' where h: "snapshotForMember now ch (memberID g i) = Inr (m', o')"
        "m = m'\<lparr>GroupID := g, GroupQueue := L_Queue cb, GroupCallback := Some cb, GroupIndex := int i,
               GroupSize := int n, GroupMemberID := memberID g i\<rparr>"
      using assms(1) by (auto simp: prepareMember_def ebind_Inr split: if_splits)
    have "task_wf K (Queue m') m'"
      using snapshotForMember_wf [OF h(1)] assms(2,3) ChainMember by simp
    then show ?thesis
      using assms cb by (simp add: h(2) task_wf_def msg_ok_def)
  qed
qed

lemma prepareGroup_wf:
  assumes "prepareGroup now g gr = Inr (cb, ps)" "utf8_ok g" "group_ok gr"
  shows "link_wf cb" "\<forall>(m, o') \<in> set ps. task_wf K (Queue m) m"
proof -
  obtain ms cba where gr: "gr = MkGroup ms cba" by (cases gr)
  obtain c co where h: "cba = Some (c, co)" "snapshotChainLink now c co True = Inr cb"
      "mapE (prepareMember now g (length ms) cb) 0 ms = Inr ps"
    using assms(1) gr by (auto simp: prepareGroup_def ebind_Inr split: if_splits option.splits)
  have ok: "list_all member_in_ok ms" "small (int (length ms))" "args_ok c" "list_all option_ok co"
    using assms(3) gr h(1) by simp_all
  show cb: "link_wf cb" by (rule snapshotChainLink_wf(1) [OF h(2) ok(3,4)])
  show "\<forall>(m, o') \<in> set ps. task_wf K (Queue m) m"
  proof (clarify)
    fix m o' assume "(m, o') \<in> set ps"
    then obtain j where j: "j < length ps" "ps ! j = (m, o')" by (auto simp: in_set_conv_nth)
    then have l: "j < length ms" and p: "prepareMember now g (length ms) cb j (ms ! j) = Inr (m, o')"
      using h(3) by (auto simp: mapE_Inr)
    have "small (int j)" using ok(2) l by (simp add: small_def)
    moreover have "member_in_ok (ms ! j)" using ok(1) l by (simp add: list_all_length)
    ultimately show "task_wf K (Queue m) m" using prepareMember_wf [OF p assms(2) _ cb _ ok(2)] by simp
  qed
qed

lemma clientMessage_wf:
  assumes "utf8_ok u" "args_ok a" "options_ok o'"
  shows "task_wf K (o_queue o') (clientMessage u a p o')"
  using assms by (simp add: task_wf_def msg_ok_def clientMessage_def options_ok_def args_ok_def)

definition entry_ok :: "scheduleEntry \<Rightarrow> bool" where
  "entry_ok e \<longleftrightarrow> utf8_ok (e_id e) \<and> utf8_ok (e_kind e) \<and> utf8_ok (e_queue e) \<and> qname_ok (e_queue e) \<and>
     int64_ok (e_maxRetry e) \<and> int64_ok (quot (e_retention e) Second)"

subsection \<open>Client and builders\<close>

context redis_laws
begin

lemma dispatchMessage_tri:
  "tri K (\<lambda>_. utf8_ok (prefix K) \<and> task_wf K (Queue m) m) (dispatchMessage R K now m o') (onok whatever)"
  unfolding dispatchMessage_def Let_def
  by (auto split: option.split intro: EnqueueUnique_tri ScheduleUnique_tri weaken [OF Enqueue_tri] weaken [OF Schedule_tri])

lemma clientEnqueue_tri:
  "tri K (\<lambda>_. utf8_ok (prefix K) \<and> utf8_ok u \<and> args_ok a \<and> list_all option_ok opts)
    (clientEnqueue R K now u a opts) (onok whatever)"
proof (cases "encodeArgs a")
  case (Inr p)
  let ?o = "apply_options now opts"
  have "Queue (clientMessage u a p ?o) = o_queue ?o" by (simp add: clientMessage_def)
  then show ?thesis
    unfolding clientEnqueue_def Let_def Inr sum.case
    using clientMessage_wf [OF _ _ apply_options_ok, of u a opts]
    by (intro seq_any weaken [OF dispatchMessage_tri] rg.return) auto
qed (auto simp: clientEnqueue_def intro: rg.fail)

lemma chainEnqueue_tri:
  "tri K (\<lambda>_. utf8_ok (prefix K) \<and> utf8_ok u \<and> chain_ok ch) (chainEnqueue R K now u ch) (onok whatever)"
proof (cases "prepareChain now u ch")
  case (Inr p)
  obtain m o' where p: "p = (m, o')" by fastforce
  show ?thesis
    unfolding chainEnqueue_def Inr p sum.case prod.case
    using prepareChain_wf [of now u ch m o'] Inr p
    by (intro seq_any weaken [OF dispatchMessage_tri] rg.return) auto
qed (auto simp: chainEnqueue_def intro: rg.fail)

lemma dispatchMembers_tri:
  "tri K (\<lambda>_. utf8_ok (prefix K) \<and> (\<forall>(m, o') \<in> set ps. task_wf K (Queue m) m))
    (dispatchMembers R K now i ps) (onok whatever)"
proof (induction ps arbitrary: i)
  case Nil
  have run: "dispatchMembers R K now i [] = return ()" by (simp add: fun_eq_iff return_def)
  show ?case unfolding run by (rule rg.return) simp
next
  case (Cons p ps)
  obtain m o' where p: "p = (m, o')" by fastforce
  have run: "dispatchMembers R K now i (p # ps) = (\<lambda>w. case dispatchMessage R K now m o' w of
      (Inl e, w1) \<Rightarrow> (Inl (ErrAt ''group member'' i e), w1) | (Inr _, w1) \<Rightarrow> dispatchMembers R K now (Suc i) ps w1)"
    by (rule ext) (simp add: p)
  show ?case
    unfolding run
    by (intro located_step weaken [OF dispatchMessage_tri] weaken [OF Cons.IH]) (auto simp: p)
qed

lemma groupEnqueue_tri:
  "tri K (\<lambda>_. utf8_ok (prefix K) \<and> utf8_ok g \<and> group_ok gr) (groupEnqueue R K now g gr) (onok whatever)"
proof (cases "prepareGroup now g gr")
  case (Inr p)
  obtain cb ps where p: "p = (cb, ps)" by fastforce
  have q: "qname_ok (L_Queue cb)" if "utf8_ok g" "group_ok gr"
    using prepareGroup_wf(1) [of now g gr cb ps] Inr p that by (simp add: link_wf_def)
  have m: "\<forall>(m, o') \<in> set ps. task_wf K (Queue m) m" if "utf8_ok g" "group_ok gr"
    using prepareGroup_wf(2) [of now g gr cb ps] Inr p that by simp
  show ?thesis
    unfolding groupEnqueue_def Inr p sum.case prod.case Let_def
    by (intro seq_any weaken [OF CreateGroup_tri] weaken [OF dispatchMembers_tri] rg.return)
      (use q m in auto)
qed (auto simp: groupEnqueue_def intro: rg.fail)

subsection \<open>Scheduler\<close>

lemma triggerMessage_wf: "entry_ok e \<Longrightarrow> task_wf K (e_queue e) (triggerMessage e t)"
  by (simp add: entry_ok_def task_wf_def msg_ok_def triggerMessage_def triggerID_def)

lemma ignore_any: "tri K P f Q \<Longrightarrow> tri K P (\<lambda>w. ((), snd (f w))) whatever"
  by (rule rg.ignore) auto

lemma lastFiredOrInit_tri: "tri K (\<lambda>_. True) (lastFiredOrInit R K e now) whatever"
proof -
  let ?k = "\<lambda>r. case r of Inr (Some lst) \<Rightarrow> (\<lambda>w. (lst, w)) | _ \<Rightarrow> (\<lambda>w. (now, snd (SetLastFired R K (e_id e) now w)))"
  have s: "tri K (\<lambda>_. True) (\<lambda>w. (now, snd (SetLastFired R K (e_id e) now w))) whatever"
    by (rule ignored_any [OF SetLastFired_tri]) simp
  have g: "tri K (\<lambda>_. True) (\<lambda>w. (l, w)) whatever" for l :: time by (rule rg.pure) simp
  have k: "tri K (\<lambda>_. True) (?k r) whatever" for r
    using s g by (auto split: sum.split option.split)
  from rg.bind [OF rg.any [OF GetLastFired_tri [of K "\<lambda>_. True" "e_id e"]] k] show ?thesis
    by (rule back_subst [of "\<lambda>h. tri K (\<lambda>_. True) h whatever"])
      (auto simp: fun_eq_iff lastFiredOrInit_def split: prod.split sum.split option.split)
qed

lemma fireAll_tri: "tri K (\<lambda>_. entry_ok e) (fireAll R K s e ts) whatever"
proof (induction ts)
  case Nil
  have run: "fireAll R K s e [] = (\<lambda>w. (False, w))" by (simp add: fun_eq_iff)
  show ?case unfolding run by (rule rg.pure) simp
next
  case (Cons t ts)
  have e: "tri K (\<lambda>_. entry_ok e) (enqueueTrigger R K s e t) (\<lambda>_ _. entry_ok e)"
    unfolding enqueueTrigger_def
    by (rule keep_const [OF EnqueuePeriodic_tri]) (use triggerMessage_wf in \<open>simp add: triggerMessage_def\<close>)
  show ?case
    unfolding fireAll.simps(2) [abs_def]
    by (rule rg.bind [OF e], rule rg.bind [OF Cons.IH], rule rg.pure) simp
qed

lemma fireEntry_tri: "tri K (\<lambda>_. entry_ok e) (\<lambda>w. ((), fireEntry R K now s e w)) whatever"
proof -
  let ?k = "\<lambda>lst w. case computeFires (e_schedule e) lst now (e_misfire e) of (fires, newLast) \<Rightarrow>
      (case fireAll R K s e fires w of (failed, w2) \<Rightarrow>
         ((), if failed \<or> newLast = lst then w2 else snd (SetLastFired R K (e_id e) newLast w2)))"
  have k: "tri K (\<lambda>_. entry_ok e) (?k lst) whatever" for lst
  proof -
    obtain fires newLast where f: "computeFires (e_schedule e) lst now (e_misfire e) = (fires, newLast)" by fastforce
    let ?set = "\<lambda>failed w. if failed \<or> newLast = lst then ((), w)
        else ((), snd (SetLastFired R K (e_id e) newLast w))"
    have "tri K (\<lambda>_. True) (?set failed) whatever" for failed
      by (rule rg.cond [OF rg.pure ignore_any [OF SetLastFired_tri]]) simp
    from rg.bind [OF fireAll_tri [of K e s fires], where k = ?set, OF this] show ?thesis
      by (rule back_subst [of "\<lambda>h. tri K (\<lambda>_. entry_ok e) h whatever"])
        (auto simp: fun_eq_iff f split: prod.split)
  qed
  have "tri K (\<lambda>_. entry_ok e) (lastFiredOrInit R K e now) (\<lambda>_ _. entry_ok e)"
    by (rule keep_const [OF lastFiredOrInit_tri]) simp
  from rg.bind [OF this, where k = ?k, OF k] show ?thesis
    by (rule back_subst [of "\<lambda>h. tri K (\<lambda>_. entry_ok e) h whatever"])
      (auto simp: fun_eq_iff fireEntry_def split: prod.split)
qed

lemma fireDue_tri: "tri K (\<lambda>_. list_all entry_ok (s_entries s)) (\<lambda>w. ((), fireDue R K now s w)) whatever"
proof -
  have "tri K (\<lambda>_. list_all entry_ok es) (\<lambda>w. ((), fold (fireEntry R K now s) es w)) whatever" for es
  proof (induction es)
    case Nil
    show ?case by (auto intro: rg.pure)
  next
    case (Cons e es)
    have "tri K (\<lambda>_. list_all entry_ok (e # es)) (\<lambda>w. ((), fireEntry R K now s e w)) (\<lambda>_ _. list_all entry_ok (e # es))"
      by (rule keep_const [OF fireEntry_tri]) simp
    from rg.bind [OF this weaken [OF Cons.IH]] show ?case by simp
  qed
  then show ?thesis unfolding fireDue_def .
qed

lemma tryElect_tri: "tri K (\<lambda>_. True) (tryElect R K cancelled s) whatever"
  unfolding tryElect_def [abs_def]
  by (intro rg.cond rg.sum_case [OF rg.any [OF AcquireOrRenewLeadership_tri]] rg.pure) simp_all

lemma tryElect_entries: "s_entries (fst (tryElect R K cancelled s w)) = s_entries s"
  by (auto simp: tryElect_def split: prod.split sum.split)

lemma pruneRegistry_tri: "tri K (\<lambda>_. True) (\<lambda>w. ((), pruneRegistry R K now s w)) whatever"
  unfolding pruneRegistry_def by (rule ignore_any [OF PruneSchedules_tri])

lemma runStep_tri:
  "tri K (\<lambda>_. list_all entry_ok (s_entries s)) (runStep R K now cancelled ev s) whatever"
proof (cases ev)
  case RenewTick
  have "tri K (\<lambda>_. True) (\<lambda>w. (s', pruneRegistry R K now s' (snd (TouchSchedules R K now ids w)))) whatever" for s' ids
    using rg.bind [OF ignore_any [OF TouchSchedules_tri [of K now ids]]
      rg.bind [OF pruneRegistry_tri [of K now s'] rg.pure [where r = s' and Q = whatever]]] by simp
  from rg.bind [OF tryElect_tri [of K cancelled s], where k = "\<lambda>s' w. (s', pruneRegistry R K now s'
      (snd (TouchSchedules R K now (scheduleIDs s') w)))", OF this]
  have "tri K (\<lambda>_. True) (runStep R K now cancelled RenewTick s) whatever"
    by (simp add: runStep_def [abs_def] Let_def)
  then show ?thesis using RenewTick by (auto elim: weaken)
next
  case SecondTick
  have "tri K (\<lambda>_. list_all entry_ok (s_entries s)) (\<lambda>w. (s, fireDue R K now s w)) whatever"
    using rg.bind [OF fireDue_tri [of K s now] rg.pure [where r = s and Q = whatever]] by simp
  then have "tri K (\<lambda>_. list_all entry_ok (s_entries s))
      (\<lambda>w. if s_isLeader s then (s, fireDue R K now s w) else (s, w)) whatever"
    by (rule rg.cond) (rule rg.pure, simp)
  then show ?thesis using SecondTick by (simp add: runStep_def [abs_def])
qed (auto simp: runStep_def [abs_def] intro: rg.pure weaken [OF tryElect_tri])

lemma runStep_entries: "s_entries (fst (runStep R K now cancelled ev s w)) = s_entries s"
  using tryElect_entries by (auto simp: runStep_def Let_def split: wakeup.split prod.split) (metis fst_conv)+

lemma run_tri: "tri K (\<lambda>_. list_all entry_ok (s_entries s)) (run R K evs s) whatever"
proof (induction evs arbitrary: s)
  case Nil
  have run: "run R K [] s = (\<lambda>w. (s, w))" by (simp add: fun_eq_iff)
  show ?case unfolding run by (rule rg.pure) simp
next
  case (Cons e evs)
  obtain now c ev where e: "e = (now, c, ev)" by (cases e)
  let ?P = "list_all entry_ok (s_entries s)"
  have step: "tri K (\<lambda>_. ?P) (runStep R K now c ev s) (\<lambda>_ _. ?P)"
    by (rule keep_const [OF runStep_tri])
  have "tri K (\<lambda>_. ?P) (\<lambda>w. case runStep R K now c ev s w of (s', w') \<Rightarrow> run R K evs s' w') whatever"
  proof (rule rg.bind_result [OF step, where T = "\<lambda>s'. s_entries s' = s_entries s"])
    show "tri K (\<lambda>_. ?P) (run R K evs s') whatever" if "s_entries s' = s_entries s" for s'
      by (rule weaken [OF Cons.IH]) (simp add: that)
  qed (rule runStep_entries)
  then show ?case by (cases "ev = CtxDone") (auto simp: e intro: rg.pure)
qed

lemma schedulerStart_tri: "tri K (\<lambda>_. True) (schedulerStart R K now cancelled s) whatever"
  using rg.bind [OF ignore_any [OF RegisterSchedules_tri [of K now "scheduleMetas s"]]
    rg.bind [OF pruneRegistry_tri [of K now s] tryElect_tri [of K cancelled s]]]
  by (simp add: schedulerStart_def [abs_def] Let_def)

lemma schedulerShutdown_tri: "tri K (\<lambda>_. True) (\<lambda>w. ((), schedulerShutdown R K s w)) whatever"
  unfolding schedulerShutdown_def
  using ignore_any [OF ResignLeadership_tri [of K "\<lambda>_. True" "s_instance s"]] by (cases "s_isLeader s") (auto intro: rg.pure)

subsection \<open>Inspector\<close>

lemma ListTasks_tri: "tri K (\<lambda>_. qname_ok q) (ListTasks R K q st n) (onok whatever)"
  unfolding ListTasks_def
  by (auto split: option.split intro!: rg.fail seq_any ListZSetTasks_tri rg.return)

lemma withScore_tri: "tri K (\<lambda>_. qname_ok q) (withScore R K q i ti) whatever"
proof (cases "ZSetKeyForState K q (TI_State ti)")
  case None
  then show ?thesis by (auto simp: withScore_def [abs_def] intro: rg.pure)
next
  case (Some z)
  have "tri K (\<lambda>_. True) (\<lambda>w. (case r of Inr (Some x) \<Rightarrow> ti\<lparr>NextProcessAt := Some (score_time x)\<rparr> | _ \<Rightarrow> ti, w)) whatever"
    for r :: "err + score option" by (rule rg.pure) simp
  from rg.bind [OF rg.any [OF ZScore_tri [OF Some, of i]] this] show ?thesis
    by (rule back_subst [of "\<lambda>h. tri K (\<lambda>_. qname_ok q) h whatever"])
      (auto simp: fun_eq_iff withScore_def Some split: prod.split sum.split option.split)
qed

lemma withGroupPending_tri: "tri K (\<lambda>_. qname_ok (GroupQueue m)) (withGroupPending R K m ti) whatever"
  unfolding withGroupPending_def [abs_def]
  by (intro rg.cond rg.sum_case [OF rg.any [OF GroupPending_tri]] rg.pure) simp_all

lemma inspectorGetTask_tri: "tri K (\<lambda>_. qname_ok q) (inspectorGetTask R K q i) (onok whatever)"
  unfolding inspectorGetTask_def [abs_def]
proof (rule rg.sum_case [OF GetTask_known])
  fix e :: err
  show "tri K (\<lambda>_. qname_ok q \<and> (\<forall>m. Inl e = Inr m \<longrightarrow> task_wf K q m))
      (\<lambda>w. (Inl (if e = RedisNil then ErrTaskNotFound else e), w)) (onok whatever)"
    by (rule rg.pure) simp
next
  fix m :: TaskMessage
  let ?P = "qname_ok q \<and> (\<forall>m'. (Inr m :: err + TaskMessage) = Inr m' \<longrightarrow> task_wf K q m')"
  have s: "tri K (\<lambda>_. ?P) (withScore R K q i ti) (\<lambda>_ _. ?P)" for ti
    by (rule keep_const [OF withScore_tri]) simp
  have g: "tri K (\<lambda>_. ?P) (withGroupPending R K m ti) whatever" for ti
    by (rule weaken [OF withGroupPending_tri]) (simp add: task_wf_def)
  show "tri K (\<lambda>_. ?P) (\<lambda>w. case withScore R K q i (taskInfoFromMsg m) w of (ti, w2) \<Rightarrow>
      (case withGroupPending R K m ti w2 of (ti', w3) \<Rightarrow> (Inr ti', w3))) (onok whatever)"
    by (rule rg.bind [OF s], rule rg.bind [OF g], rule rg.pure) simp
qed

lemma schedulerStatus_tri:
  "tri K (\<lambda>_. CHR ''*'' \<notin> set (prefix K)) (schedulerStatus R K now) (onok whatever)"
  unfolding schedulerStatus_def
  by (intro seq_any weaken [OF LeaderID_tri] weaken [OF ListSchedules_tri] ScanSchedules_tri rg.return) simp_all

end

end
