(* ===== verification/Delivery.thy ===== *)
theory Delivery
  imports Safe_Core
begin

section \<open>Delivery of a task\<close>

text \<open>
  What the queue operations do when a process runs undisturbed: a task that is stored is handed to
  a consumer, in the order of the stream; a task that is acknowledged is gone; a task that failed
  waits in the retry set and comes back when it is due.
\<close>

subsection \<open>Runs of the operations\<close>

text \<open>The world after a queue has been registered.\<close>

definition known :: "Keys \<Rightarrow> string \<Rightarrow> world \<Rightarrow> world" where
  "known K q w = (if q \<in> knownQueues w then w
     else (stepped (sput (QueuesKey K) [q] (db w)) w)\<lparr>knownQueues := insert q (knownQueues w)\<rparr>)"

text \<open>What a batch of stream entries yields: the decodable bodies as tasks, the entries without a body.\<close>

definition deliverable :: "Keys \<Rightarrow> string \<Rightarrow> keyspace \<Rightarrow> (sid \<times> string) list \<Rightarrow> Dequeued list" where
  "deliverable K q d es = List.map_filter (\<lambda>(n, v).
     map_option (\<lambda>m. \<lparr>Msg = m\<lparr>State := StateActive\<rparr>, StreamID = n\<rparr>) (Option.bind (body K q v d) decode_body)) es"

definition orphaned :: "Keys \<Rightarrow> string \<Rightarrow> keyspace \<Rightarrow> (sid \<times> string) list \<Rightarrow> sid list" where
  "orphaned K q d es = map fst (filter (\<lambda>(n, v). body K q v d = None) es)"

lemma known_simps [simp]:
  "events (known K q w) = events w" "rk \<noteq> KQueues \<Longrightarrow> rkey_ok rk \<Longrightarrow> db (known K q w) (render K rk) = db w (render K rk)"
  by (simp_all add: known_def key_render)

lemma wt_known [simp]: "wt K (db w) \<Longrightarrow> wt K (db (known K q w))"
  by (simp add: known_def key_render)

lemma known_parts [simp]:
  "qname_ok q \<Longrightarrow> strm K q (db (known K r w)) = strm K q (db w)"
  "qname_ok q \<Longrightarrow> body K q i (db (known K r w)) = body K q i (db w)"
  by (simp_all add: strm_def body_def key_render)

lemma collect_spec:
  "collect es (map (\<lambda>(i, v). Inr (body K q v d)) es) = (deliverable K q d es, orphaned K q d es)"
  by (induction es) (auto simp: deliverable_def orphaned_def map_filter_simps split: option.split)

lemma strm_drop [simp]:
  "strm K q (drop_entry K q ns d) = s_del ns (s_ack ConsumerGroup ns (strm K q d))"
  by (simp add: drop_entry_def strm_def)

lemma body_drop [simp]: "qname_ok q \<Longrightarrow> body K q i (drop_entry K q ns d) = body K q i d"
  by (simp add: drop_entry_def body_def key_render)

lemma activated:
  assumes "qname_ok q"
  shows "body K q i (fold (set_state K q st) is d) = body K q i d"
    and "strm K q (fold (set_state K q st) is d) = strm K q d"
    and "i \<in> set is \<Longrightarrow> e_hash (fold (set_state K q st) is d (TaskKey K q i)) ''state'' = Some (Num st)"
proof -
  show "body K q i (fold (set_state K q st) is d) = body K q i d"
    using assms by (induction "is" arbitrary: d) (auto simp: body_def set_state_def effect_defs)
  show "strm K q (fold (set_state K q st) is d) = strm K q d"
    using assms by (induction "is" arbitrary: d) (auto simp: strm_def set_state_def key_render)
  have keep: "e_hash (fold (set_state K q st) js d (TaskKey K q i)) ''state'' = Some (Num st)"
    if "e_hash (d (TaskKey K q i)) ''state'' = Some (Num st)" for js d
    using that assms by (induction js arbitrary: d) (auto simp: set_state_def effect_defs)
  show "i \<in> set is \<Longrightarrow> e_hash (fold (set_state K q st) is d (TaskKey K q i)) ''state'' = Some (Num st)"
    by (induction "is" arbitrary: d) (auto simp: keep set_state_def)
qed

context redis_laws
begin

lemma registerQueue_calm: "calm w \<Longrightarrow> wt K (db w) \<Longrightarrow> registerQueue R K q w = (Inr (), known K q w)"
  using registerQueue_run by (simp add: registerQueue_def known_def)

lemma Enqueue_calm:
  assumes "calm w" "wt K (db w)" "qname_ok (Queue m)"
  shows "Enqueue R K m w = (Inr (), stepped (unlist K (Queue m) (ID m) (xpush R (StreamKey K (Queue m)) (ID m)
    (store K (Queue m) (ID m) (Doc (EncodeMessage (m\<lparr>State := StatePending\<rparr>))) StatePending
      (db (known K (Queue m) w))))) (known K (Queue m) w))"
  using assms enqueueCmd_run [OF wt_known]
  by (simp add: Enqueue_def registerQueue_calm)

lemma run_all_activate:
  assumes "wt K d" "qname_ok q"
  shows "run_all (map (\<lambda>t. HSET R (TaskKey K q (ID (Msg t))) [(''state'', Num StateActive)]) ts) d =
    (map (\<lambda>_. Inr ()) ts, fold (set_state K q StateActive) (map (ID \<circ> Msg) ts) d) \<and>
    wt K (fold (set_state K q StateActive) (map (ID \<circ> Msg) ts) d)"
  using assms(1)
proof (induction ts arbitrary: d)
  case (Cons t ts)
  have "HSET R (TaskKey K q (ID (Msg t))) [(''state'', Num StateActive)] d =
      (Inr (), set_state K q StateActive (ID (Msg t)) d)"
    using Cons.prems assms(2) by (simp add: set_state_def key_render typed_commands)
  then show ?case using Cons.IH [of "set_state K q StateActive (ID (Msg t)) d"] Cons.prems assms(2) by simp
qed simp

lemma first_err_Inr [simp]: "first_err (map (\<lambda>x. Inr (f x)) xs) = Inr ()"
  by (simp add: first_err_def)

lemma dropOrphans_calm:
  "calm w \<Longrightarrow> wt K (db w) \<Longrightarrow> qname_ok q \<Longrightarrow> dropOrphans R (StreamKey K q) ns w =
    (if ns = [] then w else stepped (drop_entry K q ns (db w)) w)"
  using ack_run [of K "db w" q ns] by (simp add: dropOrphans_def)

lemma XREADGROUP_calm:
  fixes c :: string
  assumes "calm w" "wt K (db w)" "qname_ok q" "block_ok b" "0 < k"
    and "groups (strm K q (db w)) ConsumerGroup = Some G"
  defines "new \<equiv> s_new G k (strm K q (db w))"
    and "d1 \<equiv> (db w)(StreamKey K q := mk_stream (db w (StreamKey K q))
          (s_deliver ConsumerGroup c G (s_new G k (strm K q (db w))) (strm K q (db w))))"
  shows "rt (XREADGROUP R ConsumerGroup c (StreamKey K q) k (blockArg b)) w =
      (if new = [] then (Inr None, stepped (db w) w) else (Inr (Some new), stepped d1 w))"
    and "wt K d1" "strm K q d1 = s_deliver ConsumerGroup c G new (strm K q (db w))"
    and "body K q v d1 = body K q v (db w)"
proof -
  have t: "is_stream (db w (StreamKey K q))" using assms(2,3) by (simp add: key_render)
  have ok: "s_ok (strm K q (db w))" using assms(2,3) by (simp add: strm_ok)
  show "rt (XREADGROUP R ConsumerGroup c (StreamKey K q) k (blockArg b)) w =
      (if new = [] then (Inr None, stepped (db w) w) else (Inr (Some new), stepped d1 w))"
    using XREADGROUP [where d = "db w", OF t _ assms(5) blockArg_ok [OF assms(4)], of ConsumerGroup G c] assms(1,6)
    by (simp add: new_def d1_def strm_def Let_def)
  show "wt K d1"
    using wt_stream [OF assms(2,3) s_ok_deliver [OF ok assms(6) refl]] by (simp add: d1_def key_render)
  show "strm K q d1 = s_deliver ConsumerGroup c G new (strm K q (db w))"
    by (simp add: d1_def strm_def new_def)
  show "body K q v d1 = body K q v (db w)"
    using assms(3) by (simp add: d1_def body_def key_render)
qed

lemma DequeueBatch_calm:
  fixes n :: int
  assumes "calm w" "wt K (db w)" "qname_ok q" "block_ok b"
    and "groups (strm K q (db w)) ConsumerGroup = Some G"
  defines "new \<equiv> s_new G (nat (if n < 1 then 1 else n)) (strm K q (db w))"
  defines "gone \<equiv> orphaned K q (db w) new" and "ts \<equiv> deliverable K q (db w) new"
  obtains w' where
    "DequeueBatch R K c b q n w = (if ts = [] then Inl ErrNoTask else Inr ts, w')"
    "calm w'" "wt K (db w')" "\<And>v. body K q v (db w') = body K q v (db w)"
    "strm K q (db w') = (if new = [] then strm K q (db w) else if gone = []
       then s_deliver ConsumerGroup c G new (strm K q (db w))
       else s_del gone (s_ack ConsumerGroup gone (s_deliver ConsumerGroup c G new (strm K q (db w)))))"
    "\<And>t. t \<in> set ts \<Longrightarrow> e_hash (db w' (TaskKey K q (ID (Msg t)))) ''state'' = Some (Num StateActive)"
proof (cases "new = []")
  case True
  then have none: "ts = []" "gone = []" by (simp_all add: ts_def gone_def deliverable_def orphaned_def map_filter_simps)
  have "DequeueBatch R K c b q n w = (Inl ErrNoTask, stepped (db w) w)"
    unfolding DequeueBatch_stages
    using XREADGROUP_calm(1) [OF assms(1-4) _ assms(5), of "nat (if n < 1 then 1 else n)" c] True
    by (simp add: new_def)
  then show thesis using that [of "stepped (db w) w"] none True assms(1,2) by simp
next
  case False
  have k: "0 < nat (if n < 1 then 1 else n)" by simp
  obtain d1 where r: "rt (XREADGROUP R ConsumerGroup c (StreamKey K q) (nat (if n < 1 then 1 else n)) (blockArg b)) w
      = (Inr (Some new), stepped d1 w)"
    and d1: "wt K d1" "strm K q d1 = s_deliver ConsumerGroup c G new (strm K q (db w))"
      "\<And>v. body K q v d1 = body K q v (db w)"
    using XREADGROUP_calm [OF assms(1-4) k assms(5)] False unfolding new_def by meson
  let ?w1 = "stepped d1 (stepped d1 w)"
  have f: "fetch_bodies R K q new (stepped d1 w) = (Inr (map (\<lambda>(i, v). Inr (body K q v (db w))) new), ?w1)"
    using run_all_gets [OF d1(1) assms(3), of new] assms(1) d1(3) by (simp add: fetch_bodies_def)
  have c: "collect new (map (\<lambda>(i, v). Inr (body K q v (db w))) new) = (ts, gone)"
    by (simp add: collect_spec ts_def gone_def)
  have e: "first_err (map (\<lambda>(i, v). Inr (body K q v (db w))) new) = Inr ()"
    by (simp add: case_prod_unfold)
  define w2 where "w2 = (if gone = [] then ?w1 else stepped (drop_entry K q gone d1) ?w1)"
  have w2: "dropOrphans R (StreamKey K q) gone ?w1 = w2" "calm w2" "wt K (db w2)"
    "\<And>v. body K q v (db w2) = body K q v (db w)"
    "strm K q (db w2) = (if gone = [] then strm K q d1 else s_del gone (s_ack ConsumerGroup gone (strm K q d1)))"
    using dropOrphans_calm [of ?w1 K q gone] assms(1,3) d1 by (auto simp: w2_def)
  let ?d3 = "fold (set_state K q StateActive) (map (ID \<circ> Msg) ts) (db w2)"
  define w3 where "w3 = (if ts = [] then w2 else stepped ?d3 w2)"
  have a: "activate R K q ts w2 = (if ts = [] then Inl ErrNoTask else Inr ts, w3)"
    using run_all_activate [OF w2(3) assms(3), of ts] w2(2) by (simp add: activate_def w3_def)
  have w3: "calm w3" "wt K (db w3)" "body K q v (db w3) = body K q v (db w)" "strm K q (db w3) = strm K q (db w2)" for v
    using w2 run_all_activate [OF w2(3) assms(3), of ts] activated(1,2) [OF assms(3)] by (auto simp: w3_def)
  have st: "e_hash (db w3 (TaskKey K q (ID (Msg t)))) ''state'' = Some (Num StateActive)" if "t \<in> set ts" for t
    using that activated(3) [OF assms(3), of "ID (Msg t)" "map (ID \<circ> Msg) ts"] by (auto simp: w3_def)
  have "DequeueBatch R K c b q n w = (if ts = [] then Inl ErrNoTask else Inr ts, w3)"
    unfolding DequeueBatch_stages using r f c e w2(1) a False by simp
  from that [OF this w3(1,2,3)] w3(4) w2(5) d1(2) st False show thesis by simp
qed

end

lemma s_new_add:
  assumes "s_ok s" "groups s g = Some G" "last_id s < i"
    and "length (filter (\<lambda>(j, v). last_delivered G < j) (entries s)) < n"
  shows "s_new G n (s_add i v s) = s_new G n s @ [(i, v)]"
proof -
  have "last_delivered G < i" using assms(1-3) by (fastforce simp: s_ok_def)
  then show ?thesis using assms(4) by (simp add: s_new_def)
qed

lemma pel_kept: "groups s g = Some G \<Longrightarrow> groups (s_ack g ns s) g = Some (G\<lparr>pel := filter (\<lambda>(i, c, t). i \<notin> set ns) (pel G)\<rparr>)"
  by (simp add: s_ack_def s_map_pel_def)

lemma groups_deliver [simp]:
  "groups (s_deliver g c G new s) g = Some \<lparr>last_delivered = (if new = [] then last_delivered G else fst (last new)),
     pel = pel G @ map (\<lambda>(i, v). (i, c, 0)) new\<rparr>"
  by (simp add: s_deliver_def)

lemma sorted_ids: "s_ok s \<Longrightarrow> distinct (map fst (entries s))"
  by (auto simp: s_ok_def strict_sorted_iff)

lemma wt_emptyspace [simp]: "wt K Map.empty"
proof -
  have "type_of rk None" for rk by (cases rk) simp_all
  then show ?thesis by (simp add: wt_def)
qed

context redis_laws
begin

lemma enqueue_dequeue_calm:
  assumes "calm w" "wt K (db w)" "msg_ok m" "qname_ok (Queue m)" "block_ok b"
    and "groups (strm K (Queue m) (db w)) ConsumerGroup = Some G"
    and "int (length (filter (\<lambda>(i, v). last_delivered G < i) (entries (strm K (Queue m) (db w))))) < n"
    and "Enqueue R K m w = (r, w1)" "DequeueBatch R K c b (Queue m) n w1 = (r', w2)"
  shows "r = Inr () \<and> (\<exists>ts i. r' = Inr (ts @ [\<lparr>Msg = m\<lparr>State := StateActive\<rparr>, StreamID = i\<rparr>]))"
proof -
  let ?q = "Queue m" and ?raw = "Doc (EncodeMessage (m\<lparr>State := StatePending\<rparr>))"
  let ?d0 = "db (known K ?q w)"
  let ?d1 = "store K ?q (ID m) ?raw StatePending ?d0"
  let ?d2 = "unlist K ?q (ID m) (xpush R (StreamKey K ?q) (ID m) ?d1)"
  note run = Enqueue_calm [OF assms(1,2,4)]
  have r: "r = Inr ()" and w1: "w1 = stepped ?d2 (known K ?q w)" using assms(8) run by simp_all
  have wt1: "wt K ?d1" using assms(2,4) by simp
  have s1: "strm K ?q ?d1 = strm K ?q (db w)"
    using assms(4) by (simp add: strm_def store_def key_render)
  let ?i = "new_id R (StreamKey K ?q) (ID m) ?d1"
  have i: "last_id (strm K ?q (db w)) < ?i"
    using XADD_new(2) [of ?d1 "StreamKey K ?q" "ID m"] wt1 assms(4) s1 by (simp add: strm_def key_render)
  have s2: "strm K ?q ?d2 = s_add ?i (ID m) (strm K ?q (db w))"
    using s1 assms(4) by (simp add: strm_def unlist_def key_render)
  have b2: "body K ?q (ID m) ?d2 = Some ?raw"
    using assms(4) by (simp add: body_def unlist_def store_def key_render)
  have wt2: "wt K (db w1)" and c1: "calm w1" using w1 wt1 assms(1,4) by (simp_all add: key_render)
  have g1: "groups (strm K ?q (db w1)) ConsumerGroup = Some G" using w1 s2 assms(6) by simp
  have n: "\<not> n < 1" and len: "length (filter (\<lambda>(j, v). last_delivered G < j) (entries (strm K ?q (db w)))) < nat n"
    using assms(7) by linarith+
  have new: "s_new G (nat (if n < 1 then 1 else n)) (strm K ?q (db w1)) =
      s_new G (nat n) (strm K ?q (db w)) @ [(?i, ID m)]"
    using s_new_add [OF _ assms(6) i len, of "ID m"] assms(2,4) w1 s2 n by (simp add: strm_ok)
  have ok: "msg_ok (m\<lparr>State := StatePending\<rparr>)" using assms(3) by (simp add: msg_ok_def)
  have last: "deliverable K ?q (db w1) (es @ [(?i, ID m)]) =
      deliverable K ?q (db w1) es @ [\<lparr>Msg = m\<lparr>State := StateActive\<rparr>, StreamID = ?i\<rparr>]" for es
    using b2 w1 ok by (simp add: deliverable_def List.map_filter_def)
  obtain w3 where "DequeueBatch R K c b ?q n w1 =
      (if deliverable K ?q (db w1) (s_new G (nat (if n < 1 then 1 else n)) (strm K ?q (db w1))) = [] then Inl ErrNoTask
       else Inr (deliverable K ?q (db w1) (s_new G (nat (if n < 1 then 1 else n)) (strm K ?q (db w1)))), w3)"
    by (rule DequeueBatch_calm [OF c1 wt2 assms(4,5) g1])
  then show ?thesis using assms(9) r unfolding new last by auto
qed

text \<open>The forwarder on one sorted set: the due members, each appended to the stream once.\<close>

lemma forward_fold:
  assumes "qname_ok q" "z = RetryKey K q \<or> z = ScheduledKey K q"
  shows "\<exists>ns. length ns = length ids \<and>
      entries (strm K q (fold (forward_one R K q z) ids d)) = entries (strm K q d) @ zip ns ids"
    and "e_zset (fold (forward_one R K q z) ids d z) = filter (\<lambda>(x, m). m \<notin> set ids) (e_zset (d z))"
    and "body K q i (fold (forward_one R K q z) ids d) = body K q i d"
proof -
  have one: "entries (strm K q (forward_one R K q z j d)) = entries (strm K q d) @ [(new_id R (StreamKey K q) j d, j)]"
    "e_zset (forward_one R K q z j d z) = z_rem j (e_zset (d z))"
    "body K q i (forward_one R K q z j d) = body K q i d" for j d
    using assms by (auto simp: forward_one_def set_state_def strm_def body_def key_render effect_defs)
  show "\<exists>ns. length ns = length ids \<and>
      entries (strm K q (fold (forward_one R K q z) ids d)) = entries (strm K q d) @ zip ns ids"
  proof (induction ids arbitrary: d)
    case (Cons j ids)
    obtain ns where "length ns = length ids" "entries (strm K q (fold (forward_one R K q z) (j # ids) d)) =
        entries (strm K q (forward_one R K q z j d)) @ zip ns ids"
      using Cons [of "forward_one R K q z j d"] by auto
    then show ?case by (intro exI [of _ "new_id R (StreamKey K q) j d # ns"]) (simp add: one)
  qed simp
  show "e_zset (fold (forward_one R K q z) ids d z) = filter (\<lambda>(x, m). m \<notin> set ids) (e_zset (d z))"
    by (induction ids arbitrary: d) (simp_all add: one z_rem_def case_prod_unfold conj_commute)
  show "body K q i (fold (forward_one R K q z) ids d) = body K q i d"
    by (induction ids arbitrary: d) (simp_all add: one)
qed

end

text \<open>Concrete inputs: a queue with its group, two waiting entries of which one has lost its body.\<close>

definition at_rest :: "keyspace \<Rightarrow> world" where
  "at_rest d = \<lparr>db = d, knownQueues = {}, events = [], trace = []\<rparr>"

definition sample_task :: TaskMessage where
  "sample_task = zeroMessage\<lparr>ID := ''a'', Kind := ''email'', Queue := ''q'', MaxRetry := 3\<rparr>"

definition open_queue :: keyspace where
  "open_queue = Map.empty(StreamKey DefaultKeys ''q'' := mk_stream None (s_group_create ConsumerGroup empty_stream))"

definition busy_queue :: keyspace where
  "busy_queue = store DefaultKeys ''q'' ''a'' (Doc (EncodeMessage sample_task)) StatePending
     (Map.empty(StreamKey DefaultKeys ''q'' :=
        mk_stream None (s_add 2 ''b'' (s_add 1 ''a'' (s_group_create ConsumerGroup empty_stream)))))"

definition waiting_queue :: keyspace where
  "waiting_queue = zput (RetryKey DefaultKeys ''q'') 90 ''b'' (zput (RetryKey DefaultKeys ''q'') 5 ''a'' open_queue)"

lemma at_rest_simps [simp]: "db (at_rest d) = d" "knownQueues (at_rest d) = {}" "events (at_rest d) = []" "trace (at_rest d) = []"
  by (simp_all add: at_rest_def)

lemma sample_ok [simp]: "qname_ok ''q''" "msg_ok sample_task" "Queue sample_task = ''q''" "ID sample_task = ''a''"
  by (simp_all add: qname_ok_def sample_task_def msg_ok_def zeroMessage_def int64_ok_def)

lemma last_id_empty [simp]: "last_id empty_stream = 0"
  by (simp add: empty_stream_def)

lemma wt_stream_new: "s_ok s \<Longrightarrow> qname_ok q \<Longrightarrow> wt K (Map.empty(StreamKey K q := mk_stream None s))"
  using wt_stream [OF wt_emptyspace, of q s K] by (simp add: key_render)

lemma sample_queues [simp]:
  "wt DefaultKeys open_queue" "wt DefaultKeys busy_queue" "wt DefaultKeys waiting_queue"
  "strm DefaultKeys ''q'' open_queue = s_group_create ConsumerGroup empty_stream"
  "strm DefaultKeys ''q'' busy_queue = s_add 2 ''b'' (s_add 1 ''a'' (s_group_create ConsumerGroup empty_stream))"
proof -
  show o: "wt DefaultKeys open_queue" unfolding open_queue_def by (rule wt_stream_new) (auto intro: s_ok_create)
  have "wt DefaultKeys (Map.empty(StreamKey DefaultKeys ''q'' :=
      mk_stream None (s_add 2 ''b'' (s_add 1 ''a'' (s_group_create ConsumerGroup empty_stream)))))"
    by (rule wt_stream_new) (auto intro!: s_ok_add s_ok_create)
  then show "wt DefaultKeys busy_queue" by (simp add: busy_queue_def)
  show "wt DefaultKeys waiting_queue" using o by (simp add: waiting_queue_def key_render)
  show "strm DefaultKeys ''q'' open_queue = s_group_create ConsumerGroup empty_stream"
    by (simp add: strm_def open_queue_def)
  show "strm DefaultKeys ''q'' busy_queue = s_add 2 ''b'' (s_add 1 ''a'' (s_group_create ConsumerGroup empty_stream))"
    by (simp add: strm_def busy_queue_def store_def key_render)
qed

subsection \<open>Properties\<close>

text \<open>
  C4: what a fetch hands out.  A batch takes the first entries of the stream that the group has not
  delivered yet.  Their decodable bodies are returned as tasks, in the order of the stream, all of
  them pending under the consumer and marked active; the entries without a body are removed from the
  stream and from the pending list; when no task is left the fetch reports that there is none.
\<close>

theorem DequeueBatch_delivers:
  assumes "redis_laws R" "calm w" "wt K (db w)" "qname_ok q" "block_ok b"
    and "groups (strm K q (db w)) ConsumerGroup = Some G"
    and "new = s_new G (nat (if n < 1 then 1 else n)) (strm K q (db w))"
    and "DequeueBatch R K c b q n w = (r, w')"
  shows "r = (if deliverable K q (db w) new = [] then Inl ErrNoTask else Inr (deliverable K q (db w) new)) \<and>
    (\<forall>t \<in> set (deliverable K q (db w) new).
       e_hash (db w' (TaskKey K q (ID (Msg t)))) ''state'' = Some (Num StateActive)) \<and>
    (\<forall>(i, v) \<in> set new. if body K q v (db w) = None
       then i \<notin> fst ` set (entries (strm K q (db w')))
       else (i, v) \<in> set (entries (strm K q (db w'))) \<and>
         (\<exists>G'. groups (strm K q (db w')) ConsumerGroup = Some G' \<and> (i, c, 0) \<in> set (pel G')))"
proof -
  let ?s = "strm K q (db w)" and ?gone = "orphaned K q (db w) new"
  obtain w2 where w2: "DequeueBatch R K c b q n w = (if deliverable K q (db w) new = [] then Inl ErrNoTask
        else Inr (deliverable K q (db w) new), w2)"
    "strm K q (db w2) = (if new = [] then ?s else if ?gone = [] then s_deliver ConsumerGroup c G new ?s
       else s_del ?gone (s_ack ConsumerGroup ?gone (s_deliver ConsumerGroup c G new ?s)))"
    "\<And>t. t \<in> set (deliverable K q (db w) new) \<Longrightarrow>
       e_hash (db w2 (TaskKey K q (ID (Msg t)))) ''state'' = Some (Num StateActive)"
    using redis_laws.DequeueBatch_calm [OF assms(1-6)] assms(7) by metis
  have new: "set new \<subseteq> set (entries ?s)" "distinct (map fst (entries ?s))"
    using assms(3,4,7) sorted_ids [of ?s] by (auto simp: s_new_def strm_ok dest: in_set_takeD)
  have gone: "i \<in> set ?gone \<longleftrightarrow> body K q v (db w) = None" if iv: "(i, v) \<in> set new" for i v
  proof
    assume "i \<in> set ?gone"
    then obtain v' where "(i, v') \<in> set new" "body K q v' (db w) = None" by (auto simp: orphaned_def)
    then show "body K q v (db w) = None"
      using iv new eq_key_imp_eq_value [of "entries ?s" i v v'] by auto
  next
    show "body K q v (db w) = None \<Longrightarrow> i \<in> set ?gone"
      using iv by (auto simp: orphaned_def image_iff intro!: bexI [of _ "(i, v)"])
  qed
  let ?s' = "strm K q (db w2)"
  have "entries ?s' = filter (\<lambda>(i, v). i \<notin> set ?gone) (entries ?s)" if "new \<noteq> []"
    using that w2(2) by (simp add: filter_id_conv split: if_splits)
  moreover have "\<exists>G'. groups ?s' ConsumerGroup = Some G' \<and>
      pel G' = filter (\<lambda>(i, c, t). i \<notin> set ?gone) (pel G @ map (\<lambda>(i, v). (i, c, 0)) new)" if "new \<noteq> []"
    using that w2(2) by (simp add: pel_kept case_prod_unfold split: if_splits)
  ultimately have "if body K q v (db w) = None then i \<notin> fst ` set (entries ?s')
      else (i, v) \<in> set (entries ?s') \<and>
        (\<exists>G'. groups ?s' ConsumerGroup = Some G' \<and> (i, c, 0) \<in> set (pel G'))"
    if "(i, v) \<in> set new" for i v
    using that new(1) gone [OF that] by (cases "new = []") fastforce+
  then show ?thesis using w2(1,3) assms(8) by (simp only: prod.inject) blast
qed


theorem DequeueBatch_delivers_witness:
  "\<exists>w'. DequeueBatch mem_redis DefaultKeys ''c'' (- 1) ''q'' 5 (at_rest busy_queue) =
     (Inr [\<lparr>Msg = sample_task\<lparr>State := StateActive\<rparr>, StreamID = 1\<rparr>], w') \<and>
     2 \<notin> fst ` set (entries (strm DefaultKeys ''q'' (db w')))"
proof -
  let ?w = "at_rest busy_queue" and ?K = DefaultKeys
  let ?G = "\<lparr>last_delivered = 0, pel = []\<rparr> :: grp"
  obtain r w' where run: "DequeueBatch mem_redis ?K ''c'' (- 1) ''q'' 5 ?w = (r, w')" by fastforce
  have G: "groups (strm ?K ''q'' (db ?w)) ConsumerGroup = Some ?G" by (simp add: s_group_create_def)
  have new: "[(1, ''a''), (2, ''b'')] = s_new ?G (nat (if (5::int) < 1 then 1 else 5)) (strm ?K ''q'' (db ?w))"
    by (simp add: s_new_def s_add_def s_group_create_def empty_stream_def)
  have a: "body ?K ''q'' ''a'' busy_queue = Some (Doc (EncodeMessage sample_task))"
    "body ?K ''q'' ''b'' busy_queue = None"
    by (simp_all add: body_def busy_queue_def store_def key_render)
  then have "deliverable ?K ''q'' busy_queue [(1, ''a''), (2, ''b'')] =
      [\<lparr>Msg = sample_task\<lparr>State := StateActive\<rparr>, StreamID = 1\<rparr>]"
    by (simp add: deliverable_def map_filter_simps)
  with DequeueBatch_delivers [OF mem.redis_laws_axioms _ _ _ _ G new run] a run show ?thesis
    by (simp add: block_ok_def)
qed

text \<open>
  C3: a task survives the queue.  When fewer tasks than the batch size wait in the stream, a task
  that a client enqueues is handed to the consumer that fetches next, behind those that wait, with
  every field as the client set it and in the active state.
\<close>

theorem enqueue_dequeue:
  assumes "redis_laws R" "calm w" "wt K (db w)" "msg_ok m" "qname_ok (Queue m)" "block_ok b"
    and "groups (strm K (Queue m) (db w)) ConsumerGroup = Some G"
    and "int (length (filter (\<lambda>(i, v). last_delivered G < i) (entries (strm K (Queue m) (db w))))) < n"
    and "Enqueue R K m w = (r, w1)" "DequeueBatch R K c b (Queue m) n w1 = (r', w2)"
  shows "r = Inr () \<and> (\<exists>ts i. r' = Inr (ts @ [\<lparr>Msg = m\<lparr>State := StateActive\<rparr>, StreamID = i\<rparr>]))"
  by (rule redis_laws.enqueue_dequeue_calm [OF assms])

theorem enqueue_dequeue_witness:
  "\<exists>w1 w2 ts i. Enqueue mem_redis DefaultKeys sample_task (at_rest open_queue) = (Inr (), w1) \<and>
     DequeueBatch mem_redis DefaultKeys ''c'' (- 1) ''q'' 1 w1 =
       (Inr (ts @ [\<lparr>Msg = sample_task\<lparr>State := StateActive\<rparr>, StreamID = i\<rparr>]), w2)"
proof -
  obtain r w1 where e: "Enqueue mem_redis DefaultKeys sample_task (at_rest open_queue) = (r, w1)" by fastforce
  obtain r' w2 where d: "DequeueBatch mem_redis DefaultKeys ''c'' (- 1) (Queue sample_task) 1 w1 = (r', w2)" by fastforce
  have G: "groups (strm DefaultKeys (Queue sample_task) (db (at_rest open_queue))) ConsumerGroup =
      Some \<lparr>last_delivered = 0, pel = []\<rparr>" by (simp add: s_group_create_def)
  show ?thesis
    using enqueue_dequeue [OF mem.redis_laws_axioms _ _ _ _ _ G _ e d] e d
    by (simp add: block_ok_def empty_stream_def)
qed

text \<open>
  C5: the forwarder moves what is due.  Of the retry set it takes the members whose time has come,
  at most a batch of them in the order of their times.  Each is appended to the stream once and
  removed from the set; every other member keeps its place and no body changes.
\<close>

theorem ForwardRetry_moves_due:
  assumes "redis_laws R" "calm w" "wt K (db w)" "qname_ok q"
    and "z = e_zset (db w (RetryKey K q))" "ids = z_upto (int_score (Unix now)) n z"
    and "ForwardRetry R K q now n w = (r, w')"
  shows "r = Inr (int (length ids)) \<and>
    (\<exists>ns. length ns = length ids \<and>
       entries (strm K q (db w')) = entries (strm K q (db w)) @ zip ns ids) \<and>
    e_zset (db w' (RetryKey K q)) = filter (\<lambda>(x, m). m \<notin> set ids) z \<and>
    (\<forall>i. body K q i (db w') = body K q i (db w))"
  using redis_laws.forwardCmd_run(1) [OF assms(1,3,4), where z = "RetryKey K q" and x = "int_score (Unix now)" and n = n]
    redis_laws.forward_fold [OF assms(1,4), where z = "RetryKey K q" and ids = ids and d = "db w"] assms(2,5-7)
  by (auto simp: ForwardRetry_def Let_def)

theorem ForwardRetry_moves_due_witness:
  "\<exists>w'. ForwardRetry mem_redis DefaultKeys ''q'' (10 * Second) 100 (at_rest waiting_queue) = (Inr 1, w') \<and>
     map snd (entries (strm DefaultKeys ''q'' (db w'))) = [''a''] \<and>
     e_zset (db w' (RetryKey DefaultKeys ''q'')) = [(90, ''b'')]"
proof -
  let ?w = "at_rest waiting_queue" and ?K = DefaultKeys
  obtain r w' where run: "ForwardRetry mem_redis ?K ''q'' (10 * Second) 100 ?w = (r, w')" by fastforce
  have z: "[(5, ''a''), (90, ''b'')] = e_zset (db ?w (RetryKey ?K ''q''))"
    by (simp add: waiting_queue_def open_queue_def key_render z_add_def z_rem_def)
  have ids: "[''a''] = z_upto (int_score (Unix (10 * Second))) 100 [(5, ''a''), (90, ''b'')]"
    using float64_int [of 10] by (simp add: z_upto_def z_limit_def int_score_def Unix_def Second_def)
  have "strm ?K ''q'' waiting_queue = s_group_create ConsumerGroup empty_stream"
    by (simp add: waiting_queue_def open_queue_def strm_def key_render)
  with ForwardRetry_moves_due [OF mem.redis_laws_axioms _ _ _ z ids run] run show ?thesis
    by (auto simp: empty_stream_def)
qed

end
