(* ===== verification/System.thy ===== *)
theory System
  imports Safe_Client Delivery
begin

section \<open>The whole system\<close>

text \<open>
  Any number of clients, servers, schedulers and inspectors on one keyspace.  An agent is a
  goroutine: it performs a list of activities, each the code of one call or loop iteration, and may
  be cut off at any point.  A worker is the fetch loop up to the hand-over of its task, followed by
  the processing of that task.  Time passes between the round trips: keys expire and pending
  entries become idle.
\<close>

datatype activity =
    EnqueueTask time string TaskArgs "Option list"
  | EnqueueChain time string Chain
  | EnqueueGroup time string Group
  | StartServer ServerConfig
  | Fetch ServerConfig string "(roundInput \<times> int) list"
  | Work ServerConfig string "(roundInput \<times> int) list" nat "nat \<Rightarrow> bool" Mux timing
  | Heartbeat ServerConfig string inflight
  | ForwarderTick ServerConfig time bool
  | RecovererTick ServerConfig string time bool
  | JanitorTick ServerConfig time bool
  | RunScheduler Scheduler time bool "(time \<times> bool \<times> wakeup) list"
  | InspectTask string string
  | InspectTasks string string int
  | InspectQueue string
  | InspectGroup string string
  | InspectScheduler time
  | InspectPaused
  | Promote string string
  | Delete string string
  | Pause string
  | Resume string
  | Elapse int

fun act :: "redis \<Rightarrow> Keys \<Rightarrow> activity \<Rightarrow> world \<Rightarrow> world" where
  "act R K (EnqueueTask now u a opts) w = snd (clientEnqueue R K now u a opts w)"
| "act R K (EnqueueChain now u ch) w = snd (chainEnqueue R K now u ch w)"
| "act R K (EnqueueGroup now u g) w = snd (groupEnqueue R K now u g w)"
| "act R K (StartServer cfg) w = snd (serverStart R K cfg w)"
| "act R K (Fetch cfg c inps) w = snd (fetchLoop R K cfg c inps (initFetch cfg) w)"
| "act R K (Work cfg c inps k pr mux tm) w =
     (case fetchLoop R K cfg c inps (initFetch cfg) w of (ts, w1) \<Rightarrow>
        if k < length ts
        then snd (process R K pr mux cfg tm (Queue (Msg (ts ! k))) (StreamID (ts ! k)) (Msg (ts ! k)) w1)
        else w1)"
| "act R K (Heartbeat cfg c fl) w = heartbeatTick R K cfg c fl w"
| "act R K (ForwarderTick cfg now x) w = snd (forwarderTick R K now x (queueNames cfg) w)"
| "act R K (RecovererTick cfg c now x) w = snd (recovererTick R K cfg c now x (queueNames cfg) w)"
| "act R K (JanitorTick cfg now x) w = snd (janitorTick R K cfg now x (queueNames cfg) w)"
| "act R K (RunScheduler s now x evs) w =
     (case schedulerStart R K now x s w of (s1, w1) \<Rightarrow>
        (case run R K evs s1 w1 of (s2, w2) \<Rightarrow> schedulerShutdown R K s2 w2))"
| "act R K (InspectTask q i) w = snd (inspectorGetTask R K q i w)"
| "act R K (InspectTasks q st n) w = snd (ListTasks R K q st n w)"
| "act R K (InspectQueue q) w = snd (queueStats R K q w)"
| "act R K (InspectGroup q g) w = snd (GroupMemberIDs R K q g w)"
| "act R K (InspectScheduler now) w = snd (schedulerStatus R K now w)"
| "act R K InspectPaused w = snd (PausedQueues R K w)"
| "act R K (Promote q i) w = snd (RunTask R K q i w)"
| "act R K (Delete q i) w = snd (DeleteTask R K q i w)"
| "act R K (Pause q) w = snd (PauseQueue R K q w)"
| "act R K (Resume q) w = snd (ResumeQueue R K q w)"
| "act R K (Elapse n) w = commit (elapse n) w"

text \<open>What the callers hand in is well-formed; a server is configured with usable queue names.\<close>

fun activity_ok :: "Keys \<Rightarrow> activity \<Rightarrow> bool" where
  "activity_ok K (EnqueueTask now u a opts) = (utf8_ok u \<and> args_ok a \<and> list_all option_ok opts)"
| "activity_ok K (EnqueueChain now u ch) = (utf8_ok u \<and> chain_ok ch)"
| "activity_ok K (EnqueueGroup now u g) = (utf8_ok u \<and> group_ok g)"
| "activity_ok K (StartServer cfg) = queues_ok cfg"
| "activity_ok K (Fetch cfg c inps) = queues_ok cfg"
| "activity_ok K (Work cfg c inps k pr mux tm) = (queues_ok cfg \<and> wf_mux mux \<and> clock_ok (ackClock tm))"
| "activity_ok K (Heartbeat cfg c fl) = inflight_ok K fl"
| "activity_ok K (ForwarderTick cfg now x) = queues_ok cfg"
| "activity_ok K (RecovererTick cfg c now x) = queues_ok cfg"
| "activity_ok K (JanitorTick cfg now x) = queues_ok cfg"
| "activity_ok K (RunScheduler s now x evs) = list_all entry_ok (s_entries s)"
| "activity_ok K (InspectTask q i) = qname_ok q"
| "activity_ok K (InspectTasks q st n) = qname_ok q"
| "activity_ok K (InspectQueue q) = qname_ok q"
| "activity_ok K (InspectGroup q g) = qname_ok q"
| "activity_ok K (Promote q i) = qname_ok q"
| "activity_ok K (Delete q i) = qname_ok q"
| "activity_ok K _ = True"

definition prefix_ok :: "Keys \<Rightarrow> bool" where
  "prefix_ok K \<longleftrightarrow> utf8_ok (prefix K) \<and> CHR ''*'' \<notin> set (prefix K)"

definition agent :: "redis \<Rightarrow> Keys \<Rightarrow> activity list \<Rightarrow> world \<Rightarrow> world" where
  "agent R K as = fold (act R K) as"

subsection \<open>Every agent is safe\<close>

context redis_laws
begin

lemma initFetch_ok:
  assumes "queues_ok cfg"
  shows "picker_ok (picker (initFetch cfg))"
proof -
  have "names (newWRRPicker (c_Queues cfg)) = [] \<or> wf_picker (newWRRPicker (c_Queues cfg))"
    using assms newWRRPicker_wf [of "c_Queues cfg"]
    by (cases "c_Queues cfg = []") (auto simp: queues_ok_def newWRRPicker_sel(1))
  then show ?thesis
    using assms by (auto simp: picker_ok_def initFetch_def newWRRPicker_sel(1) queues_ok_def queueNames_def)
qed

lemma fetchLoop_tri:
  assumes "queues_ok cfg" "picker_ok (picker fs)"
  shows "tri K (\<lambda>_. True) (fetchLoop R K cfg c inps fs) (claimed K)"
  using assms(2)
proof (induction inps arbitrary: fs)
  case Nil
  have run: "fetchLoop R K cfg c [] fs = (\<lambda>w. ([], w))" by (simp add: fun_eq_iff)
  show ?case unfolding run by (rule rg.pure) (simp add: claimed_def)
next
  case (Cons p inps)
  obtain inp n where p: "p = (inp, n)" by fastforce
  let ?fs = "fs\<lparr>used := n\<rparr>"
  let ?k = "\<lambda>r w1. if fst r = Stop then (fst (snd r), w1)
     else (case fetchLoop R K cfg c inps (snd (snd r)) w1 of (ts', w2) \<Rightarrow> (fst (snd r) @ ts', w2))"
  have ok: "picker_ok (picker ?fs)" using Cons.prems by simp
  have "tri K (\<lambda>_. True) (\<lambda>w. case fetchRound R K cfg c inp ?fs w of (r, w1) \<Rightarrow> ?k r w1) (claimed K)"
  proof (rule rg.bind_result [OF fetchRound_tri [OF assms(1) ok], where T = "\<lambda>r. picker_ok (picker (snd (snd r)))"])
    fix r :: "control \<times> Dequeued list \<times> fetchState"
    assume r: "picker_ok (picker (snd (snd r)))"
    have "tri K (claimed K (fst (snd r))) (fetchLoop R K cfg c inps (snd (snd r)))
        (\<lambda>ts' d. claimed K ts' d \<and> claimed K (fst (snd r)) d)"
      by (rule weaken [OF rg.frame [OF Cons.IH [OF r] stab_claimed]]) simp
    then have "tri K (claimed K (fst (snd r))) (\<lambda>w1. case fetchLoop R K cfg c inps (snd (snd r)) w1 of
        (ts', w2) \<Rightarrow> (fst (snd r) @ ts', w2)) (claimed K)"
      by (rule rg.bind) (rule rg.pure, auto simp: claimed_def)
    then show "tri K (round_post K r) (?k r) (claimed K)"
      unfolding round_post_def [abs_def] by (intro rg.cond rg.pure)
  qed (rule fetchRound_picker [OF assms(1) ok])
  then show ?case
    by (rule back_subst [of "\<lambda>h. tri K (\<lambda>_. True) h (claimed K)"]) (auto simp: fun_eq_iff p split: prod.split)
qed

lemma work_tri:
  assumes "queues_ok cfg" "wf_mux mux"
  shows "tri K (\<lambda>_. clock_ok (ackClock tm)) (\<lambda>w. ((), act R K (Work cfg c inps k pr mux tm) w)) whatever"
proof -
  let ?k = "\<lambda>ts w1. if k < length ts then ((), snd (process R K pr mux cfg tm (Queue (Msg (ts ! k)))
      (StreamID (ts ! k)) (Msg (ts ! k)) w1)) else ((), w1)"
  have f: "tri K (\<lambda>_. clock_ok (ackClock tm)) (fetchLoop R K cfg c inps (initFetch cfg))
      (\<lambda>ts d. claimed K ts d \<and> clock_ok (ackClock tm))"
    by (rule weaken [OF rg.frame [OF fetchLoop_tri [OF assms(1) initFetch_ok [OF assms(1)]], where F = "\<lambda>_. clock_ok (ackClock tm)"]]) auto
  have k: "tri K (\<lambda>d. claimed K ts d \<and> clock_ok (ackClock tm)) (?k ts) whatever" for ts
  proof (cases "k < length ts")
    case True
    have "tri K (\<lambda>d. claimed K ts d \<and> clock_ok (ackClock tm)) (process R K pr mux cfg tm (Queue (Msg (ts ! k)))
      (StreamID (ts ! k)) (Msg (ts ! k))) whatever"
      by (rule weaken [OF process_tri [OF assms(2)]]) (use True in \<open>auto simp: claimed_def\<close>)
    from ignore_any [OF this] show ?thesis using True by simp
  qed (auto intro: rg.pure)
  from rg.bind [OF f, where k = ?k, OF k] show ?thesis
    by (rule back_subst [of "\<lambda>h. tri K (\<lambda>_. clock_ok (ackClock tm)) h whatever"]) (auto simp: fun_eq_iff split: prod.split)
qed

lemma runScheduler_tri:
  assumes "list_all entry_ok (s_entries s)"
  shows "tri K (\<lambda>_. True) (\<lambda>w. ((), act R K (RunScheduler s now x evs) w)) whatever"
proof -
  have e: "s_entries (fst (schedulerStart R K now x s w)) = s_entries s" for w
    by (simp add: schedulerStart_def Let_def tryElect_entries)
  have k: "tri K (\<lambda>_. True) (\<lambda>w1. case run R K evs s1 w1 of (s2, w2) \<Rightarrow> ((), schedulerShutdown R K s2 w2)) whatever"
    if "s_entries s1 = s_entries s" for s1
    by (rule rg.bind [OF weaken [OF run_tri] schedulerShutdown_tri]) (simp add: that assms)
  have "tri K (\<lambda>_. True) (\<lambda>w. case schedulerStart R K now x s w of (s1, w1) \<Rightarrow>
      (case run R K evs s1 w1 of (s2, w2) \<Rightarrow> ((), schedulerShutdown R K s2 w2))) whatever"
    by (rule rg.bind_result [OF schedulerStart_tri, where T = "\<lambda>s1. s_entries s1 = s_entries s"]) (rule k, assumption, rule e)
  then show ?thesis
    by (rule back_subst [of "\<lambda>h. tri K (\<lambda>_. True) h whatever"]) (auto simp: fun_eq_iff split: prod.split)
qed

lemma elapse_tri: "tri K (\<lambda>_. True) (\<lambda>w. ((), commit (elapse n) w)) whatever"
proof (rule tripleI)
  fix d w r w'
  assume w: "db w = cur d (trace w)" "guar (safe K) d (trace w)" "envs (safe K) d (trace w) \<Longrightarrow> intact K (db w) \<and> True"
    and r: "((), commit (elapse n) w) = (r, w')"
  have "holds (intact K) (safe K) d (commit (elapse n) w) (\<lambda>x. True \<and> safe K (db w) x) \<and>
      (\<exists>ts. trace (commit (elapse n) w) = ts @ trace w)"
    using rg.step [where P = "\<lambda>_. True" and Q = whatever and f = "elapse n" and g = "\<lambda>_. ()", OF _ _ w] safe_elapse by auto
  then show "holds (intact K) (safe K) d w' (\<lambda>x. True \<and> safe K (db w) x) \<and> (\<exists>ts. trace w' = ts @ trace w)"
    using r by simp
qed

lemma act_tri:
  assumes "activity_ok K a" "prefix_ok K"
  shows "tri K (\<lambda>_. True) (\<lambda>w. ((), act R K a w)) whatever"
proof -
  have p: "utf8_ok (prefix K)" "CHR ''*'' \<notin> set (prefix K)" using assms(2) by (simp_all add: prefix_ok_def)
  have go: "tri K (\<lambda>_. True) (\<lambda>w. ((), snd (f w))) whatever" if "tri K (\<lambda>_. b) f Q" b
    for b and f :: "world \<Rightarrow> 'r \<times> world" and Q
    by (rule ignore_any [OF weaken [OF that(1)]]) (use that(2) in simp)
  have qs: "\<forall>q \<in> set (queueNames cfg). qname_ok q" if "queues_ok cfg" for cfg
    using that by (simp add: queues_ok_def)
  show ?thesis
  proof (cases a)
    case (EnqueueTask now u a opts)
    then show ?thesis using assms(1) p go [OF clientEnqueue_tri] by simp
  next
    case (EnqueueChain now u ch)
    then show ?thesis using assms(1) p go [OF chainEnqueue_tri] by simp
  next
    case (EnqueueGroup now u g)
    then show ?thesis using assms(1) p go [OF groupEnqueue_tri] by simp
  next
    case (StartServer cfg)
    then show ?thesis using assms(1) go [OF serverStart_tri] by simp
  next
    case (Fetch cfg c inps)
    then show ?thesis using assms(1) ignore_any [OF fetchLoop_tri [OF _ initFetch_ok]] by simp
  next
    case (Work cfg c inps k pr mux tm)
    have "tri K (\<lambda>_. True) (\<lambda>w. ((), act R K (Work cfg c inps k pr mux tm) w)) whatever"
      by (rule weaken [OF work_tri]) (use assms(1) Work in auto)
    then show ?thesis using Work by simp
  next
    case (Heartbeat cfg c fl)
    have "tri K (\<lambda>_. True) (\<lambda>w. ((), act R K (Heartbeat cfg c fl) w)) whatever"
      unfolding act.simps by (rule weaken [OF heartbeatTick_tri]) (use assms(1) Heartbeat in auto)
    then show ?thesis using Heartbeat by simp
  next
    case (ForwarderTick cfg now x)
    then show ?thesis using assms(1) qs go [OF forwarderTick_tri] by simp
  next
    case (RecovererTick cfg c now x)
    then show ?thesis using assms(1) qs go [OF recovererTick_tri] by simp
  next
    case (JanitorTick cfg now x)
    then show ?thesis using assms(1) qs go [OF janitorTick_tri] by simp
  next
    case (RunScheduler s now x evs)
    then show ?thesis using assms(1) runScheduler_tri by (simp del: act.simps)
  next
    case (InspectScheduler now)
    then show ?thesis using p go [OF schedulerStatus_tri] by simp
  next
    case (Elapse n)
    then show ?thesis using elapse_tri by simp
  qed (use assms(1) go [OF inspectorGetTask_tri] go [OF ListTasks_tri] go [OF queueStats_tri]
      go [OF listing_tri(3)] go [OF listing_tri(1)] go [OF RunTask_tri] go [OF DeleteTask_tri]
      go [OF PauseQueue_tri] go [OF ResumeQueue_tri] in auto)
qed

lemma agent_tri:
  assumes "list_all (activity_ok K) as" "prefix_ok K"
  shows "tri K (\<lambda>_. True) (\<lambda>w. ((), agent R K as w)) whatever"
  using assms(1)
proof (induction as)
  case Nil
  show ?case by (auto simp: agent_def intro: rg.pure)
next
  case (Cons a as)
  then have a: "tri K (\<lambda>_. True) (\<lambda>w. ((), act R K a w)) whatever"
    and as: "tri K (\<lambda>_. True) (\<lambda>w. ((), agent R K as w)) whatever"
    using act_tri assms(2) by simp_all
  from rg.bind [OF a as] show ?case by (simp add: agent_def)
qed

lemma intact_empty: "intact K Map.empty"
proof -
  have "type_of rk None" for rk by (cases rk) simp_all
  then have "wt K Map.empty" by (simp add: wt_def)
  then show ?thesis
    by (simp add: intact_def bodies_ok_def lasting_def results_ok_def pend_ok_def covered_def
        body_def strm_def empty_stream_def)
qed

lemma system_intact:
  assumes "prefix_ok K" "\<forall>a. list_all (activity_ok K) (prog a)"
    and "execution (\<lambda>a. agent R K (prog a)) Map.empty H"
  shows "\<forall>x \<in> snd ` set H. intact K x"
  using rg.executions [OF assms(3) intact_empty] agent_tri assms(1,2) by blast

end

subsection \<open>Properties of the system\<close>

text \<open>
  C1: no task is lost.  However clients, servers, schedulers, inspectors and the clock interleave,
  wherever they are cut off and whatever requests fail half-way or are sent twice: in every state
  that the keyspace goes through, a task whose body is stored is referenced.  Either an entry of its
  queue's stream carries it, which the consumer group has not delivered yet or holds as pending, or
  it is a member of the queue's retry, scheduled, archived or completed set.
\<close>

theorem no_task_lost:
  assumes "redis_laws R" "prefix_ok K" "\<forall>a. list_all (activity_ok K) (prog a)"
    and "execution (\<lambda>a. agent R K (prog a)) Map.empty H"
    and "x \<in> snd ` set H" "qname_ok q" "e_hash (x (TaskKey K q i)) ''msg'' \<noteq> None"
  shows "(\<exists>n. (n, i) \<in> set (entries (e_stream (x (StreamKey K q)))) \<and>
      (\<forall>G. groups (e_stream (x (StreamKey K q))) ConsumerGroup = Some G \<longrightarrow>
         last_delivered G < n \<or> n \<in> fst ` set (pel G))) \<or>
    i \<in> z_members (e_zset (x (RetryKey K q))) \<or> i \<in> z_members (e_zset (x (ScheduledKey K q))) \<or>
    i \<in> z_members (e_zset (x (ArchivedKey K q))) \<or> i \<in> z_members (e_zset (x (CompletedKey K q)))"
proof -
  have "intact K x" using redis_laws.system_intact [OF assms(1-4)] assms(5) by blast
  from intactD(5,6) [OF this assms(6)]
  have p: "pend_ok (strm K q x)" and c: "covered K q i 0 x" by blast+
  have "body K q i x \<noteq> None" using assms(7) by (simp add: body_def)
  with c have "listed 0 i (strm K q x) \<or> parked K q i x" by (simp add: covered_def)
  then show ?thesis
    using p by (fastforce simp: listed_def parked_def zmem_def strm_def pend_ok_def)
qed

text \<open>
  C2: what is stored can be processed.  In every state of every such execution the keys of the
  system have the types that the commands on them expect, and the body of every stored task decodes
  to a message with the identifier and the queue of the key that it is stored under.
\<close>

theorem stored_tasks_decode:
  assumes "redis_laws R" "prefix_ok K" "\<forall>a. list_all (activity_ok K) (prog a)"
    and "execution (\<lambda>a. agent R K (prog a)) Map.empty H"
    and "x \<in> snd ` set H" "qname_ok q"
  shows "wt K x \<and> (\<forall>raw. e_hash (x (TaskKey K q i)) ''msg'' = Some raw \<longrightarrow>
    (\<exists>m. decode_body raw = Some m \<and> ID m = i \<and> Queue m = q))"
proof -
  have "intact K x" using redis_laws.system_intact [OF assms(1-4)] assms(5) by blast
  from intactD(1,2) [OF this] assms(6) show ?thesis
    unfolding bodies_ok_def body_ok_def body_def task_wf_def by blast
qed

text \<open>One client that enqueues one task on an empty keyspace.\<close>

definition demo_args :: TaskArgs where
  "demo_args = \<lparr>A_Kind = ''email'', A_JSON = Some [123, 125]\<rparr>"

definition demo_prog :: "unit \<Rightarrow> activity list" where
  "demo_prog _ = [EnqueueTask 0 ''id1'' demo_args []]"

definition demo_final :: keyspace where
  "demo_final = db (agent mem_redis DefaultKeys (demo_prog ()) (at_rest Map.empty))"

definition demo_run :: "(unit set \<times> keyspace) list" where
  "demo_run = [({()}, demo_final), ({()}, sput (QueuesKey DefaultKeys) [DefaultQueue] Map.empty)]"

lemma demo_trace:
  "trace (agent mem_redis DefaultKeys (demo_prog ()) (at_rest Map.empty)) =
     [(sput (QueuesKey DefaultKeys) [DefaultQueue] Map.empty, demo_final),
      (Map.empty, sput (QueuesKey DefaultKeys) [DefaultQueue] Map.empty)] \<and>
   e_hash (demo_final (TaskKey DefaultKeys DefaultQueue ''id1'')) ''msg'' \<noteq> None"
proof -
  let ?m = "clientMessage ''id1'' demo_args [123, 125] defaultOptions"
  let ?w = "at_rest Map.empty" and ?K = DefaultKeys and ?q = DefaultQueue
  have m: "Queue ?m = ?q" "ID ?m = ''id1''" by (simp_all add: clientMessage_def defaultOptions_def zeroMessage_def)
  have q: "qname_ok ?q" by (simp add: DefaultQueue_def qname_ok_def)
  have "dispatchMessage mem_redis ?K 0 ?m defaultOptions = Enqueue mem_redis ?K ?m"
    by (simp add: dispatchMessage_def defaultOptions_def)
  then have c: "agent mem_redis ?K (demo_prog ()) ?w = snd (Enqueue mem_redis ?K ?m ?w)"
    using mem.Enqueue_calm [of ?w ?K ?m] q m
    by (simp add: agent_def demo_prog_def clientEnqueue_def apply_options_def encodeArgs_def demo_args_def Let_def)
  show ?thesis
    unfolding demo_final_def c using mem.Enqueue_calm [of ?w ?K ?m] q m
    by (simp add: known_def stepped_def at_rest_def unlist_def store_def key_render)
qed

lemma demo_execution: "execution (\<lambda>a. agent mem_redis DefaultKeys (demo_prog a)) Map.empty demo_run"
proof -
  have "trace (agent mem_redis DefaultKeys (demo_prog a) (at_rest Map.empty)) = [] @ view a Map.empty demo_run" for a
    using demo_trace by (simp add: demo_run_def)
  moreover have "db (at_rest Map.empty) = Map.empty" "trace (at_rest Map.empty) = []" by simp_all
  ultimately show ?thesis
    unfolding execution_def by (intro conjI allI exI [of _ "at_rest Map.empty"] exI [of _ "[]"]) (auto simp: owned_def demo_run_def)
qed

lemma demo_premises:
  "prefix_ok DefaultKeys" "\<forall>a. list_all (activity_ok DefaultKeys) (demo_prog a)"
  "demo_final \<in> snd ` set demo_run" "qname_ok DefaultQueue"
  by (simp_all add: prefix_ok_def DefaultKeys_def DefaultPrefix_def demo_prog_def demo_args_def args_ok_def demo_run_def
      DefaultQueue_def qname_ok_def)

theorem no_task_lost_witness:
  "e_hash (demo_final (TaskKey DefaultKeys DefaultQueue ''id1'')) ''msg'' \<noteq> None \<and>
   ((\<exists>n. (n, ''id1'') \<in> set (entries (e_stream (demo_final (StreamKey DefaultKeys DefaultQueue)))) \<and>
      (\<forall>G. groups (e_stream (demo_final (StreamKey DefaultKeys DefaultQueue))) ConsumerGroup = Some G \<longrightarrow>
         last_delivered G < n \<or> n \<in> fst ` set (pel G))) \<or>
    ''id1'' \<in> z_members (e_zset (demo_final (RetryKey DefaultKeys DefaultQueue))) \<or>
    ''id1'' \<in> z_members (e_zset (demo_final (ScheduledKey DefaultKeys DefaultQueue))) \<or>
    ''id1'' \<in> z_members (e_zset (demo_final (ArchivedKey DefaultKeys DefaultQueue))) \<or>
    ''id1'' \<in> z_members (e_zset (demo_final (CompletedKey DefaultKeys DefaultQueue))))"
  using no_task_lost [OF mem.redis_laws_axioms demo_premises(1,2) demo_execution demo_premises(3,4)] demo_trace by simp

theorem stored_tasks_decode_witness:
  "wt DefaultKeys demo_final \<and> (\<exists>raw m. e_hash (demo_final (TaskKey DefaultKeys DefaultQueue ''id1'')) ''msg'' = Some raw \<and>
     decode_body raw = Some m \<and> ID m = ''id1'' \<and> Queue m = DefaultQueue)"
  using stored_tasks_decode [OF mem.redis_laws_axioms demo_premises(1,2) demo_execution demo_premises(3,4), of "''id1''"]
    demo_trace by auto

end
