(* ===== verification/Locks.thy ===== *)
theory Locks
  imports Delivery
begin

section \<open>Locks as leases\<close>

text \<open>
  The unique lock of a task and the leadership of the scheduler are strings in Redis with a time to
  live, taken and given back by scripts.  This theory states what such a lock promises, as an
  abstract machine with a holder and a remaining time, and shows that the scripts implement it:
  every sequence of calls by any number of processes, with time passing in between, gives the same
  answers as the machine.  Each call is one script, which Redis executes atomically, so the
  sequences are all the interleavings.
\<close>

subsection \<open>The abstract lock\<close>

type_synonym lease = "(string \<times> int) option"

text \<open>Whether the holder itself may take the lock again, which renews it, is a parameter.\<close>

definition try_lease :: "bool \<Rightarrow> string \<Rightarrow> int \<Rightarrow> lease \<Rightarrow> bool \<times> lease" where
  "try_lease renewable p ms l =
     (case l of
        None \<Rightarrow> (True, Some (p, ms))
      | Some (h, t) \<Rightarrow> if renewable \<and> h = p then (True, Some (p, ms)) else (False, l))"

definition drop_lease :: "string \<Rightarrow> lease \<Rightarrow> lease" where
  "drop_lease p l = (case l of None \<Rightarrow> None | Some (h, t) \<Rightarrow> if h = p then None else l)"

definition age_lease :: "int \<Rightarrow> lease \<Rightarrow> lease" where
  "age_lease n l = (case l of None \<Rightarrow> None | Some (h, t) \<Rightarrow> if t \<le> n then None else Some (h, t - n))"

datatype lease_op = Try string int | Drop string | Wait int

fun op_ok :: "lease_op \<Rightarrow> bool" where
  "op_ok (Try p ms) \<longleftrightarrow> 0 < ms"
| "op_ok (Drop p) \<longleftrightarrow> True"
| "op_ok (Wait n) \<longleftrightarrow> 0 \<le> n"

text \<open>A sequence of calls: the processes that were granted the lock, in order, and the final state.\<close>

fun play :: "(string \<Rightarrow> int \<Rightarrow> 's \<Rightarrow> bool \<times> 's) \<Rightarrow> (string \<Rightarrow> 's \<Rightarrow> 's) \<Rightarrow> (int \<Rightarrow> 's \<Rightarrow> 's) \<Rightarrow>
    lease_op list \<Rightarrow> 's \<Rightarrow> string list \<times> 's" where
  "play tk gv ps [] s = ([], s)"
| "play tk gv ps (Try p ms # ops) s =
     (case tk p ms s of (ok, s1) \<Rightarrow>
        (case play tk gv ps ops s1 of (gs, s2) \<Rightarrow> (if ok then p # gs else gs, s2)))"
| "play tk gv ps (Drop p # ops) s = play tk gv ps ops (gv p s)"
| "play tk gv ps (Wait n # ops) s = play tk gv ps ops (ps n s)"

text \<open>
  The calls that leave \<open>p\<close> in possession when it holds the lock for another \<open>t\<close> milliseconds: it does
  not give it back, and the lock is renewed, where that is possible, before its time is over.
\<close>

fun keeps_lease :: "bool \<Rightarrow> string \<Rightarrow> int \<Rightarrow> lease_op list \<Rightarrow> bool" where
  "keeps_lease renewable p t [] \<longleftrightarrow> True"
| "keeps_lease renewable p t (Try r ms # ops) \<longleftrightarrow>
     keeps_lease renewable p (if renewable \<and> r = p then ms else t) ops"
| "keeps_lease renewable p t (Drop r # ops) \<longleftrightarrow> r \<noteq> p \<and> keeps_lease renewable p t ops"
| "keeps_lease renewable p t (Wait n # ops) \<longleftrightarrow> n < t \<and> keeps_lease renewable p (t - n) ops"

lemma lease_exclusive:
  "keeps_lease b p t ops \<Longrightarrow> play (try_lease b) drop_lease age_lease ops (Some (p, t)) = (gs, l) \<Longrightarrow>
     set gs \<subseteq> {p} \<and> (\<exists>t'. l = Some (p, t'))"
proof (induction b p t ops arbitrary: gs rule: keeps_lease.induct)
  case (2 b p t r ms ops)
  let ?t = "if b \<and> r = p then ms else t"
  obtain gs1 l1 where run: "play (try_lease b) drop_lease age_lease ops (Some (p, ?t)) = (gs1, l1)" by fastforce
  have "try_lease b r ms (Some (p, t)) = (b \<and> r = p, Some (p, ?t))"
    by (auto simp: try_lease_def)
  then have "gs = (if b \<and> r = p then r # gs1 else gs1)" "l = l1" using "2.prems"(2) run by simp_all
  then show ?case using "2.IH" [of gs1] "2.prems"(1) run by (auto split: if_splits)
qed (auto simp: drop_lease_def age_lease_def split: if_splits)

lemma lease_refused:
  "keeps_lease False p t ops \<Longrightarrow> play (try_lease False) drop_lease age_lease ops (Some (p, t)) = (gs, l) \<Longrightarrow> gs = []"
proof (induction False p t ops arbitrary: gs rule: keeps_lease.induct)
  case (2 p t r ms ops)
  then show ?case by (auto simp: try_lease_def split: prod.splits)
qed (auto simp: drop_lease_def age_lease_def split: if_splits)

subsection \<open>Its implementation\<close>

text \<open>
  What a component provides that keeps such a lock in a state: an abstraction of the state, the
  three operations and, as laws, that they do what the abstract machine does.
\<close>

locale lease_lock =
  fixes ok :: "'s \<Rightarrow> bool" and held :: "'s \<Rightarrow> lease" and renewable :: bool
    and acquire :: "string \<Rightarrow> int \<Rightarrow> 's \<Rightarrow> bool \<times> 's" and release :: "string \<Rightarrow> 's \<Rightarrow> 's"
    and pass :: "int \<Rightarrow> 's \<Rightarrow> 's"
  assumes acquire_ok: "ok s \<Longrightarrow> 0 < ms \<Longrightarrow> ok (snd (acquire p ms s))"
    and acquire_refines: "ok s \<Longrightarrow> 0 < ms \<Longrightarrow>
      (fst (acquire p ms s), held (snd (acquire p ms s))) = try_lease renewable p ms (held s)"
    and release_ok: "ok s \<Longrightarrow> ok (release p s)"
    and release_refines: "ok s \<Longrightarrow> held (release p s) = drop_lease p (held s)"
    and pass_ok: "ok s \<Longrightarrow> 0 \<le> n \<Longrightarrow> ok (pass n s)"
    and pass_refines: "ok s \<Longrightarrow> 0 \<le> n \<Longrightarrow> held (pass n s) = age_lease n (held s)"
begin

lemma simulates:
  assumes "ok s" "list_all op_ok ops"
  shows "apsnd held (play acquire release pass ops s) =
    play (try_lease renewable) drop_lease age_lease ops (held s)"
  using assms
proof (induction ops arbitrary: s)
  case (Cons a ops)
  show ?case
  proof (cases a)
    case (Try p ms)
    obtain g s1 where r: "acquire p ms s = (g, s1)" by fastforce
    have "try_lease renewable p ms (held s) = (g, held s1)"
      using acquire_refines [of s ms p] Cons.prems Try r by simp
    then show ?thesis
      using Cons.IH [of s1] Cons.prems Try r acquire_ok [of s ms p] by (auto split: prod.splits)
  next
    case (Drop p)
    then show ?thesis using Cons release_ok [of s p] release_refines [of s p] by simp
  next
    case (Wait n)
    then show ?thesis using Cons pass_ok [of s n] pass_refines [of s n] by simp
  qed
qed simp

lemma exclusive:
  assumes "ok s" "list_all op_ok ops" "held s = Some (p, t)" "keeps_lease renewable p t ops"
  shows "set (fst (play acquire release pass ops s)) \<subseteq> {p} \<and>
    (\<exists>t'. held (snd (play acquire release pass ops s)) = Some (p, t'))"
proof -
  obtain gs s' where run: "play acquire release pass ops s = (gs, s')" by fastforce
  then have "play (try_lease renewable) drop_lease age_lease ops (Some (p, t)) = (gs, held s')"
    using simulates [OF assms(1,2)] assms(3) by simp
  from lease_exclusive [OF assms(4) this] run show ?thesis by simp
qed

end

subsection \<open>A string key as a lease\<close>

definition lease_of :: "entry \<Rightarrow> lease" where
  "lease_of e = (case e of Some (RStr (Txt p), Some t) \<Rightarrow> Some (p, t) | _ \<Rightarrow> None)"

definition lease_entry :: "entry \<Rightarrow> bool" where
  "lease_entry e \<longleftrightarrow> e = None \<or> (\<exists>p t. 0 < t \<and> e = Some (RStr (Txt p), Some t))"

definition lease_space :: "Keys \<Rightarrow> string \<Rightarrow> keyspace \<Rightarrow> bool" where
  "lease_space K k d \<longleftrightarrow> wt K d \<and> lease_entry (d k)"

lemma lease_entry_cases:
  assumes "lease_entry e"
  obtains "e = None" "lease_of e = None" | p t where "0 < t" "e = Some (RStr (Txt p), Some t)" "lease_of e = Some (p, t)"
  using assms by (auto simp: lease_entry_def lease_of_def)

lemma lease_age:
  "lease_entry e \<Longrightarrow> 0 \<le> n \<Longrightarrow> lease_entry (age n e) \<and> lease_of (age n e) = age_lease n (lease_of e)"
  by (erule lease_entry_cases) (auto simp: lease_entry_def lease_of_def age_lease_def)

lemma wt_elapse [simp]: "wt K d \<Longrightarrow> wt K (elapse n d)"
  unfolding wt_def elapse_def by (auto intro: age_type)

lemma lease_elapse:
  "lease_space K k d \<Longrightarrow> 0 \<le> n \<Longrightarrow> lease_space K k (elapse n d)"
  "lease_space K k d \<Longrightarrow> 0 \<le> n \<Longrightarrow> lease_of (elapse n d k) = age_lease n (lease_of (d k))"
  by (auto simp: lease_space_def elapse_def lease_age simp del: wt_elapse)
    (use wt_elapse in \<open>auto simp: elapse_def\<close>)

text \<open>Leadership of the scheduler: the calls of one process between which the others act.\<close>

definition leader_try :: "redis \<Rightarrow> Keys \<Rightarrow> string \<Rightarrow> int \<Rightarrow> keyspace \<Rightarrow> bool \<times> keyspace" where
  "leader_try R K p ms d =
     (case AcquireOrRenewLeadership R K p (ms * Millisecond) (at_rest d) of (r, w) \<Rightarrow> (r = Inr True, db w))"

definition leader_drop :: "redis \<Rightarrow> Keys \<Rightarrow> string \<Rightarrow> keyspace \<Rightarrow> keyspace" where
  "leader_drop R K p d = db (snd (ResignLeadership R K p (at_rest d)))"

text \<open>The lock of the unique tasks that have the queue, kind and payload of \<open>m\<close>.\<close>

definition lock_name :: "Keys \<Rightarrow> TaskMessage \<Rightarrow> string" where
  "lock_name K m = UniqueKey K (Queue m) (UniqueSuffix (Kind m) (Payload m))"

definition unique_try :: "redis \<Rightarrow> Keys \<Rightarrow> TaskMessage \<Rightarrow> string \<Rightarrow> int \<Rightarrow> keyspace \<Rightarrow> bool \<times> keyspace" where
  "unique_try R K m i ms d =
     (case EnqueueUnique R K (m\<lparr>ID := i\<rparr>) (ms * Millisecond) (at_rest d) of (r, w) \<Rightarrow> (r = Inr (), db w))"

definition unique_drop :: "redis \<Rightarrow> Keys \<Rightarrow> TaskMessage \<Rightarrow> string \<Rightarrow> keyspace \<Rightarrow> keyspace" where
  "unique_drop R K m i d = db (snd (releaseUnique R (m\<lparr>ID := i, UniqueLock := lock_name K m\<rparr>) (at_rest d)))"

text \<open>The lifetime that a renewal leaves: the longer one of the old and the new.\<close>

definition renewed :: "int \<Rightarrow> entry \<Rightarrow> entry" where
  "renewed ms e = (case e of Some (v, Some t) \<Rightarrow> Some (v, Some (if 0 \<le> t \<and> t < ms then ms else t)) | _ \<Rightarrow> e)"

lemma Milliseconds_times [simp]: "Milliseconds (ms * Millisecond) = ms"
  by (simp add: Milliseconds_def quot_def Millisecond_def abs_mult sgn_mult sgn_mult_abs)

lemma lock_name_nonempty [simp]: "lock_name K m \<noteq> []"
  by (simp add: lock_name_def UniqueKey_def)

context redis_laws
begin

lemma leader_try_run:
  "wt K d \<Longrightarrow> 0 < ms \<Longrightarrow> leader_try R K p ms d =
   (case e_str (d (LeaderKey K)) of
      None \<Rightarrow> (True, vput (LeaderKey K) (Txt p) (Some ms) d)
    | Some v \<Rightarrow> if v = Txt p then (True, tput (LeaderKey K) ms d) else (False, d))"
  using acquireOrRenewCmd_run [of K d ms p]
  by (simp add: leader_try_def AcquireOrRenewLeadership_def Let_def split: option.split if_split)

lemma leader_drop_run:
  "wt K d \<Longrightarrow> leader_drop R K p d = (if e_str (d (LeaderKey K)) = Some (Txt p) then kdel (LeaderKey K) d else d)"
  using resignCmd_run [of K d p] PUBLISH by (simp add: leader_drop_def ResignLeadership_def)

lemma unique_try_run:
  assumes "wt K d" "qname_ok (Queue m)" "0 < ms"
  shows "\<exists>b. let d0 = sput (QueuesKey K) [Queue m] d in unique_try R K m i ms d =
    (if d (lock_name K m) = None
     then (True, unlist K (Queue m) i (xpush R (StreamKey K (Queue m)) i (store K (Queue m) i b StatePending
            (vput (lock_name K m) (Txt i) (Some ms) d0))))
     else (False, d0))"
proof -
  let ?u = "UniqueSuffix (Kind m) (Payload m)" and ?d0 = "sput (QueuesKey K) [Queue m] d"
  let ?b = "Doc (EncodeMessage (m\<lparr>ID := i, UniqueLock := lock_name K m, State := StatePending\<rparr>))"
  have wt: "wt K ?d0" using assms(1) by (simp add: key_render)
  have d0: "?d0 (lock_name K m) = d (lock_name K m)" using assms(2) by (simp add: lock_name_def key_render)
  have reg: "registerQueue R K (Queue m) (at_rest d) = (Inr (), known K (Queue m) (at_rest d))"
    "db (known K (Queue m) (at_rest d)) = ?d0" using assms(1) by (simp_all add: registerQueue_calm known_def)
  show ?thesis
    using enqueueUniqueCmd_run [OF wt assms(2,3), of ?u i ?b StatePending] assms(3) d0 reg
    by (intro exI [of _ ?b], cases "d (lock_name K m) = None")
      (auto simp: unique_try_def EnqueueUnique_def uniqueTTLMillis_def Let_def lock_name_def)
qed

lemma EnqueueUnique_taken:
  assumes "wt K d" "qname_ok (Queue m)" "0 < ms" "d (lock_name K m) \<noteq> None"
  shows "EnqueueUnique R K m (ms * Millisecond) (at_rest d) = (Inl ErrDuplicateTask,
    stepped (sput (QueuesKey K) [Queue m] d) (known K (Queue m) (at_rest d)))"
proof -
  let ?u = "UniqueSuffix (Kind m) (Payload m)" and ?d0 = "sput (QueuesKey K) [Queue m] d"
  let ?b = "Doc (EncodeMessage (m\<lparr>UniqueLock := lock_name K m, State := StatePending\<rparr>))"
  have wt: "wt K ?d0" using assms(1) by (simp add: key_render)
  have d0: "?d0 (lock_name K m) = d (lock_name K m)" using assms(2) by (simp add: lock_name_def key_render)
  have reg: "registerQueue R K (Queue m) (at_rest d) = (Inr (), known K (Queue m) (at_rest d))"
    "db (known K (Queue m) (at_rest d)) = ?d0" using assms(1) by (simp_all add: registerQueue_calm known_def)
  show ?thesis
    using enqueueUniqueCmd_run [OF wt assms(2,3), of ?u "ID m" ?b StatePending] assms(3,4) d0 reg
    by (auto simp: EnqueueUnique_def uniqueTTLMillis_def Let_def lock_name_def)
qed

lemma EnqueuePeriodic_run:
  fixes tr :: string and ttl :: duration
  assumes "calm w" "wt K (db w)" "qname_ok (Queue m)"
  defines "q \<equiv> Queue m" and "k \<equiv> PeriodicDedupKey K (Queue m) tr"
    and "ms \<equiv> if Milliseconds ttl < 1 then 1 else Milliseconds ttl"
  shows "EnqueuePeriodic R K m tr ttl w =
    (let d0 = db (known K q w) in
     if db w k = None
     then (Inr (), stepped (unlist K q (ID m) (xpush R (StreamKey K q) (ID m) (store K q (ID m)
            (Doc (EncodeMessage (m\<lparr>State := StatePending\<rparr>))) StatePending (vput k (Txt ''1'') (Some ms) d0)))) (known K q w))
     else (Inl ErrDuplicateTask, stepped d0 (known K q w)))"
proof -
  have ms: "0 < ms" by (simp add: ms_def)
  have k: "db (known K q w) k = db w k" using assms(3) by (simp add: k_def q_def key_render)
  show ?thesis
    using enqueuePeriodicCmd_run [OF wt_known [OF assms(2)] assms(3) ms, of tr "ID m"
        "Doc (EncodeMessage (m\<lparr>State := StatePending\<rparr>))" StatePending] assms(1-3) k
    by (auto simp: EnqueuePeriodic_def registerQueue_calm Let_def ms_def k_def q_def)
qed

lemma renew_all:
  "run_all (map (\<lambda>k. renewUniqueCmd R k ms) ks) d =
     (map (\<lambda>_. Inr 1) ks, \<lambda>k. if k \<in> set ks then renewed ms (d k) else d k)"
proof (induction ks arbitrary: d)
  case (Cons a ks)
  have one: "renewUniqueCmd R a ms d = (Inr 1, d(a := renewed ms (d a)))"
    by (auto simp: renewUniqueCmd_run renewed_def e_pttl_def tput_def mk_ttl_def fun_eq_iff split: option.split prod.split)
  have idem: "renewed ms (renewed ms e) = renewed ms e" for e
    by (auto simp: renewed_def split: option.split)
  show ?case by (auto simp: one Cons.IH idem)
qed simp

lemma unique_drop_run:
  "wt K d \<Longrightarrow> qname_ok (Queue m) \<Longrightarrow> unique_drop R K m i d =
   (if e_str (d (lock_name K m)) = Some (Txt i) then kdel (lock_name K m) d else d)"
  using releaseUniqueCmd_run [of K d "Queue m" "UniqueSuffix (Kind m) (Payload m)" i] lock_name_nonempty [of K m]
  by (simp add: unique_drop_def releaseUnique_def lock_name_def)

lemma leader_lock:
  "lease_lock (lease_space K (LeaderKey K)) (\<lambda>d. lease_of (d (LeaderKey K))) True (leader_try R K) (leader_drop R K) elapse"
proof
  fix d :: keyspace and ms n :: int and p
  assume d: "lease_space K (LeaderKey K) d"
  then have wt: "wt K d" and e: "lease_entry (d (LeaderKey K))" by (simp_all add: lease_space_def)
  have w: "lease_space K (LeaderKey K) (snd (leader_try R K p ms d)) \<and>
      (fst (leader_try R K p ms d), lease_of (snd (leader_try R K p ms d) (LeaderKey K))) =
      try_lease True p ms (lease_of (d (LeaderKey K)))" if "0 < ms"
    using e leader_try_run [OF wt that, of p] wt that
    by (cases rule: lease_entry_cases)
      (auto simp: try_lease_def lease_space_def lease_entry_def lease_of_def mk_ttl_def key_render)
  then show "lease_space K (LeaderKey K) (snd (leader_try R K p ms d))"
    "(fst (leader_try R K p ms d), lease_of (snd (leader_try R K p ms d) (LeaderKey K))) =
      try_lease True p ms (lease_of (d (LeaderKey K)))" if "0 < ms" using that by blast+
  show "lease_space K (LeaderKey K) (leader_drop R K p d)"
    "lease_of (leader_drop R K p d (LeaderKey K)) = drop_lease p (lease_of (d (LeaderKey K)))"
    using e leader_drop_run [OF wt, of p] wt
    by (cases rule: lease_entry_cases;
      auto simp: drop_lease_def lease_space_def lease_entry_def lease_of_def key_render)+
  show "lease_space K (LeaderKey K) (elapse n d)"
    "lease_of (elapse n d (LeaderKey K)) = age_lease n (lease_of (d (LeaderKey K)))" if "0 \<le> n"
    using lease_elapse [OF d that] by blast+
qed

lemma unique_lock:
  assumes "qname_ok (Queue m)"
  shows "lease_lock (lease_space K (lock_name K m)) (\<lambda>d. lease_of (d (lock_name K m))) False
    (unique_try R K m) (unique_drop R K m) elapse"
proof
  fix d :: keyspace and ms n :: int and p
  assume d: "lease_space K (lock_name K m) d"
  then have wt: "wt K d" and e: "lease_entry (d (lock_name K m))" by (simp_all add: lease_space_def)
  have w: "lease_space K (lock_name K m) (snd (unique_try R K m p ms d)) \<and>
      (fst (unique_try R K m p ms d), lease_of (snd (unique_try R K m p ms d) (lock_name K m))) =
      try_lease False p ms (lease_of (d (lock_name K m)))" if "0 < ms"
    using e unique_try_run [OF wt assms that, of p] wt that assms
    by (cases rule: lease_entry_cases)
      (auto simp: try_lease_def lease_space_def lease_entry_def lease_of_def write_defs lock_name_def key_render Let_def)
  then show "lease_space K (lock_name K m) (snd (unique_try R K m p ms d))"
    "(fst (unique_try R K m p ms d), lease_of (snd (unique_try R K m p ms d) (lock_name K m))) =
      try_lease False p ms (lease_of (d (lock_name K m)))" if "0 < ms" using that by blast+
  show "lease_space K (lock_name K m) (unique_drop R K m p d)"
    "lease_of (unique_drop R K m p d (lock_name K m)) = drop_lease p (lease_of (d (lock_name K m)))"
    using e unique_drop_run [OF wt assms, of p] wt assms
    by (cases rule: lease_entry_cases;
      auto simp: drop_lease_def lease_space_def lease_entry_def lease_of_def lock_name_def key_render)+
  show "lease_space K (lock_name K m) (elapse n d)"
    "lease_of (elapse n d (lock_name K m)) = age_lease n (lease_of (d (lock_name K m)))" if "0 \<le> n"
    using lease_elapse [OF d that] by blast+
qed

end

sublocale redis_laws \<subseteq> leader: lease_lock "lease_space K (LeaderKey K)" "\<lambda>d. lease_of (d (LeaderKey K))" True
  "leader_try R K" "leader_drop R K" elapse for K
  by (rule leader_lock)

context redis_laws
begin

lemmas leader_simulates = leader.simulates
lemmas leader_keeps = leader.exclusive

end

subsection \<open>Properties\<close>

text \<open>
  C7: leadership is a lease.  Whatever sequence of calls the scheduler instances make to acquire,
  renew and resign the leadership, with time passing in between, the same calls succeed and the same
  instance holds the lease for the same remaining time as in the abstract machine, in which a
  free lease goes to whoever asks, the holder renews it by asking again and only the holder gives
  it back.
\<close>

theorem leadership_refines_lease:
  assumes "redis_laws R" "lease_space K (LeaderKey K) d" "list_all op_ok ops"
    and "play (leader_try R K) (leader_drop R K) elapse ops d = (granted, d')"
  shows "play (try_lease True) drop_lease age_lease ops (lease_of (d (LeaderKey K))) =
    (granted, lease_of (d' (LeaderKey K)))"
  using redis_laws.leader_simulates [OF assms(1-3)] assms(4) by simp

theorem leadership_refines_lease_witness:
  "\<exists>granted d'. play (leader_try mem_redis DefaultKeys) (leader_drop mem_redis DefaultKeys) elapse
      [Try ''a'' 10, Wait 4, Try ''b'' 10, Try ''a'' 10, Wait 10, Try ''b'' 10] Map.empty = (granted, d') \<and>
    granted = [''a'', ''a'', ''b''] \<and> lease_of (d' (LeaderKey DefaultKeys)) = Some (''b'', 10)"
proof -
  let ?ops = "[Try ''a'' 10, Wait 4, Try ''b'' 10, Try ''a'' 10, Wait 10, Try ''b'' 10]"
  obtain granted d' where run: "play (leader_try mem_redis DefaultKeys) (leader_drop mem_redis DefaultKeys) elapse
      ?ops Map.empty = (granted, d')" by fastforce
  have "lease_space DefaultKeys (LeaderKey DefaultKeys) Map.empty" by (simp add: lease_space_def lease_entry_def)
  from leadership_refines_lease [OF mem.redis_laws_axioms this _ run] run show ?thesis
    by (simp add: lease_of_def try_lease_def age_lease_def)
qed

text \<open>
  C8: one leader at a time.  As long as the leader renews in time and does not resign, no other
  instance is granted the leadership, whatever the other instances call and however the calls
  interleave, and the leader still holds it at the end.
\<close>

theorem leader_exclusive:
  assumes "redis_laws R" "lease_space K (LeaderKey K) d" "list_all op_ok ops"
    and "lease_of (d (LeaderKey K)) = Some (p, t)" "keeps_lease True p t ops"
    and "play (leader_try R K) (leader_drop R K) elapse ops d = (granted, d')"
  shows "set granted \<subseteq> {p} \<and> (\<exists>t'. lease_of (d' (LeaderKey K)) = Some (p, t'))"
  using redis_laws.leader_keeps [OF assms(1-5)] assms(6) by simp

definition led :: keyspace where
  "led = vput (LeaderKey DefaultKeys) (Txt ''a'') (Some 10) Map.empty"

theorem leader_exclusive_witness:
  "\<exists>granted d'. play (leader_try mem_redis DefaultKeys) (leader_drop mem_redis DefaultKeys) elapse
      [Try ''b'' 10, Wait 9, Try ''a'' 10, Drop ''b'', Wait 9, Try ''b'' 10] led = (granted, d') \<and>
    set granted \<subseteq> {''a''} \<and> (\<exists>t'. lease_of (d' (LeaderKey DefaultKeys)) = Some (''a'', t'))"
proof -
  let ?ops = "[Try ''b'' 10, Wait 9, Try ''a'' 10, Drop ''b'', Wait 9, Try ''b'' 10]"
  obtain granted d' where run: "play (leader_try mem_redis DefaultKeys) (leader_drop mem_redis DefaultKeys) elapse
      ?ops led = (granted, d')" by fastforce
  have l: "led (LeaderKey DefaultKeys) = Some (RStr (Txt ''a''), Some 10)" by (simp add: led_def)
  have s: "lease_space DefaultKeys (LeaderKey DefaultKeys) led"
    by (simp add: lease_space_def lease_entry_def l) (simp add: led_def key_render)
  show ?thesis
    using leader_exclusive [OF mem.redis_laws_axioms s _ _ _ run, of "''a''" 10] run by (simp add: lease_of_def l)
qed

text \<open>
  C9: one unique task at a time.  While the task that took the lock of a unique task holds it,
  every attempt to enqueue another one with the same queue, kind and payload is refused and
  changes nothing but the set of queue names; the lock ends when its holder releases it or its time
  is over.
\<close>

theorem unique_exclusive:
  assumes "redis_laws R" "qname_ok (Queue m)" "lease_space K (lock_name K m) d" "list_all op_ok ops"
    and "lease_of (d (lock_name K m)) = Some (i, t)" "keeps_lease False i t ops"
    and "play (unique_try R K m) (unique_drop R K m) elapse ops d = (granted, d')"
  shows "granted = [] \<and> (\<exists>t'. lease_of (d' (lock_name K m)) = Some (i, t')) \<and>
    (\<forall>j ms. 0 < ms \<longrightarrow> EnqueueUnique R K (m\<lparr>ID := j\<rparr>) (ms * Millisecond) (at_rest d) =
       (Inl ErrDuplicateTask, stepped (sput (QueuesKey K) [Queue m] d) (known K (Queue m) (at_rest d))))"
proof (intro conjI allI impI)
  note lock = redis_laws.unique_lock [OF assms(1,2), of K]
  have x: "set (fst (play (unique_try R K m) (unique_drop R K m) elapse ops d)) \<subseteq> {i} \<and>
      (\<exists>t'. lease_of (snd (play (unique_try R K m) (unique_drop R K m) elapse ops d) (lock_name K m)) = Some (i, t'))"
    using lease_lock.exclusive [where held = "\<lambda>d. lease_of (d (lock_name K m))", OF lock assms(3-6)] .
  then show "\<exists>t'. lease_of (d' (lock_name K m)) = Some (i, t')" using assms(7) by simp
  have "play (try_lease False) drop_lease age_lease ops (Some (i, t)) = (granted, lease_of (d' (lock_name K m)))"
    using lease_lock.simulates [where held = "\<lambda>d. lease_of (d (lock_name K m))", OF lock assms(3,4)] assms(5,7) by simp
  from lease_refused [OF assms(6) this] show "granted = []" .
  fix j and ms :: int
  assume ms: "0 < ms"
  have "lock_name K (m\<lparr>ID := j\<rparr>) = lock_name K m" by (simp add: lock_name_def)
  then have "d (lock_name K (m\<lparr>ID := j\<rparr>)) \<noteq> None" using assms(5) by (cases "d (lock_name K m)") (auto simp: lease_of_def)
  from redis_laws.EnqueueUnique_taken [where d = d, OF assms(1) _ _ ms this] assms(2,3)
  show "EnqueueUnique R K (m\<lparr>ID := j\<rparr>) (ms * Millisecond) (at_rest d) =
      (Inl ErrDuplicateTask, stepped (sput (QueuesKey K) [Queue m] d) (known K (Queue m) (at_rest d)))"
    by (simp add: lease_space_def)
qed

definition locked :: keyspace where
  "locked = vput (lock_name DefaultKeys sample_task) (Txt ''a'') (Some 10) Map.empty"

theorem unique_exclusive_witness:
  "\<exists>granted d'. play (unique_try mem_redis DefaultKeys sample_task) (unique_drop mem_redis DefaultKeys sample_task) elapse
      [Try ''b'' 10, Wait 9, Drop ''b'', Try ''c'' 10] locked = (granted, d') \<and> granted = [] \<and>
    (\<exists>t'. lease_of (d' (lock_name DefaultKeys sample_task)) = Some (''a'', t')) \<and>
    fst (EnqueueUnique mem_redis DefaultKeys (sample_task\<lparr>ID := ''b''\<rparr>) (5 * Millisecond) (at_rest locked)) =
      Inl ErrDuplicateTask"
proof -
  let ?ops = "[Try ''b'' 10, Wait 9, Drop ''b'', Try ''c'' 10]" and ?k = "lock_name DefaultKeys sample_task"
  obtain granted d' where run: "play (unique_try mem_redis DefaultKeys sample_task)
      (unique_drop mem_redis DefaultKeys sample_task) elapse ?ops locked = (granted, d')" by fastforce
  have l: "locked ?k = Some (RStr (Txt ''a''), Some 10)" by (simp add: locked_def)
  have s: "lease_space DefaultKeys ?k locked"
    by (simp add: lease_space_def lease_entry_def l) (simp add: locked_def lock_name_def key_render)
  have q: "qname_ok (Queue sample_task)" by simp
  have "granted = [] \<and> (\<exists>t'. lease_of (d' ?k) = Some (''a'', t')) \<and>
    (\<forall>j ms. 0 < ms \<longrightarrow> EnqueueUnique mem_redis DefaultKeys (sample_task\<lparr>ID := j\<rparr>) (ms * Millisecond) (at_rest locked) =
       (Inl ErrDuplicateTask, stepped (sput (QueuesKey DefaultKeys) [Queue sample_task] locked)
          (known DefaultKeys (Queue sample_task) (at_rest locked))))"
    by (rule unique_exclusive [OF mem.redis_laws_axioms q s _ _ _ run, where t = 10]) (simp_all add: lease_of_def l)
  then show ?thesis using run by (metis fst_conv zero_less_numeral)
qed

text \<open>
  C29: the heartbeat never shortens a lock.  Renewing the locks of the running tasks leaves every
  key in place with its value; the remaining time of a listed lock becomes the renewal time when
  that is longer and stays as it is otherwise, and a lock that is gone is not created again.
\<close>

theorem RenewUnique_extends:
  assumes "redis_laws R" "calm w" "RenewUnique R ks ttl w = (r, w')"
  shows "r = Inr () \<and> db w' = (\<lambda>k. if k \<in> set ks then renewed (uniqueTTLMillis ttl) (db w k) else db w k)"
  using assms redis_laws.renew_all [OF assms(1), of "uniqueTTLMillis ttl" ks "db w"]
    redis_laws.first_err_Inr [OF assms(1), of "\<lambda>_. 1" ks]
  by (cases "ks = []") (auto simp: RenewUnique_def)

theorem RenewUnique_extends_witness:
  "\<exists>w'. RenewUnique mem_redis [lock_name DefaultKeys sample_task] (60 * Second) (at_rest locked) = (Inr (), w') \<and>
     lease_of (db w' (lock_name DefaultKeys sample_task)) = Some (''a'', 60000)"
proof -
  obtain r w' where run: "RenewUnique mem_redis [lock_name DefaultKeys sample_task] (60 * Second) (at_rest locked) = (r, w')"
    by fastforce
  have "uniqueTTLMillis (60 * Second) = 60000"
    by (simp add: uniqueTTLMillis_def Milliseconds_def quot_def Second_def Millisecond_def)
  with RenewUnique_extends [OF mem.redis_laws_axioms _ run] run show ?thesis
    by (simp add: locked_def renewed_def lease_of_def)
qed

text \<open>
  C10: a trigger of a periodic task is enqueued once.  When one scheduler has enqueued it, every
  further attempt for the same trigger and queue that comes before the dedup key expires is reported as a
  duplicate and adds no entry to the stream, whichever instance makes it.
\<close>

theorem periodic_once:
  assumes "redis_laws R" "calm w" "wt K (db w)" "qname_ok (Queue m)" "Queue m' = Queue m"
    and "EnqueuePeriodic R K m tr ttl w = (Inr (), w1)"
    and "calm w2" "db w2 = elapse n (db w1)" "0 \<le> n" "n < (if Milliseconds ttl < 1 then 1 else Milliseconds ttl)"
    and "EnqueuePeriodic R K m' tr ttl' w2 = (r, w3)"
  shows "r = Inl ErrDuplicateTask \<and>
    length (entries (strm K (Queue m) (db w1))) = Suc (length (entries (strm K (Queue m) (db w)))) \<and>
    entries (strm K (Queue m) (db w3)) = entries (strm K (Queue m) (db w1))"
proof -
  let ?q = "Queue m" and ?k = "PeriodicDedupKey K (Queue m) tr"
  note run1 = redis_laws.EnqueuePeriodic_run [OF assms(1-4), of tr ttl]
  have free: "db w ?k = None" using run1 assms(6) by (auto simp: Let_def split: if_splits)
  have w1: "wt K (db w1)" "db w1 ?k = Some (RStr (Txt ''1''), Some (if Milliseconds ttl < 1 then 1 else Milliseconds ttl))"
    "length (entries (strm K ?q (db w1))) = Suc (length (entries (strm K ?q (db w))))"
    using run1 assms(3,4,6) free redis_laws.wt_xpush [OF assms(1)]
    by (auto simp: Let_def strm_def write_defs key_render)
  have t: "e_ttl (db w1 (StreamKey K ?q)) = None"
    using wt_eok [OF w1(1), of "KStream ?q"] wt_types(1) [OF w1(1) assms(4)] assms(4)
    by (simp add: key_render e_ok_parts)
  have w2: "wt K (db w2)" "db w2 ?k \<noteq> None" "entries (strm K ?q (db w2)) = entries (strm K ?q (db w1))"
    using w1 assms(8,10) t by (auto simp: elapse_def strm_def simp del: wt_elapse) (use w1(1) wt_elapse in \<open>simp add: elapse_def\<close>)
  have "r = Inl ErrDuplicateTask \<and> w3 = stepped (db (known K ?q w2)) (known K ?q w2)"
    using redis_laws.EnqueuePeriodic_run [OF assms(1,7) w2(1), of m' tr ttl'] assms(4,5,11) w2(2) by (simp add: Let_def)
  then show ?thesis using w1(3) w2(3) assms(4) by simp
qed

theorem periodic_once_witness:
  "\<exists>w1 w3. EnqueuePeriodic mem_redis DefaultKeys sample_task ''s:60'' (24 * Hour) (at_rest open_queue) = (Inr (), w1) \<and>
     EnqueuePeriodic mem_redis DefaultKeys (sample_task\<lparr>ID := ''b''\<rparr>) ''s:60'' (24 * Hour) (at_rest (elapse 1000 (db w1))) =
       (Inl ErrDuplicateTask, w3)"
proof -
  have f: "db (at_rest open_queue) (PeriodicDedupKey DefaultKeys (Queue sample_task) ''s:60'') = None"
    by (simp add: open_queue_def key_render)
  have q: "qname_ok (Queue sample_task)" by simp
  obtain w1 where w1: "EnqueuePeriodic mem_redis DefaultKeys sample_task ''s:60'' (24 * Hour) (at_rest open_queue) = (Inr (), w1)"
    using mem.EnqueuePeriodic_run [OF _ _ q, of "at_rest open_queue" DefaultKeys "''s:60''" "24 * Hour"] f by (simp add: Let_def)
  obtain r w3 where w3: "EnqueuePeriodic mem_redis DefaultKeys (sample_task\<lparr>ID := ''b''\<rparr>) ''s:60'' (24 * Hour)
      (at_rest (elapse 1000 (db w1))) = (r, w3)" by fastforce
  have "r = Inl ErrDuplicateTask"
    using periodic_once [OF mem.redis_laws_axioms _ _ q _ w1 _ _ _ _ w3, of 1000]
    by (simp add: Milliseconds_def quot_def Hour_def Second_def Millisecond_def)
  with w1 w3 show ?thesis by blast
qed

end
