(* ===== verification/Fanin.thy ===== *)
theory Fanin
  imports Locks Safe_Group
begin

section \<open>Fan-in of a group\<close>

text \<open>
  The members of a group report their completion one by one, in any order, and a worker that is
  retried may report more than once.  The report that completes the group creates the callback
  task with the results of all members in the order in which they were added; every other report
  does not.
\<close>

subsection \<open>Groups and reports\<close>

text \<open>Member \<open>j\<close> of a group of \<open>n\<close> carries the same callback as all others and its own slot.\<close>

definition fan_in :: "string \<Rightarrow> string \<Rightarrow> ChainLink \<Rightarrow> nat \<Rightarrow> (nat \<Rightarrow> TaskMessage) \<Rightarrow> TaskMessage \<Rightarrow> bool" where
  "fan_in q g link n mem cb \<longleftrightarrow> 0 < n \<and> L_Queue link = q \<and> inj_on (\<lambda>j. memberSlot (mem j)) {..<n} \<and>
     (\<forall>j < n. GroupID (mem j) = g \<and> GroupQueue (mem j) = q \<and> GroupCallback (mem j) = Some link \<and>
        GroupIndex (mem j) = int j \<and> GroupSize (mem j) = int n \<and> callbackMessage (mem j) link = cb)"

fun reports :: "redis \<Rightarrow> Keys \<Rightarrow> (time \<times> TaskMessage) list \<Rightarrow> world \<Rightarrow> (err + bool) list \<times> world" where
  "reports R K [] w = ([], w)"
| "reports R K ((now, m) # ms) w =
     (case CompleteGroupMember R K now m w of (r, w1) \<Rightarrow>
        (case reports R K ms w1 of (rs, w2) \<Rightarrow> (r # rs, w2)))"

definition group_state :: "ChainLink \<Rightarrow> TaskState" where
  "group_state link = (if 0 < L_Delay link then StateScheduled else StatePending)"

text \<open>The results that the callback receives: none when no member has one.\<close>

definition gathered :: "nat \<Rightarrow> (nat \<Rightarrow> TaskMessage) \<Rightarrow> bytes list" where
  "gathered n mem = (if \<exists>j < n. Result (mem j) \<noteq> [] then map (Result \<circ> mem) [0..<n] else [])"

text \<open>The result hash holds the results of the members that have reported one.\<close>

definition collected :: "(nat \<Rightarrow> TaskMessage) \<Rightarrow> nat set \<Rightarrow> (string \<Rightarrow> rstr option) \<Rightarrow> bool" where
  "collected mem P h \<longleftrightarrow> (\<forall>f v. h f = Some v \<longleftrightarrow>
     (\<exists>j \<in> P. f = dec_int (int j) \<and> Result (mem j) \<noteq> [] \<and> v = Txt (b64_encode (Result (mem j)))))"

definition open_group ::
  "Keys \<Rightarrow> string \<Rightarrow> string \<Rightarrow> nat \<Rightarrow> (nat \<Rightarrow> TaskMessage) \<Rightarrow> string \<Rightarrow> nat set \<Rightarrow> keyspace \<Rightarrow> bool" where
  "open_group K q g n mem i P d \<longleftrightarrow> wt K d \<and> d (TaskKey K q i) = None \<and>
     e_set (d (GroupKey K q g)) = (\<lambda>j. memberSlot (mem j)) ` ({..<n} - P) \<and>
     collected mem P (e_hash (d (GroupResultKey K q g)))"

definition closed_group :: "Keys \<Rightarrow> string \<Rightarrow> string \<Rightarrow> string \<Rightarrow> rstr \<Rightarrow> keyspace \<Rightarrow> bool" where
  "closed_group K q g i raw d \<longleftrightarrow> wt K d \<and> d (GroupKey K q g) = None \<and> body K q i d = Some raw"

definition released :: "Keys \<Rightarrow> string \<Rightarrow> ChainLink \<Rightarrow> string \<Rightarrow> keyspace \<Rightarrow> keyspace \<Rightarrow> bool" where
  "released K q link i d d' \<longleftrightarrow>
     (if 0 < L_Delay link
      then i \<in> zmem (ScheduledKey K q) d' \<and> entries (strm K q d') = entries (strm K q d)
      else \<exists>e. entries (strm K q d') = entries (strm K q d) @ [(e, i)])"

lemma report_parts:
  assumes "qname_ok q"
  shows "e_set (report K q g m idx res d (GroupKey K q g)) = e_set (d (GroupKey K q g)) - {m}"
    "e_hash (report K q g m idx res d (GroupResultKey K q g)) =
      (if res = [] then e_hash (d (GroupResultKey K q g)) else (e_hash (d (GroupResultKey K q g)))(dec_int idx \<mapsto> Txt res))"
    "report K q g m idx res d (TaskKey K q i) = d (TaskKey K q i)"
    "strm K q (report K q g m idx res d) = strm K q d"
  using assms by (auto simp: report_def Let_def key_render strm_def GroupTTL_secs_eq)

lemma refresh_parts:
  assumes "qname_ok q"
  shows "e_set (refresh K q g d (GroupKey K q g)) = e_set (d (GroupKey K q g))"
    "e_hash (refresh K q g d (GroupResultKey K q g)) = e_hash (d (GroupResultKey K q g))"
    "refresh K q g d (TaskKey K q i) = d (TaskKey K q i)"
    "strm K q (refresh K q g d) = strm K q d"
  using assms by (auto simp: refresh_def Let_def key_render strm_def GroupTTL_secs_eq)

lemma close_parts:
  assumes "qname_ok q"
  shows "close_group K q g d (GroupKey K q g) = None" "strm K q (close_group K q g d) = strm K q d"
    "zmem (ScheduledKey K q) (close_group K q g d) = zmem (ScheduledKey K q) d"
  using assms by (auto simp: close_group_def key_render strm_def zmem_def)

lemma collected_empty: "collected mem {} Map.empty"
  by (simp add: collected_def)

lemma collected_insert:
  assumes "collected mem P h"
  shows "collected mem (insert j P) (if Result (mem j) = [] then h
    else h(dec_int (int j) \<mapsto> Txt (b64_encode (Result (mem j)))))"
  using assms unfolding collected_def by auto

lemma collected_json:
  assumes "collected mem P h" "j \<in> P"
  shows "result_json h j = (if Result (mem j) = [] then JNull else JStr (b64_encode (Result (mem j))))"
proof (cases "Result (mem j) = []")
  case True
  have "h (dec_int (int j)) = None"
    using assms(1) True unfolding collected_def by (cases "h (dec_int (int j))") auto
  then show ?thesis using True by (simp add: result_json_def)
next
  case False
  then have "h (dec_int (int j)) = Some (Txt (b64_encode (Result (mem j))))"
    using assms unfolding collected_def by blast
  then show ?thesis using False by (simp add: result_json_def)
qed

lemma those_map_Some: "(\<And>x. x \<in> set xs \<Longrightarrow> f x = Some (h x)) \<Longrightarrow> those (map f xs) = Some (map h xs)"
  by (induction xs) auto

lemma gathered_decode:
  assumes "collected mem {..<n} h"
  shows "those (map (\<lambda>v. dbytes (Some v)) (map (result_json h) [0..<n])) = Some (map (Result \<circ> mem) [0..<n])"
    and "list_all cjson_safe (map (result_json h) [0..<n])"
  using collected_json [OF assms]
  by (auto simp: list_all_iff comp_def intro!: those_map_Some)

lemma collected_none:
  "collected mem {..<n} h \<Longrightarrow> h = Map.empty \<longleftrightarrow> (\<forall>j < n. Result (mem j) = [])"
proof -
  assume c: "collected mem {..<n} h"
  show "h = Map.empty \<longleftrightarrow> (\<forall>j < n. Result (mem j) = [])"
  proof
    assume "h = Map.empty"
    then show "\<forall>j < n. Result (mem j) = []" using c unfolding collected_def by (metis lessThan_iff option.distinct(1))
  next
    assume none: "\<forall>j < n. Result (mem j) = []"
    have "h f = None" for f using c none unfolding collected_def by (cases "h f") auto
    then show "h = Map.empty" by blast
  qed
qed

context redis_laws
begin

text \<open>The message that is stored for the callback.\<close>

lemma embed_gathered:
  assumes "plain_wf K cb" "wt K d" "qname_ok q" "0 < n" "collected mem {..<n} (e_hash (d (GroupResultKey K q g)))"
  shows "DecodeMessage (embed_results R (EncodeMessage cb) (d (GroupResultKey K q g)) (int n)) =
    Some (cb\<lparr>GroupResults := gathered n mem\<rparr>)"
proof -
  let ?e = "d (GroupResultKey K q g)"
  have ok: "msg_ok cb" using assms(1) by (simp add: plain_wf_def task_wf_def msg_ok_def)
  have "is_hash ?e" "e_ok ?e" using assms(2,3) wt_eok [OF assms(2), of "KGroupResult q g"] by (simp_all add: key_render)
  then have none: "?e = None \<longleftrightarrow> (\<forall>j < n. Result (mem j) = [])"
    using e_ok_parts(7) [of ?e] collected_none [OF assms(5)] by simp
  show ?thesis
  proof (cases "?e = None")
    case True
    moreover have "gathered n mem = GroupResults cb"
      using True none assms(1) by (auto simp: gathered_def plain_wf_def)
    ultimately show ?thesis using ok by (simp add: embed_results_def)
  next
    case False
    let ?js = "map (result_json (e_hash ?e)) [0..<n]"
    have "cjson_safe (EncodeMessage cb)"
      using assms(1) cjson_safe_message by (auto simp: plain_wf_def)
    moreover have "cjson_safe (JArr ?js)"
      using gathered_decode(2) [OF assms(5)] assms(4) by (simp add: list_all_iff)
    ultimately have "embed_results R (EncodeMessage cb) ?e (int n) = jset (EncodeMessage cb) ''group_results'' (JArr ?js)"
      using False assms(4) by (simp add: embed_results_def cjson_decode cjson_encode cjson_safe_jset)
    moreover have "gathered n mem = map (Result \<circ> mem) [0..<n]" using False none by (auto simp: gathered_def)
    ultimately show ?thesis using Decode_results [OF ok gathered_decode(1) [OF assms(5)]] by simp
  qed
qed

lemma rt_flag:
  "calm w \<Longrightarrow> c (db w) = (if a then (Inr 0, x) else if b then (Inr 0, y) else if e then (Inr 0, z) else (Inr 1, u)) \<Longrightarrow>
   andthen (rt c) (\<lambda>n::int. return (n = 1)) w =
     (if a then (Inr False, stepped x w) else if b then (Inr False, stepped y w)
      else if e then (Inr False, stepped z w) else (Inr True, stepped u w))"
  by (cases a; cases b; cases e) simp_all

lemma CompleteGroupMember_calm:
  fixes now :: time
  assumes "calm w" "wt K (db w)" "qname_ok q" "GroupCallback m = Some link" "GroupQueue m = q" "L_Queue link = q"
  defines "cb \<equiv> callbackMessage m link" and "d0 \<equiv> db (known K q w)"
  defines "d1 \<equiv> report K q (GroupID m) (memberSlot m) (GroupIndex m) (resultB64 m) d0"
  defines "raw \<equiv> Doc (embed_results R (EncodeMessage (cb\<lparr>State := group_state link\<rparr>))
      (d1 (GroupResultKey K q (GroupID m))) (GroupSize m))"
  defines "d2 \<equiv> store K q (ID cb) raw (group_state link) (close_group K q (GroupID m) d1)"
  shows "CompleteGroupMember R K now m w =
    (if d0 (GroupKey K q (GroupID m)) = None then (Inr False, stepped d0 (known K q w))
     else if e_set (d1 (GroupKey K q (GroupID m))) \<noteq> {} then (Inr False, stepped (refresh K q (GroupID m) d1) (known K q w))
     else if d0 (TaskKey K q (ID cb)) \<noteq> None then (Inr False, stepped (close_group K q (GroupID m) d1) (known K q w))
     else (Inr True, stepped (if 0 < L_Delay link
            then zput (ScheduledKey K q) (int_score (Unix (now + int64 (L_Delay link * Second)))) (ID cb) d2
            else xpush R (StreamKey K q) (ID cb) d2) (known K q w)))"
proof -
  let ?mode = "if 0 < L_Delay link then ''zset'' else ''stream''"
  let ?dest = "if 0 < L_Delay link then ScheduledKey K q else StreamKey K q"
  have q: "Queue cb = q" using assms(6) by (simp add: cb_def callbackMessage_def zeroMessage_def Let_def)
  have wt0: "wt K d0" using assms(2) by (simp add: d0_def)
  note run = groupCompleteCmd_run [OF wt0 assms(3), where mode = ?mode and dest = ?dest and g = "GroupID m"
      and i = "ID cb" and m = "memberSlot m" and cb = "EncodeMessage (cb\<lparr>State := group_state link\<rparr>)"
      and st = "group_state link" and res = "resultB64 m" and idx = "GroupIndex m" and n = "GroupSize m"]
  have r: "registerQueue R K q w = (Inr (), known K q w)" by (rule registerQueue_calm [OF assms(1,2)])
  have fire: "CompleteGroupMember R K now m w = andthen (rt (groupCompleteCmd R (GroupKey K q (GroupID m))
      (TaskKey K q (ID cb)) ?dest (GroupResultKey K q (GroupID m)) (memberSlot m)
      (EncodeMessage (cb\<lparr>State := group_state link\<rparr>)) (Num (group_state link)) (ID cb) ?mode
      (int_score (if 0 < L_Delay link then Unix (now + int64 (L_Delay link * Second)) else 0))
      GroupTTL_secs (resultB64 m) (GroupIndex m) (GroupSize m))) (\<lambda>n. return (n = 1)) (known K q w)"
    using r q assms(4-6) by (simp add: CompleteGroupMember_def Let_def cb_def group_state_def)
  show ?thesis
    unfolding fire
  proof (rule rt_flag)
    show "calm (known K q w)" using assms(1) by simp
    show "groupCompleteCmd R (GroupKey K q (GroupID m))
      (TaskKey K q (ID cb)) ?dest (GroupResultKey K q (GroupID m)) (memberSlot m)
      (EncodeMessage (cb\<lparr>State := group_state link\<rparr>)) (Num (group_state link)) (ID cb) ?mode
      (int_score (if 0 < L_Delay link then Unix (now + int64 (L_Delay link * Second)) else 0))
      GroupTTL_secs (resultB64 m) (GroupIndex m) (GroupSize m) (db (known K q w)) =
      (if d0 (GroupKey K q (GroupID m)) = None then (Inr 0, d0)
       else if e_set (d1 (GroupKey K q (GroupID m))) \<noteq> {} then (Inr 0, refresh K q (GroupID m) d1)
       else if d0 (TaskKey K q (ID cb)) \<noteq> None then (Inr 0, close_group K q (GroupID m) d1)
       else (Inr 1, if 0 < L_Delay link
              then zput (ScheduledKey K q) (int_score (Unix (now + int64 (L_Delay link * Second)))) (ID cb) d2
              else xpush R (StreamKey K q) (ID cb) d2))"
      using run unfolding Let_def d0_def [symmetric] d1_def [symmetric] raw_def [symmetric] d2_def [symmetric]
      by (cases "0 < L_Delay link") simp_all
  qed
qed

lemma fan_in_step:
  assumes f: "fan_in q g link n mem cb" and q: "qname_ok q" and w: "calm w"
    and o: "open_group K q g n mem (ID cb) P (db w)" and P: "P \<subset> {..<n}" and j: "j < n"
    and cb: "plain_wf K (cb\<lparr>State := group_state link\<rparr>)"
  shows "insert j P \<noteq> {..<n} \<Longrightarrow> \<exists>w'. CompleteGroupMember R K now (mem j) w = (Inr False, w') \<and> calm w' \<and>
      open_group K q g n mem (ID cb) (insert j P) (db w') \<and> strm K q (db w') = strm K q (db w)"
    and "insert j P = {..<n} \<Longrightarrow> \<exists>w' raw. CompleteGroupMember R K now (mem j) w = (Inr True, w') \<and> calm w' \<and>
      closed_group K q g (ID cb) raw (db w') \<and> released K q link (ID cb) (db w) (db w') \<and>
      decode_body raw = Some (cb\<lparr>State := group_state link, GroupResults := gathered n mem\<rparr>)"
proof -
  let ?m = "mem j" and ?d0 = "db (known K q w)"
  let ?d1 = "report K q g (memberSlot ?m) (int j) (resultB64 ?m) ?d0"
  have m: "GroupCallback ?m = Some link" "GroupQueue ?m = q" "L_Queue link = q" "GroupID ?m = g"
    "GroupIndex ?m = int j" "GroupSize ?m = int n" "callbackMessage ?m link = cb" "0 < n"
    using f j by (simp_all add: fan_in_def)
  have o': "wt K (db w)" "db w (TaskKey K q (ID cb)) = None"
    "e_set (db w (GroupKey K q g)) = (\<lambda>j. memberSlot (mem j)) ` ({..<n} - P)"
    "collected mem P (e_hash (db w (GroupResultKey K q g)))"
    using o by (simp_all add: open_group_def)
  have d0: "wt K ?d0" "?d0 (TaskKey K q (ID cb)) = None" "?d0 (GroupKey K q g) = db w (GroupKey K q g)"
    "?d0 (GroupResultKey K q g) = db w (GroupResultKey K q g)"
    using o'(1,2) q by (simp_all add: key_render)
  have pres: "?d0 (GroupKey K q g) \<noteq> None" using o'(3) P d0(3) by (cases "db w (GroupKey K q g)") auto
  have slots: "e_set (?d1 (GroupKey K q g)) = (\<lambda>j. memberSlot (mem j)) ` ({..<n} - insert j P)"
    using f j o'(3) d0(3) q by (simp add: report_parts fan_in_def) (auto simp: inj_on_def)
  have empty: "e_set (?d1 (GroupKey K q g)) = {} \<longleftrightarrow> insert j P = {..<n}"
    using slots P j by auto
  have coll: "collected mem (insert j P) (e_hash (?d1 (GroupResultKey K q g)))"
    using collected_insert [OF o'(4), of j] q d0(4) by (auto simp: report_parts resultB64_def b64_encode_Nil_iff)
  note run = CompleteGroupMember_calm [OF w o'(1) q m(1-3), of now, unfolded m(4-7)]
  show "\<exists>w'. CompleteGroupMember R K now ?m w = (Inr False, w') \<and> calm w' \<and>
      open_group K q g n mem (ID cb) (insert j P) (db w') \<and> strm K q (db w') = strm K q (db w)"
    if "insert j P \<noteq> {..<n}"
    using run pres empty that w coll slots d0(1,2) q
    by (auto simp: open_group_def refresh_parts report_parts)
  show "\<exists>w' raw. CompleteGroupMember R K now ?m w = (Inr True, w') \<and> calm w' \<and>
      closed_group K q g (ID cb) raw (db w') \<and> released K q link (ID cb) (db w) (db w') \<and>
      decode_body raw = Some (cb\<lparr>State := group_state link, GroupResults := gathered n mem\<rparr>)"
    if all: "insert j P = {..<n}"
  proof -
    let ?raw = "Doc (embed_results R (EncodeMessage (cb\<lparr>State := group_state link\<rparr>)) (?d1 (GroupResultKey K q g)) (int n))"
    let ?d2 = "store K q (ID cb) ?raw (group_state link) (close_group K q g ?d1)"
    let ?d3 = "if 0 < L_Delay link
      then zput (ScheduledKey K q) (int_score (Unix (now + int64 (L_Delay link * Second)))) (ID cb) ?d2
      else xpush R (StreamKey K q) (ID cb) ?d2"
    have r: "CompleteGroupMember R K now ?m w = (Inr True, stepped ?d3 (known K q w))"
      using run pres empty all d0(2) by simp
    have wt1: "wt K ?d1" using d0(1) q by simp
    have c: "closed_group K q g (ID cb) ?raw ?d3"
      using wt1 q by (auto simp: closed_group_def body_def store_def key_render close_group_def)
    have rel: "released K q link (ID cb) (db w) ?d3"
      using q by (simp add: released_def zmem_def strm_def store_def key_render)
        (simp add: close_group_def report_def Let_def key_render)
    have "decode_body ?raw = Some (cb\<lparr>State := group_state link, GroupResults := gathered n mem\<rparr>)"
      using embed_gathered [OF cb wt1 q m(8), of mem g] coll all by simp
    with r c rel w show ?thesis by (intro exI [of _ "stepped ?d3 (known K q w)"] exI [of _ ?raw]) simp
  qed
qed

lemma closed_step:
  assumes f: "fan_in q g link n mem cb" and q: "qname_ok q" and w: "calm w"
    and c: "closed_group K q g i raw (db w)" and j: "j < n"
  shows "\<exists>w'. CompleteGroupMember R K now (mem j) w = (Inr False, w') \<and> calm w' \<and>
    closed_group K q g i raw (db w') \<and> strm K q (db w') = strm K q (db w) \<and>
    zmem (ScheduledKey K q) (db w') = zmem (ScheduledKey K q) (db w)"
proof -
  have m: "GroupCallback (mem j) = Some link" "GroupQueue (mem j) = q" "L_Queue link = q" "GroupID (mem j) = g"
    using f j by (simp_all add: fan_in_def)
  have wt: "wt K (db w)" using c by (simp add: closed_group_def)
  have "db (known K q w) (GroupKey K q g) = None" using c q by (simp add: closed_group_def key_render)
  then have "CompleteGroupMember R K now (mem j) w = (Inr False, stepped (db (known K q w)) (known K q w))"
    using CompleteGroupMember_calm [OF w wt q m(1-3), of now] m(4) by simp
  moreover have "closed_group K q g i raw (db (known K q w))"
    using c q by (auto simp: closed_group_def key_render)
  moreover have "zmem (ScheduledKey K q) (db (known K q w)) = zmem (ScheduledKey K q) (db w)"
    using q by (simp add: zmem_def key_render)
  ultimately show ?thesis using w q by simp
qed

lemma reports_closed:
  assumes f: "fan_in q g link n mem cb" and q: "qname_ok q"
  shows "calm w \<Longrightarrow> closed_group K q g i raw (db w) \<Longrightarrow> \<forall>(t, j) \<in> set js. j < n \<Longrightarrow>
    \<exists>w'. reports R K (map (apsnd mem) js) w = (map (\<lambda>_. Inr False) js, w') \<and>
      closed_group K q g i raw (db w') \<and> strm K q (db w') = strm K q (db w) \<and>
      zmem (ScheduledKey K q) (db w') = zmem (ScheduledKey K q) (db w)"
proof (induction js arbitrary: w)
  case (Cons p js)
  obtain t j where p: "p = (t, j)" by fastforce
  have "j < n" using Cons.prems(3) p by simp
  then obtain w1 where w1: "CompleteGroupMember R K t (mem j) w = (Inr False, w1)" "calm w1"
    "closed_group K q g i raw (db w1)" "strm K q (db w1) = strm K q (db w)"
    "zmem (ScheduledKey K q) (db w1) = zmem (ScheduledKey K q) (db w)"
    using closed_step [OF f q Cons.prems(1,2)] by blast
  from Cons.IH [OF w1(2,3)] Cons.prems(3) w1 p show ?case by auto
qed simp

lemma reports_open:
  assumes f: "fan_in q g link n mem cb" and q: "qname_ok q" and cb: "plain_wf K (cb\<lparr>State := group_state link\<rparr>)"
  shows "calm w \<Longrightarrow> open_group K q g n mem (ID cb) P (db w) \<Longrightarrow> P \<subset> {..<n} \<Longrightarrow> \<forall>(t, j) \<in> set js. j < n \<Longrightarrow>
    \<exists>rs w'. reports R K (map (apsnd mem) js) w = (rs, w') \<and> set rs \<subseteq> {Inr True, Inr False} \<and>
      (if P \<union> snd ` set js = {..<n}
       then length (filter (\<lambda>r. r = Inr True) rs) = 1 \<and>
         (\<exists>raw. closed_group K q g (ID cb) raw (db w') \<and> released K q link (ID cb) (db w) (db w') \<and>
           decode_body raw = Some (cb\<lparr>State := group_state link, GroupResults := gathered n mem\<rparr>))
       else length (filter (\<lambda>r. r = Inr True) rs) = 0 \<and> db w' (TaskKey K q (ID cb)) = None)"
proof (induction js arbitrary: w P)
  case Nil
  then show ?case by (auto simp: open_group_def)
next
  case (Cons p js)
  obtain t j where p: "p = (t, j)" by fastforce
  have j: "j < n" and js: "\<forall>(t, j) \<in> set js. j < n" using Cons.prems(4) p by auto
  note step = fan_in_step [OF f q Cons.prems(1,2,3) j cb, of t]
  show ?case
  proof (cases "insert j P = {..<n}")
    case True
    then obtain w1 raw where w1: "CompleteGroupMember R K t (mem j) w = (Inr True, w1)" "calm w1"
      "closed_group K q g (ID cb) raw (db w1)" "released K q link (ID cb) (db w) (db w1)"
      "decode_body raw = Some (cb\<lparr>State := group_state link, GroupResults := gathered n mem\<rparr>)"
      using step(2) by blast
    obtain w2 where w2: "reports R K (map (apsnd mem) js) w1 = (map (\<lambda>_. Inr False) js, w2)"
      "closed_group K q g (ID cb) raw (db w2)" "strm K q (db w2) = strm K q (db w1)"
      "zmem (ScheduledKey K q) (db w2) = zmem (ScheduledKey K q) (db w1)"
      using reports_closed [OF f q w1(2,3) js] by blast
    have "released K q link (ID cb) (db w) (db w2)" using w1(4) w2(3,4) by (simp add: released_def)
    moreover have "P \<union> snd ` set (p # js) = {..<n}" using True js p by auto
    moreover have "reports R K (map (apsnd mem) (p # js)) w = (Inr True # map (\<lambda>_. Inr False) js, w2)"
      using w1(1) w2(1) p by simp
    ultimately show ?thesis using w1(5) w2(2) by (auto simp: filter_empty_conv)
  next
    case False
    then obtain w1 where w1: "CompleteGroupMember R K t (mem j) w = (Inr False, w1)" "calm w1"
      "open_group K q g n mem (ID cb) (insert j P) (db w1)" "strm K q (db w1) = strm K q (db w)"
      using step(1) by blast
    have P: "insert j P \<subset> {..<n}" using False Cons.prems(3) j by auto
    have e: "P \<union> snd ` set (p # js) = insert j P \<union> snd ` set js" using p by auto
    have rel: "released K q link (ID cb) (db w1) d = released K q link (ID cb) (db w) d" for d
      using w1(4) by (simp add: released_def)
    obtain rs w2 where r: "reports R K (map (apsnd mem) js) w1 = (rs, w2)" by fastforce
    have "reports R K (map (apsnd mem) (p # js)) w = (Inr False # rs, w2)" using w1(1) r p by simp
    then show ?thesis using Cons.IH [OF w1(2,3) P js] r unfolding e rel by (auto split: if_splits)
  qed
qed

lemma CreateGroup_calm:
  assumes "calm w" "wt K (db w)" "qname_ok q" "ms \<noteq> []"
  shows "CreateGroup R K q g ms w = (Inr (), stepped (tput (GroupKey K q g) (1000 * GroupTTL_secs)
    (sput (GroupKey K q g) ms (db w))) w)"
  using assms by (simp add: CreateGroup_def typed_commands key_render untyped_commands)

end

subsection \<open>Properties\<close>

text \<open>
  C6: the callback of a group runs once and sees all results.  After the group is created its
  members report in any order and any number of times.  Exactly one report, the one after which all
  members have reported, creates the callback; until then there is none.  The callback is stored and
  put on the stream of its queue with exactly one entry, or scheduled when it is delayed, and its
  message is the one that the group was built with, carrying the result of every member at the
  position at which the member was added.
\<close>

theorem group_callback_once:
  assumes "redis_laws R" "calm w" "wt K (db w)" "qname_ok q" "fan_in q g link n mem cb"
    and "plain_wf K (cb\<lparr>State := group_state link\<rparr>)"
    and "db w (GroupKey K q g) = None" "db w (GroupResultKey K q g) = None" "db w (TaskKey K q (ID cb)) = None"
    and "CreateGroup R K q g (map (\<lambda>j. memberSlot (mem j)) [0..<n]) w = (r, w0)"
    and "\<forall>(t, j) \<in> set js. j < n" "reports R K (map (apsnd mem) js) w0 = (rs, w')"
  shows "r = Inr () \<and> set rs \<subseteq> {Inr True, Inr False} \<and>
    (if snd ` set js = {..<n}
     then length (filter (\<lambda>x. x = Inr True) rs) = 1 \<and> released K q link (ID cb) (db w) (db w') \<and>
       (\<exists>raw. body K q (ID cb) (db w') = Some raw \<and>
          decode_body raw = Some (cb\<lparr>State := group_state link, GroupResults := gathered n mem\<rparr>))
     else Inr True \<notin> set rs \<and> body K q (ID cb) (db w') = None)"
proof -
  let ?ms = "map (\<lambda>j. memberSlot (mem j)) [0..<n]"
  have n: "0 < n" using assms(5) by (simp add: fan_in_def)
  then have run: "r = Inr ()" "w0 = stepped (tput (GroupKey K q g) (1000 * GroupTTL_secs) (sput (GroupKey K q g) ?ms (db w))) w"
    using redis_laws.CreateGroup_calm [OF assms(1-4), of ?ms g] assms(10) by simp_all
  have o: "open_group K q g n mem (ID cb) {} (db w0)"
    using run(2) assms(3,4,7-9) collected_empty
    by (auto simp: open_group_def key_render GroupTTL_secs_eq)
  have c: "calm w0" and s: "strm K q (db w0) = strm K q (db w)"
    using run(2) assms(2,4) by (simp_all add: strm_def key_render)
  have rel: "released K q link (ID cb) (db w0) d = released K q link (ID cb) (db w) d" for d
    using s by (simp add: released_def)
  have "{} \<subset> {..<n}" using n by blast
  from redis_laws.reports_open [OF assms(1,5,4,6) c o this assms(11)] assms(12)
  show ?thesis using run(1) unfolding rel
    by (auto simp: closed_group_def body_def filter_empty_conv split: if_splits)
qed

definition sample_link :: ChainLink where
  "sample_link = \<lparr>L_Kind = ''sum'', L_Payload = [], L_Queue = ''q'', L_MaxRetry = 3, L_NoArchive = False,
     L_Retention = 0, L_Delay = 0, L_Group = []\<rparr>"

definition sample_member :: "nat \<Rightarrow> TaskMessage" where
  "sample_member j = zeroMessage\<lparr>ID := ''g:'' @ dec_int (int j), Kind := ''part'', Queue := ''q'', GroupID := ''g'',
     GroupQueue := ''q'', GroupCallback := Some sample_link, GroupIndex := int j, GroupSize := 2, Result := [of_nat j]\<rparr>"

definition sample_callback :: TaskMessage where
  "sample_callback = zeroMessage\<lparr>ID := ''g:cb'', Kind := ''sum'', Queue := ''q'', MaxRetry := 3\<rparr>"

theorem group_callback_once_witness:
  "\<exists>w0 rs w' raw. CreateGroup mem_redis DefaultKeys ''q'' ''g'' [''g:0'', ''g:1''] (at_rest open_queue) = (Inr (), w0) \<and>
     reports mem_redis DefaultKeys (map (apsnd sample_member) [(0, 1), (0, 0), (0, 1)]) w0 = (rs, w') \<and>
     length (filter (\<lambda>x. x = Inr True) rs) = 1 \<and> body DefaultKeys ''q'' ''g:cb'' (db w') = Some raw \<and>
     decode_body raw = Some (sample_callback\<lparr>State := StatePending, GroupResults := [[0], [1]]\<rparr>)"
proof -
  let ?js = "[(0, 1), (0, 0), (0, 1)] :: (time \<times> nat) list"
  have slots: "map (\<lambda>j. memberSlot (sample_member j)) [0..<2] = [''g:0'', ''g:1'']"
    by (simp add: memberSlot_def sample_member_def zeroMessage_def upt_rec dec_int_def dec_nat.simps digit_def)
      code_simp
  have f: "fan_in ''q'' ''g'' sample_link 2 sample_member sample_callback"
    by (auto simp: fan_in_def sample_link_def sample_member_def zeroMessage_def memberSlot_def inj_on_def
        callbackMessage_def sample_callback_def Let_def)
  have st: "group_state sample_link = StatePending" by (simp add: group_state_def sample_link_def)
  have wf: "plain_wf DefaultKeys (sample_callback\<lparr>State := group_state sample_link\<rparr>)"
    unfolding st by (simp add: plain_wf_def task_wf_def msg_ok_def sample_callback_def zeroMessage_def small_def
        state_defs int64_ok_def lock_ok_def)
  have none: "db (at_rest open_queue) (GroupKey DefaultKeys ''q'' ''g'') = None"
    "db (at_rest open_queue) (GroupResultKey DefaultKeys ''q'' ''g'') = None"
    "db (at_rest open_queue) (TaskKey DefaultKeys ''q'' (ID sample_callback)) = None"
    by (simp_all add: open_queue_def key_render)
  obtain r w0 where c: "CreateGroup mem_redis DefaultKeys ''q'' ''g'' (map (\<lambda>j. memberSlot (sample_member j)) [0..<2])
      (at_rest open_queue) = (r, w0)" by fastforce
  obtain rs w' where rep: "reports mem_redis DefaultKeys (map (apsnd sample_member) ?js) w0 = (rs, w')" by fastforce
  have ga: "gathered 2 sample_member = [[0], [1]]"
    by (auto simp: gathered_def sample_member_def zeroMessage_def upt_rec intro: exI [of _ 0])
  have all: "snd ` set ?js = {..<2}" by (auto simp: less_2_cases_iff)
  have id: "ID sample_callback = ''g:cb''" by (simp add: sample_callback_def)
  from group_callback_once [OF mem.redis_laws_axioms _ _ _ f wf none c _ rep] all ga st c rep id slots
  show ?thesis by auto
qed

end
