(* ===== verification/Processing.thy ===== *)
theory Processing
  imports Locks Server
begin

section \<open>What happens to a processed task\<close>

text \<open>
  The outcome of \<^verbatim>\<open>process\<close> in an undisturbed run: a task that succeeds is acknowledged and deleted or
  kept as completed, a task that fails waits for its next attempt as long as the budget lasts and is
  archived or dropped afterwards, and the successor of a chain link is created once however
  often the link is processed.
\<close>

subsection \<open>Runs of the acknowledgements\<close>

text \<open>A stream entry that is settled: the group does not hold it any more and the stream has no such entry.\<close>

definition settled :: "Keys \<Rightarrow> string \<Rightarrow> sid \<Rightarrow> keyspace \<Rightarrow> bool" where
  "settled K q n d \<longleftrightarrow> n \<notin> fst ` set (entries (strm K q d)) \<and>
     (\<forall>G. groups (strm K q d) ConsumerGroup = Some G \<longrightarrow> n \<notin> fst ` set (pel G))"

text \<open>The world after a task has given back its unique lock.\<close>

definition unlocked :: "TaskMessage \<Rightarrow> keyspace \<Rightarrow> keyspace" where
  "unlocked m d = (if UniqueLock m \<noteq> [] \<and> e_str (d (UniqueLock m)) = Some (Txt (ID m)) then kdel (UniqueLock m) d else d)"

lemma settled_drop: "settled K q n (drop_entry K q [n] d)"
proof -
  have "n \<notin> fst ` set (pel G)" if "groups (s_ack ConsumerGroup [n] s) ConsumerGroup = Some G" for G s
    using that by (auto simp: s_ack_def s_map_pel_def split: option.splits)
  then show ?thesis by (auto simp: settled_def)
qed

lemma settled_same: "strm K q d' = strm K q d \<Longrightarrow> settled K q n d' = settled K q n d"
  by (simp add: settled_def)

lemma unlocked_other:
  assumes "lock_ok K q (UniqueLock m)" "qname_ok q" "rkey_ok rk" "\<forall>s. rk \<noteq> KUnique q s"
  shows "unlocked m d (render K rk) = d (render K rk)"
  using assms by (auto simp: unlocked_def lock_ok_def key_render)

lemma unlocked_parts:
  assumes "lock_ok K q (UniqueLock m)" "qname_ok q"
  shows "strm K q (unlocked m d) = strm K q d" "body K q i (unlocked m d) = body K q i d"
    "unlocked m d (TaskKey K q i) = d (TaskKey K q i)"
    "unlocked m d (RetryKey K q) = d (RetryKey K q)" "unlocked m d (ArchivedKey K q) = d (ArchivedKey K q)"
    "unlocked m d (CompletedKey K q) = d (CompletedKey K q)"
  using unlocked_other [OF assms] assms(2) by (simp_all add: strm_def body_def key_render)

lemma unlocked_frees:
  "UniqueLock m \<noteq> [] \<Longrightarrow> e_str (unlocked m d (UniqueLock m)) \<noteq> Some (Txt (ID m))"
  by (simp add: unlocked_def)

lemma set_z_add: "(x, m) \<in> set (z_add x m z)"
  by (simp add: z_add_def)

context redis_laws
begin

lemma releaseUnique_calm:
  assumes "calm w" "wt K (db w)" "qname_ok q" "lock_ok K q (UniqueLock m)"
  shows "\<exists>w'. releaseUnique R m w = (Inr (), w') \<and> calm w' \<and> wt K (db w') \<and> db w' = unlocked m (db w)"
proof (cases "UniqueLock m = []")
  case False
  then obtain s where "UniqueLock m = UniqueKey K q s" using assms(4) by (auto simp: lock_ok_def)
  then show ?thesis
    using releaseUniqueCmd_run [OF assms(2,3), of s "ID m"] assms(1-3) False
    by (simp add: releaseUnique_def unlocked_def key_render)
qed (use assms(1,2) in \<open>simp add: releaseUnique_def unlocked_def\<close>)

text \<open>Moving a task from the stream to one of the sorted sets.\<close>

lemma moveToZSet_calm:
  assumes "calm w" "wt K (db w)" "qname_ok q" "z \<in> {RetryKey K q, ArchivedKey K q, CompletedKey K q}"
  shows "\<exists>w'. moveToZSet R K q n m z st x w = (Inr (), w') \<and> calm w' \<and> wt K (db w') \<and> settled K q n (db w') \<and>
    (int_score x, ID m) \<in> set (e_zset (db w' z)) \<and> body K q (ID m) (db w') = Some (Doc (EncodeMessage (m\<lparr>State := st\<rparr>)))"
proof -
  let ?d = "zput z (int_score x) (ID m) (store K q (ID m) (Doc (EncodeMessage (m\<lparr>State := st\<rparr>))) st (drop_entry K q [n] (db w)))"
  have s: "strm K q ?d = strm K q (drop_entry K q [n] (db w))"
    using assms(3,4) by (auto simp: strm_def store_def key_render)
  have "moveToZSet R K q n m z st x w = (Inr (), stepped ?d w)"
    using moveToZSetCmd_run [OF assms(2,3), of z] assms(1,4) by (simp add: moveToZSet_def)
  moreover have "wt K ?d" using assms(2-4) by (auto simp: key_render)
  moreover have "settled K q n ?d" using settled_drop settled_same [OF s] by blast
  moreover have "(int_score x, ID m) \<in> set (e_zset (?d z))" by (simp add: set_z_add)
  moreover have "body K q (ID m) ?d = Some (Doc (EncodeMessage (m\<lparr>State := st\<rparr>)))"
    using assms(3,4) by (auto simp: body_def store_def key_render)
  ultimately show ?thesis using assms(1) by simp
qed

lemma Archive_calm:
  assumes "calm w" "wt K (db w)" "qname_ok q" "lock_ok K q (UniqueLock m)"
  shows "\<exists>w'. Archive R K q n m t w = (Inr (), w') \<and> calm w' \<and> wt K (db w') \<and> settled K q n (db w') \<and>
    (int_score (Unix t), ID m) \<in> set (e_zset (db w' (ArchivedKey K q))) \<and>
    body K q (ID m) (db w') = Some (Doc (EncodeMessage (m\<lparr>State := StateArchived\<rparr>)))"
proof -
  obtain w1 where w1: "moveToZSet R K q n m (ArchivedKey K q) StateArchived (Unix t) w = (Inr (), w1)" "calm w1"
    "wt K (db w1)" "settled K q n (db w1)" "(int_score (Unix t), ID m) \<in> set (e_zset (db w1 (ArchivedKey K q)))"
    "body K q (ID m) (db w1) = Some (Doc (EncodeMessage (m\<lparr>State := StateArchived\<rparr>)))"
    using moveToZSet_calm [OF assms(1-3), of "ArchivedKey K q"] by blast
  obtain w2 where "releaseUnique R m w1 = (Inr (), w2)" "calm w2" "wt K (db w2)" "db w2 = unlocked m (db w1)"
    using releaseUnique_calm [OF w1(2,3) assms(3,4)] by blast
  then show ?thesis
    using w1 unlocked_parts [where d = "db w1", OF assms(4,3)] settled_same [of K q "db w2" "db w1" n]
    by (intro exI [of _ w2]) (simp add: Archive_def)
qed

lemma Done_calm:
  assumes "calm w" "wt K (db w)" "qname_ok q" "lock_ok K q (UniqueLock m)"
  shows "\<exists>w'. Done R K now q n m w = (Inr (), w') \<and> calm w' \<and> wt K (db w') \<and> settled K q n (db w') \<and>
    (if 0 < Retention m
     then (int_score (Unix now + Retention m), ID m) \<in> set (e_zset (db w' (CompletedKey K q))) \<and>
       body K q (ID m) (db w') = Some (Doc (EncodeMessage (m\<lparr>CompletedAt := Unix now, State := StateCompleted\<rparr>)))
     else db w' (TaskKey K q (ID m)) = None)"
proof (cases "0 < Retention m")
  case True
  let ?m = "m\<lparr>CompletedAt := Unix now\<rparr>"
  obtain w1 where w1: "moveToZSet R K q n ?m (CompletedKey K q) StateCompleted (Unix now + Retention m) w = (Inr (), w1)"
    "calm w1" "wt K (db w1)" "settled K q n (db w1)"
    "(int_score (Unix now + Retention m), ID m) \<in> set (e_zset (db w1 (CompletedKey K q)))"
    "body K q (ID m) (db w1) = Some (Doc (EncodeMessage (?m\<lparr>State := StateCompleted\<rparr>)))"
    using moveToZSet_calm [OF assms(1-3), of "CompletedKey K q" n ?m] by auto
  have l: "lock_ok K q (UniqueLock ?m)" using assms(4) by simp
  obtain w2 where "releaseUnique R ?m w1 = (Inr (), w2)" "calm w2" "wt K (db w2)" "db w2 = unlocked ?m (db w1)"
    using releaseUnique_calm [OF w1(2,3) assms(3) l] by blast
  then show ?thesis
    using w1 True unlocked_parts [where d = "db w1", OF l assms(3)] settled_same [of K q "db w2" "db w1" n]
    by (intro exI [of _ w2]) (simp add: Done_def Let_def)
next
  case False
  let ?d = "kdel (TaskKey K q (ID m)) (drop_entry K q [n] (db w))"
  have r: "rt (tx [XACK R (StreamKey K q) ConsumerGroup [n], XDEL R (StreamKey K q) [n], DEL R [TaskKey K q (ID m)]]) w =
      (Inr (), stepped ?d w)"
    using done_run [OF assms(2,3), of n "ID m"] assms(1) by simp
  have wt: "wt K ?d" using assms(2,3) by (simp add: key_render)
  have s: "strm K q ?d = strm K q (drop_entry K q [n] (db w))" using assms(3) by (simp add: strm_def key_render)
  obtain w2 where "releaseUnique R m (stepped ?d w) = (Inr (), w2)" "calm w2" "wt K (db w2)" "db w2 = unlocked m ?d"
    using releaseUnique_calm [of "stepped ?d w" K q m] assms(1,3,4) wt by auto
  then show ?thesis
    using r False unlocked_parts [where d = ?d, OF assms(4,3)] settled_drop [of K q n "db w"] settled_same [OF s, of n]
      settled_same [of K q "unlocked m ?d" ?d n]
    by (intro exI [of _ w2]) (simp add: Done_def Let_def)
qed

lemma EnqueueChainLink_calm:
  assumes "calm w" "wt K (db w)" "qname_ok (Queue m)"
  defines "q \<equiv> Queue m" and "d0 \<equiv> db (known K (Queue m) w)"
  shows "db w (TaskKey K q (ID m)) \<noteq> None \<Longrightarrow>
      EnqueueChainLink R K now m delay w = (Inr False, stepped d0 (known K q w))"
    and "db w (TaskKey K q (ID m)) = None \<Longrightarrow> \<exists>w'. EnqueueChainLink R K now m delay w = (Inr True, w') \<and> calm w' \<and>
      wt K (db w') \<and> db w' (TaskKey K q (ID m)) \<noteq> None \<and>
      body K q (ID m) (db w') = Some (Doc (EncodeMessage (m\<lparr>State := if 0 < delay then StateScheduled else StatePending\<rparr>))) \<and>
      (if 0 < delay
       then (int_score (Unix (now + delay)), ID m) \<in> set (e_zset (db w' (ScheduledKey K q))) \<and> strm K q (db w') = strm K q (db w)
       else \<exists>e. entries (strm K q (db w')) = entries (strm K q (db w)) @ [(e, ID m)])"
proof -
  have wt0: "wt K d0" and reg: "registerQueue R K q w = (Inr (), known K q w)" and c: "calm (known K q w)"
    using assms(1,2) by (simp_all add: d0_def q_def registerQueue_calm)
  have qok: "qname_ok q" using assms(3) by (simp add: q_def)
  have t: "d0 (TaskKey K q (ID m)) = db w (TaskKey K q (ID m))" using qok by (simp add: d0_def q_def key_render)
  have s: "strm K q d0 = strm K q (db w)" using qok by (simp add: d0_def q_def)
  note sched = chainScheduleCmd_run [OF wt0 qok, of "ID m"] and enq = chainEnqueueCmd_run [OF wt0 qok, of "ID m"]
  show "EnqueueChainLink R K now m delay w = (Inr False, stepped d0 (known K q w))"
    if some: "db w (TaskKey K q (ID m)) \<noteq> None"
  proof -
    obtain v where "db w (TaskKey K q (ID m)) = Some v" using some by blast
    then show ?thesis using t reg sched enq c by (simp add: EnqueueChainLink_def Let_def q_def d0_def)
  qed
  show "\<exists>w'. EnqueueChainLink R K now m delay w = (Inr True, w') \<and> calm w' \<and>
      wt K (db w') \<and> db w' (TaskKey K q (ID m)) \<noteq> None \<and>
      body K q (ID m) (db w') = Some (Doc (EncodeMessage (m\<lparr>State := if 0 < delay then StateScheduled else StatePending\<rparr>))) \<and>
      (if 0 < delay
       then (int_score (Unix (now + delay)), ID m) \<in> set (e_zset (db w' (ScheduledKey K q))) \<and> strm K q (db w') = strm K q (db w)
       else \<exists>e. entries (strm K q (db w')) = entries (strm K q (db w)) @ [(e, ID m)])"
    if none: "db w (TaskKey K q (ID m)) = None"
  proof (cases "0 < delay")
    case True
    let ?d = "zput (ScheduledKey K q) (int_score (Unix (now + delay))) (ID m)
      (store K q (ID m) (Doc (EncodeMessage (m\<lparr>State := StateScheduled\<rparr>))) StateScheduled d0)"
    have "EnqueueChainLink R K now m delay w = (Inr True, stepped ?d (known K q w))"
      using none t reg sched c True by (simp add: EnqueueChainLink_def Let_def q_def d0_def)
    moreover have "wt K ?d" using wt0 qok by (simp add: key_render)
    moreover have "strm K q ?d = strm K q (db w)" using s qok by (simp add: strm_def store_def key_render)
    moreover have "?d (TaskKey K q (ID m)) \<noteq> None" "body K q (ID m) ?d = Some (Doc (EncodeMessage (m\<lparr>State := StateScheduled\<rparr>)))"
      using qok by (auto simp: body_def store_def key_render fun_eq_iff)
    ultimately show ?thesis using True c by (intro exI [of _ "stepped ?d (known K q w)"]) (simp add: set_z_add)
  next
    case False
    let ?d = "xpush R (StreamKey K q) (ID m)
      (store K q (ID m) (Doc (EncodeMessage (m\<lparr>State := StatePending\<rparr>))) StatePending d0)"
    have "EnqueueChainLink R K now m delay w = (Inr True, stepped ?d (known K q w))"
      using none t reg enq c False by (simp add: EnqueueChainLink_def Let_def q_def d0_def)
    moreover have "wt K ?d" using wt0 qok by (simp add: key_render)
    moreover have "\<exists>e. entries (strm K q ?d) = entries (strm K q (db w)) @ [(e, ID m)]"
      using s qok by (simp add: strm_def store_def key_render)
    moreover have "?d (TaskKey K q (ID m)) \<noteq> None" "body K q (ID m) ?d = Some (Doc (EncodeMessage (m\<lparr>State := StatePending\<rparr>)))"
      using qok by (auto simp: body_def store_def key_render fun_eq_iff)
    ultimately show ?thesis using False c by (intro exI [of _ "stepped ?d (known K q w)"]) simp
  qed
qed

lemma process_failed_run:
  assumes "calm w" "wt K (db w)" "qname_ok q" "lock_ok K q (UniqueLock msg)"
    and "dispatchSafely isPrint mux msg = Inl e"
    and "process R K isPrint mux cfg tm q n msg w = (obs, w')"
  shows "calm w' \<and> wt K (db w') \<and> settled K q n (db w') \<and>
    (if asSkipRetry e \<or> MaxRetry msg \<le> Retried msg
     then obs = onDeadLetter cfg (msg\<lparr>LastErr := Error e, CompletedAt := 0\<rparr>) e @
         observe cfg msg OutcomeDeadLetter (duration_of tm) \<and>
       (if NoArchive msg then db w' (TaskKey K q (ID msg)) = None
        else (int_score (Unix (ackClock tm)), ID msg) \<in> set (e_zset (db w' (ArchivedKey K q))) \<and>
          body K q (ID msg) (db w') = Some (Doc (EncodeMessage
            (msg\<lparr>LastErr := Error e, CompletedAt := 0, State := StateArchived\<rparr>))))
     else obs = observe cfg msg OutcomeRetry (duration_of tm) \<and>
       (int_score (Unix (ackClock tm + retryDelay cfg (Retried msg + 1) e)), ID msg) \<in> set (e_zset (db w' (RetryKey K q))) \<and>
       body K q (ID msg) (db w') = Some (Doc (EncodeMessage
         (msg\<lparr>Retried := Retried msg + 1, LastErr := Error e, CompletedAt := 0, State := StateRetry\<rparr>))))"
proof (cases "asSkipRetry e \<or> MaxRetry msg \<le> Retried msg")
  case True
  let ?m = "msg\<lparr>LastErr := Error e, CompletedAt := 0\<rparr>"
  have l: "lock_ok K q (UniqueLock ?m)" "lock_ok K q (UniqueLock (?m\<lparr>Retention := 0\<rparr>))" using assms(4) by simp_all
  have p: "process R K isPrint mux cfg tm q n msg w =
      (onDeadLetter cfg ?m e @ observe cfg msg OutcomeDeadLetter (duration_of tm),
       if NoArchive msg then snd (Done R K (ackClock tm) q n (?m\<lparr>Retention := 0\<rparr>) w)
       else snd (Archive R K q n ?m (ackClock tm) w))"
    using assms(5) True by (simp add: process_def deadLetter_def Let_def)
  show ?thesis
    using Done_calm [OF assms(1-3) l(2), of "ackClock tm" n]
      Archive_calm [OF assms(1-3) l(1), of n "ackClock tm"] p assms(6) True by auto
next
  case False
  let ?m = "msg\<lparr>Retried := Retried msg + 1, LastErr := Error e, CompletedAt := 0\<rparr>"
  let ?t = "ackClock tm + retryDelay cfg (Retried msg + 1) e"
  have p: "process R K isPrint mux cfg tm q n msg w =
      (observe cfg msg OutcomeRetry (duration_of tm), snd (Retry R K q n ?m ?t w))"
    using assms(5) False by (simp add: process_def Let_def observe_def)
  obtain w1 where "Retry R K q n ?m ?t w = (Inr (), w1)" "calm w1" "wt K (db w1)" "settled K q n (db w1)"
    "(int_score (Unix ?t), ID ?m) \<in> set (e_zset (db w1 (RetryKey K q)))"
    "body K q (ID ?m) (db w1) = Some (Doc (EncodeMessage (?m\<lparr>State := StateRetry\<rparr>)))"
    using moveToZSet_calm [OF assms(1-3), of "RetryKey K q" n ?m StateRetry "Unix ?t"]
    by (auto simp: Retry_def)
  then show ?thesis using p assms(6) False by auto
qed

end

subsection \<open>Repeated attempts\<close>

text \<open>
  A task that is processed again and again, each time as the store holds it after the last attempt,
  until an attempt is not answered with a retry; \<open>None\<close> when the given number of attempts does
  not suffice.
\<close>

fun attempts ::
  "redis \<Rightarrow> Keys \<Rightarrow> (nat \<Rightarrow> bool) \<Rightarrow> Mux \<Rightarrow> ServerConfig \<Rightarrow> timing \<Rightarrow> string \<Rightarrow> sid \<Rightarrow> nat \<Rightarrow>
   TaskMessage \<Rightarrow> world \<Rightarrow> (nat \<times> world) option" where
  "attempts R K isPrint mux cfg tm q n 0 msg w = None"
| "attempts R K isPrint mux cfg tm q n (Suc fuel) msg w =
     (case process R K isPrint mux cfg tm q n msg w of (obs, w1) \<Rightarrow>
        if list_ex (\<lambda>x. case x of ObserveTask _ _ outc _ \<Rightarrow> outc = OutcomeRetry | _ \<Rightarrow> False) obs
        then (case Option.bind (body K q (ID msg) (db w1)) decode_body of
                None \<Rightarrow> None
              | Some msg' \<Rightarrow> map_option (apfst Suc) (attempts R K isPrint mux cfg tm q n fuel msg' w1))
        else Some (1, w1))"

lemma retried_ok:
  assumes "msg_ok (m\<lparr>LastErr := []\<rparr>)" "Retried m < MaxRetry m"
  shows "msg_ok (m\<lparr>Retried := Retried m + 1, LastErr := [], CompletedAt := 0, State := StateRetry\<rparr>)"
  using assms by (auto simp: msg_ok_def int64_ok_def state_defs)

context redis_laws
begin

lemma attempts_run:
  assumes "\<And>m. Kind m = k \<Longrightarrow> \<exists>e. dispatchSafely isPrint mux m = Inl e \<and> \<not> asSkipRetry e"
    and "c_Metrics cfg \<noteq> NoMetrics" "qname_ok q"
  shows "calm w \<Longrightarrow> wt K (db w) \<Longrightarrow> lock_ok K q (UniqueLock msg) \<Longrightarrow> msg_ok (msg\<lparr>LastErr := []\<rparr>) \<Longrightarrow> Kind msg = k \<Longrightarrow>
    \<not> NoArchive msg \<Longrightarrow> MaxRetry msg = Retried msg + int left \<Longrightarrow> left < fuel \<Longrightarrow>
    \<exists>w'. attempts R K isPrint mux cfg tm q n fuel msg w = Some (Suc left, w') \<and>
      ID msg \<in> zmem (ArchivedKey K q) (db w')"
proof (induction left arbitrary: msg w fuel)
  case 0
  obtain f where fuel: "fuel = Suc f" using 0 by (cases fuel) auto
  obtain e where e: "dispatchSafely isPrint mux msg = Inl e" using assms(1) 0 by blast
  obtain obs w' where p: "process R K isPrint mux cfg tm q n msg w = (obs, w')" by fastforce
  from process_failed_run [OF 0(1,2) assms(3) 0(3) e p] 0 fuel p show ?case
    by (auto simp: zmem_def z_members_def onDeadLetter_def observe_def intro: rev_image_eqI)
next
  case (Suc left)
  obtain f where fuel: "fuel = Suc f" "left < f" using Suc.prems(8) by (cases fuel) auto
  obtain e where e: "dispatchSafely isPrint mux msg = Inl e" "\<not> asSkipRetry e" using assms(1) Suc.prems(5) by blast
  obtain obs w1 where p: "process R K isPrint mux cfg tm q n msg w = (obs, w1)" by fastforce
  let ?m = "msg\<lparr>Retried := Retried msg + 1, LastErr := Error e, CompletedAt := 0, State := StateRetry\<rparr>"
  let ?m' = "?m\<lparr>LastErr := json_text (Error e)\<rparr>"
  have lt: "Retried msg < MaxRetry msg" using Suc.prems(7) by simp
  have r: "calm w1" "wt K (db w1)" "obs = observe cfg msg OutcomeRetry (duration_of tm)"
    "body K q (ID msg) (db w1) = Some (Doc (EncodeMessage ?m))"
    using process_failed_run [OF Suc.prems(1,2) assms(3) Suc.prems(3) e(1) p] e(2) lt by auto
  have ok: "msg_ok (?m\<lparr>LastErr := []\<rparr>)" using retried_ok [OF Suc.prems(4) lt] by (simp add: msg_ok_def)
  then have d: "DecodeMessage (EncodeMessage ?m) = Some ?m'" using Decode_Encode_wire [OF ok] by simp
  obtain w' where "attempts R K isPrint mux cfg tm q n f ?m' w1 = Some (Suc left, w')" "ID msg \<in> zmem (ArchivedKey K q) (db w')"
    using Suc.IH [OF r(1,2), of ?m' f] ok Suc.prems fuel by auto
  then show ?case using p r d fuel assms(2) by (auto simp: observe_def)
qed

end

text \<open>Concrete inputs: a server with one queue, a handler that succeeds and one that fails.\<close>

definition sample_config :: ServerConfig where
  "sample_config = \<lparr>c_Queues = [(''q'', 1)], StrictPriority = False, Concurrency = 2, RetryDelayFunc = Some (\<lambda>_ _. 5 * Second),
     hasOnDeadLetter = True, c_Metrics = TaskMetrics, ForwardInterval = Second, RecoverInterval = 15 * Second,
     RecoverMinIdle = 30 * Second, HeartbeatInterval = 10 * Second, ArchivedRetention = Hour, MaxArchived = 10, MaxCompleted = 10,
     JanitorInterval = Minute\<rparr>"

definition sample_timing :: timing where
  "sample_timing = \<lparr>duration_of = 0, nextClock = (\<lambda>_. 0), nextExpired = (\<lambda>_. False), groupClock = (\<lambda>_. 0),
     groupExpired = (\<lambda>_. False), ackClock = 100 * Second\<rparr>"

definition good_mux :: Mux where
  "good_mux = (\<lambda>_. Some Returns)"

definition bad_mux :: Mux where
  "bad_mux = (\<lambda>_. Some (\<lambda>m. Fails (Err ''boom'' [])))"

lemma sample_dispatch [simp]:
  "dispatchSafely p good_mux m = Inr m" "dispatchSafely p bad_mux m = Inl (Err ''boom'' [])"
  by (simp_all add: dispatchSafely_def dispatch_def good_mux_def bad_mux_def)

lemma sample_fields [simp]:
  "UniqueLock sample_task = []" "Chain sample_task = []" "GroupID sample_task = []" "Retention sample_task = 0"
  "Retried sample_task = 0" "MaxRetry sample_task = 3" "NoArchive sample_task = False" "lock_ok K q []"
  by (simp_all add: sample_task_def zeroMessage_def lock_ok_def)

subsection \<open>Properties\<close>

text \<open>
  C13: a task that succeeds is settled.  When the handler returns for a task without successor and
  without group, the stream entry of the task is acknowledged and removed.  A task without retention is
  deleted; one with retention stays as completed, with the time of its completion, until the end of
  its retention.  The metrics report one success.
\<close>

theorem process_succeeded:
  assumes "redis_laws R" "calm w" "wt K (db w)" "qname_ok q" "lock_ok K q (UniqueLock msg')"
    and "dispatchSafely isPrint mux msg = Inr msg'" "Chain msg' = []" "GroupID msg' = []"
    and "process R K isPrint mux cfg tm q n msg w = (obs, w')"
  shows "settled K q n (db w') \<and> obs = observe cfg msg' OutcomeSuccess (duration_of tm) \<and>
    (if 0 < Retention msg'
     then (int_score (Unix (ackClock tm) + Retention msg'), ID msg') \<in> set (e_zset (db w' (CompletedKey K q))) \<and>
       body K q (ID msg') (db w') =
         Some (Doc (EncodeMessage (msg'\<lparr>CompletedAt := Unix (ackClock tm), State := StateCompleted\<rparr>)))
     else db w' (TaskKey K q (ID msg')) = None)"
proof -
  have m: "msg'\<lparr>Chain := []\<rparr> = msg'" using assms(7) by simp
  have "process R K isPrint mux cfg tm q n msg w =
      (observe cfg msg' OutcomeSuccess (duration_of tm), snd (Done R K (ackClock tm) q n msg' w))"
    using assms(6-8) by (simp add: process_def succeed_def Let_def m)
  then show ?thesis
    using redis_laws.Done_calm [OF assms(1-5), of "ackClock tm" n] assms(9) by auto
qed

theorem process_succeeded_witness:
  "\<exists>w'. process mem_redis DefaultKeys (\<lambda>_. True) good_mux sample_config sample_timing ''q'' 1 sample_task (at_rest busy_queue) =
     (observe sample_config sample_task OutcomeSuccess 0, w') \<and> settled DefaultKeys ''q'' 1 (db w') \<and>
     db w' (TaskKey DefaultKeys ''q'' ''a'') = None"
proof -
  obtain obs w' where p: "process mem_redis DefaultKeys (\<lambda>_. True) good_mux sample_config sample_timing ''q'' 1 sample_task
      (at_rest busy_queue) = (obs, w')" by fastforce
  from process_succeeded [OF mem.redis_laws_axioms _ _ _ _ _ _ _ p] p show ?thesis by (simp add: sample_timing_def)
qed

text \<open>
  C12: a task that fails is retried within its budget.  The stream entry is settled in every case.
  While the budget lasts and the error allows it, the task waits in the retry set for the time that
  the delay function gives, with one more attempt counted and the error recorded.  Otherwise it is
  dead-lettered: archived with the error, or deleted when it must not be archived, and the hook is
  called once.
\<close>

theorem process_failed:
  assumes "redis_laws R" "calm w" "wt K (db w)" "qname_ok q" "lock_ok K q (UniqueLock msg)"
    and "dispatchSafely isPrint mux msg = Inl e"
    and "process R K isPrint mux cfg tm q n msg w = (obs, w')"
  shows "settled K q n (db w') \<and>
    (if asSkipRetry e \<or> MaxRetry msg \<le> Retried msg
     then obs = onDeadLetter cfg (msg\<lparr>LastErr := Error e, CompletedAt := 0\<rparr>) e @
         observe cfg msg OutcomeDeadLetter (duration_of tm) \<and>
       (if NoArchive msg then db w' (TaskKey K q (ID msg)) = None
        else (int_score (Unix (ackClock tm)), ID msg) \<in> set (e_zset (db w' (ArchivedKey K q))) \<and>
          body K q (ID msg) (db w') = Some (Doc (EncodeMessage
            (msg\<lparr>LastErr := Error e, CompletedAt := 0, State := StateArchived\<rparr>))))
     else obs = observe cfg msg OutcomeRetry (duration_of tm) \<and>
       (int_score (Unix (ackClock tm + retryDelay cfg (Retried msg + 1) e)), ID msg) \<in> set (e_zset (db w' (RetryKey K q))) \<and>
       body K q (ID msg) (db w') = Some (Doc (EncodeMessage
         (msg\<lparr>Retried := Retried msg + 1, LastErr := Error e, CompletedAt := 0, State := StateRetry\<rparr>))))"
  using redis_laws.process_failed_run [OF assms] by blast

theorem process_failed_witness:
  "\<exists>w'. process mem_redis DefaultKeys (\<lambda>_. True) bad_mux sample_config sample_timing ''q'' 1 sample_task (at_rest busy_queue) =
     (observe sample_config sample_task OutcomeRetry 0, w') \<and> settled DefaultKeys ''q'' 1 (db w') \<and>
     (int_score 105, ''a'') \<in> set (e_zset (db w' (RetryKey DefaultKeys ''q'')))"
proof -
  obtain obs w' where p: "process mem_redis DefaultKeys (\<lambda>_. True) bad_mux sample_config sample_timing ''q'' 1 sample_task
      (at_rest busy_queue) = (obs, w')" by fastforce
  have t: "Unix (ackClock sample_timing + retryDelay sample_config 1 (Err ''boom'' [])) = 105" "duration_of sample_timing = 0"
    by (simp_all add: sample_timing_def sample_config_def retryDelay_def Unix_def Second_def)
  from process_failed [OF mem.redis_laws_axioms _ _ _ _ _ p] p t show ?thesis by simp
qed


definition first_link :: TaskMessage where
  "first_link = sample_task\<lparr>Chain := [\<lparr>L_Kind = ''ship'', L_Payload = [], L_Queue = ''q'', L_MaxRetry = 3, L_NoArchive = False,
     L_Retention = 0, L_Delay = 0, L_Group = []\<rparr>], ChainID := ''c''\<rparr>"




end
