(* ===== verification/Maintenance.thy ===== *)
theory Maintenance
  imports Processing Safe_Admin Inspector
begin

section \<open>What the maintenance loops and the inspector do\<close>

text \<open>
  The janitor removes the oldest tasks of the archived and completed sets, the recoverer takes over
  the tasks of consumers that have died, and an operator promotes or deletes a task.
\<close>

subsection \<open>Trimming\<close>

text \<open>How many of the oldest members a trim removes.\<close>

definition trim_count :: "score \<Rightarrow> int \<Rightarrow> int \<Rightarrow> zset \<Rightarrow> nat" where
  "trim_count x batch maxSize z =
     (let e = min (nat batch) (length (filter (\<lambda>(y, m). y \<le> x) z))
      in if maxSize < 0 then e else e + min (nat batch) (length z - e - nat maxSize))"

lemma filter_prefix:
  assumes "sorted_wrt r xs" "\<And>a b. r a b \<Longrightarrow> P b \<Longrightarrow> P a"
  shows "filter P xs = take (length (filter P xs)) xs"
  using assms(1)
proof (induction xs)
  case (Cons a xs)
  show ?case
  proof (cases "P a")
    case False
    then have "filter P xs = []" using Cons.prems assms(2) by (auto simp: filter_empty_conv)
    then show ?thesis using False by simp
  qed (use Cons in simp)
qed simp

lemma filter_drop:
  "distinct (map snd z) \<Longrightarrow> filter (\<lambda>(x, m). m \<notin> snd ` set (take k z)) z = drop k z"
proof (induction z arbitrary: k)
  case (Cons p z)
  show ?case
  proof (cases k)
    case 0
    then show ?thesis by simp
  next
    case (Suc j)
    have "filter (\<lambda>(x, m). m \<notin> snd ` set (take k (p # z))) z = filter (\<lambda>(x, m). m \<notin> snd ` set (take j z)) z"
      using Cons.prems Suc by (intro filter_cong) (auto simp: rev_image_eqI)
    then show ?thesis using Cons Suc by (auto simp: case_prod_unfold)
  qed
qed simp

lemma z_upto_take:
  assumes "z_ok z" "0 \<le> batch"
  shows "z_upto x batch z = map snd (take (min (nat batch) (length (filter (\<lambda>(y, m). y \<le> x) z))) z)"
proof -
  have "filter (\<lambda>(y, m). y \<le> x) z = take (length (filter (\<lambda>(y, m). y \<le> x) z)) z"
    using assms(1) by (intro filter_prefix [where r = "\<lambda>(x, m) (y, n). x < y \<or> x = y \<and> m < n"]) (auto simp: z_ok_def)
  then show ?thesis
    using assms(2) by (metis z_upto_def z_limit_def not_less take_map take_take)
qed

definition trim_one :: "Keys \<Rightarrow> string \<Rightarrow> string \<Rightarrow> string \<Rightarrow> keyspace \<Rightarrow> keyspace" where
  "trim_one K q z i d = zdel z i (kdel (TaskKey K q i) d)"

lemma trim_fold:
  assumes "qname_ok q" "z \<in> {ArchivedKey K q, CompletedKey K q}"
  shows "e_zset (fold (trim_one K q z) ids d z) = filter (\<lambda>(x, m). m \<notin> set ids) (e_zset (d z))"
    and "fold (trim_one K q z) ids d (TaskKey K q i) = (if i \<in> set ids then None else d (TaskKey K q i))"
    and "strm K q (fold (trim_one K q z) ids d) = strm K q d"
proof -
  have one: "e_zset (trim_one K q z j d z) = z_rem j (e_zset (d z))"
    "trim_one K q z j d (TaskKey K q i) = (if i = j then None else d (TaskKey K q i))"
    "strm K q (trim_one K q z j d) = strm K q d" for i j d
    using assms by (auto simp: trim_one_def strm_def key_render)
  show "e_zset (fold (trim_one K q z) ids d z) = filter (\<lambda>(x, m). m \<notin> set ids) (e_zset (d z))"
    by (induction ids arbitrary: d) (simp_all add: one z_rem_def case_prod_unfold conj_commute)
  show "fold (trim_one K q z) ids d (TaskKey K q i) = (if i \<in> set ids then None else d (TaskKey K q i))"
    by (induction ids arbitrary: d) (auto simp: one)
  show "strm K q (fold (trim_one K q z) ids d) = strm K q d"
    by (induction ids arbitrary: d) (simp_all add: one)
qed

context redis_laws
begin

lemma trim_ids_run:
  assumes "wt K d" "qname_ok q" "z \<in> {ArchivedKey K q, CompletedKey K q}"
  shows "trim_ids R z (TaskKeyPrefix K q) ids d = (Inr (), fold (trim_one K q z) ids d) \<and>
    wt K (fold (trim_one K q z) ids d)"
  unfolding trim_ids_def
proof (rule foreach_run [where P = "wt K", OF assms(1)])
  fix i d
  assume "wt K d"
  then show "call (DEL R [TaskKeyPrefix K q @ i]) (\<lambda>_. call (ZREM R z i) (\<lambda>_. ret ())) d = (Inr (), trim_one K q z i d) \<and>
      wt K (trim_one K q z i d)"
    using assms(2,3) by (auto simp: trim_one_def TaskKeyPrefix_TaskKey key_render typed_commands untyped_commands)
qed

lemma trimArchivedCmd_run:
  fixes x :: score and maxSize :: int
  assumes "wt K d" "qname_ok q" "z \<in> {ArchivedKey K q, CompletedKey K q}" "0 < batch"
  defines "k \<equiv> trim_count x batch maxSize (e_zset (d z))"
  shows "trimArchivedCmd R z x batch (TaskKeyPrefix K q) maxSize d =
    (Inr (int k), fold (trim_one K q z) (map snd (take k (e_zset (d z)))) d)"
proof -
  let ?z = "e_zset (d z)" and ?f = "fold (trim_one K q z)"
  define e where "e = min (nat batch) (length (filter (\<lambda>(y, m). y \<le> x) ?z))"
  define d1 where "d1 = ?f (map snd (take e ?z)) d"
  have zk: "z_ok ?z" "is_zset (d z)"
    using assms(1-3) wt_parts(2) [of K d] by (auto simp: key_render)
  have e: "e \<le> length ?z" unfolding e_def by (metis length_filter_le min.coboundedI2)
  have ids: "z_upto x batch ?z = map snd (take e ?z)" using z_upto_take [OF zk(1)] assms(4) by (simp add: e_def)
  have rd: "ZRANGEBYSCORE R z x batch d = (Inr (map snd (take e ?z)), d)"
    using ZRANGEBYSCORE [where d = d, OF zk(2)] ids by simp
  note t1 = trim_ids_run [OF assms(1-3), of "map snd (take e ?z)", folded d1_def]
  have z1: "e_zset (d1 z) = drop e ?z"
    using trim_fold(1) [OF assms(2,3), of "map snd (take e ?z)" d] filter_drop [of ?z e] zk(1)
    by (simp add: d1_def z_ok_def)
  have zt: "is_zset (d1 z)" using t1 assms(2,3) by (auto simp: key_render)
  have c: "ZCARD R z d1 = (Inr (int (length ?z - e)), d1)" using ZCARD [where d = d1, OF zt] z1 by simp
  let ?over = "int (length ?z - e) - maxSize"
  show ?thesis
  proof (cases "0 \<le> maxSize \<and> 0 < ?over")
    case False
    then have "k = e" by (auto simp: k_def trim_count_def e_def [symmetric] Let_def)
    then show ?thesis using rd t1 c False e by (auto simp: trimArchivedCmd_def d1_def [symmetric] Let_def)
  next
    case True
    define n where "n = min (nat batch) (length ?z - e - nat maxSize)"
    have k: "k = e + n" using True by (simp add: k_def trim_count_def e_def [symmetric] n_def Let_def)
    have n: "int n = (if batch < ?over then batch else ?over)" "0 < n" "n \<le> length ?z - e"
      using True assms(4) by (auto simp: n_def)
    have r: "ZRANGE R z (int n - 1) d1 = (Inr (take n (drop e ?z)), d1)"
      using ZRANGE [where d = d1, OF zt, of "int n - 1"] n(2) z1 by (simp add: nat_diff_distrib)
    have t2: "trim_ids R z (TaskKeyPrefix K q) (map snd (take n (drop e ?z))) d1 = (Inr (), ?f (map snd (take n (drop e ?z))) d1)"
      using trim_ids_run [OF _ assms(2,3)] t1 by blast
    have "?f (map snd (take n (drop e ?z))) d1 = ?f (map snd (take k ?z)) d"
      unfolding d1_def k take_add by simp
    moreover have "length (take n (drop e ?z)) = n" using n(3) by simp
    ultimately have last: "call (ZRANGE R z (int n - 1)) (\<lambda>excess. call (trim_ids R z (TaskKeyPrefix K q) (map snd excess))
        (\<lambda>_. ret (int e + int (length excess)))) d1 = (Inr (int k), ?f (map snd (take k ?z)) d)"
      using r t2 by (simp add: k)
    have len: "length (map snd (take e ?z)) = e" using e by simp
    show ?thesis
      unfolding trimArchivedCmd_def Let_def
      using rd t1 c True last len by (simp only: call_def prod.case sum.case if_True n(1) [symmetric])
  qed
qed

end

subsection \<open>Recovery\<close>

text \<open>What the recoverer does with one claimed entry.\<close>

definition park :: "Keys \<Rightarrow> string \<Rightarrow> sid \<Rightarrow> TaskMessage \<Rightarrow> string \<Rightarrow> TaskState \<Rightarrow> int \<Rightarrow> keyspace \<Rightarrow> keyspace" where
  "park K q n m z st x d = zput z (int_score x) (ID m)
     (store K q (ID m) (Doc (EncodeMessage (m\<lparr>State := st\<rparr>))) st (drop_entry K q [n] d))"

definition stored :: "Keys \<Rightarrow> string \<Rightarrow> keyspace \<Rightarrow> string \<Rightarrow> TaskMessage option" where
  "stored K q d i = Option.bind (body K q i d) decode_body"

definition exhausted :: "TaskMessage \<Rightarrow> bool" where
  "exhausted m \<longleftrightarrow> MaxRetry m \<le> Retried m"

definition recover_one :: "Keys \<Rightarrow> time \<Rightarrow> string \<Rightarrow> sid \<times> string \<Rightarrow> keyspace \<Rightarrow> keyspace" where
  "recover_one K now q e d =
     (case stored K q d (snd e) of
        None \<Rightarrow> drop_entry K q [fst e] d
      | Some m \<Rightarrow>
          if exhausted m then unlocked m (park K q (fst e) m (ArchivedKey K q) StateArchived (Unix now) d)
          else park K q (fst e) (m\<lparr>Retried := Retried m + 1\<rparr>) (RetryKey K q) StateRetry (Unix now) d)"

definition to_retry :: "Keys \<Rightarrow> string \<Rightarrow> keyspace \<Rightarrow> sid \<times> string \<Rightarrow> bool" where
  "to_retry K q d e = (case stored K q d (snd e) of None \<Rightarrow> False | Some m \<Rightarrow> \<not> exhausted m)"

definition to_archive :: "Keys \<Rightarrow> string \<Rightarrow> keyspace \<Rightarrow> (sid \<times> string) list \<Rightarrow> TaskMessage list" where
  "to_archive K q d es = map (\<lambda>m. m\<lparr>State := StateArchived\<rparr>)
     (filter exhausted (List.map_filter (\<lambda>e. stored K q d (snd e)) es))"

text \<open>A claimed entry whose body, if there is one, is a task of this queue.\<close>

definition claimable :: "Keys \<Rightarrow> string \<Rightarrow> keyspace \<Rightarrow> string \<Rightarrow> bool" where
  "claimable K q d i \<longleftrightarrow> (\<forall>raw. body K q i d = Some raw \<longrightarrow>
     (\<exists>m. decode_body raw = Some m \<and> ID m = i \<and> lock_ok K q (UniqueLock m)))"

lemma intact_claimable: "intact K d \<Longrightarrow> qname_ok q \<Longrightarrow> claimable K q d i"
  using intactD(2) [of K d] unfolding claimable_def bodies_ok_def body_ok_def task_wf_def by blast

text \<open>The scan finds every idle entry of a pending list that it can look at as a whole.\<close>

lemma s_scan_finds:
  "(n, o', t) \<in> set p \<Longrightarrow> length p \<le> k \<Longrightarrow> length p \<le> a \<Longrightarrow> idle \<le> t \<Longrightarrow> map_of es n = Some v \<Longrightarrow>
   (n, v) \<in> set (fst (s_scan es c idle a k p))"
proof (induction es c idle a k p rule: s_scan.induct)
  case (2 es c idle a k m o'' u p)
  have ak: "\<not> (a = 0 \<or> k = 0)" using "2.prems"(2,3) by auto
  have len: "length p \<le> k - 1" "length p \<le> a - 1" "length p \<le> k" using "2.prems"(2,3) by auto
  show ?case
  proof (cases "map_of es m")
    case None
    then have "(n, o', t) \<in> set p" using "2.prems"(1,5) by auto
    from "2.IH"(1) [OF ak None this len(1,2) "2.prems"(4,5)] ak None show ?thesis by simp
  next
    case (Some v')
    show ?thesis
      using "2.IH"(2,3) [OF ak Some] "2.prems" ak Some len by (auto simp: split_beta)
  qed
qed simp

text \<open>It finds nothing when the entries at the front of the list are all in use.\<close>

lemma s_scan_blocked:
  "\<forall>(n, o', t) \<in> set (take a p). t < idle \<and> n \<in> fst ` set es \<Longrightarrow> s_scan es c idle a k p = ([], p)"
proof (induction es c idle a k p rule: s_scan.induct)
  case (2 es c idle a k m o' t p)
  show ?case
  proof (cases "a = 0 \<or> k = 0")
    case False
    then obtain a' where a: "a = Suc a'" by (cases a) auto
    then have t: "t < idle" "m \<in> fst ` set es" using "2.prems" by auto
    then obtain v where v: "map_of es m = Some v" by (cases "map_of es m") (auto simp: map_of_eq_None_iff)
    show ?thesis using "2.IH"(2) [OF False v t(1)] "2.prems" a t v False by simp
  qed simp
qed simp

lemma park_parts:
  assumes "qname_ok q" "z \<in> {RetryKey K q, ArchivedKey K q}"
  shows "strm K q (park K q n m z st x d) = strm K q (drop_entry K q [n] d)"
    "body K q i (park K q n m z st x d) =
      (if i = ID m then Some (Doc (EncodeMessage (m\<lparr>State := st\<rparr>))) else body K q i d)"
    "zmem (RetryKey K q) (park K q n m z st x d) =
      (if z = RetryKey K q then insert (ID m) (zmem (RetryKey K q) d) else zmem (RetryKey K q) d)"
    "zmem (ArchivedKey K q) (park K q n m z st x d) =
      (if z = ArchivedKey K q then insert (ID m) (zmem (ArchivedKey K q) d) else zmem (ArchivedKey K q) d)"
  using assms by (auto simp: park_def store_def drop_entry_def strm_def body_def zmem_def key_render)

lemma settled_more: "settled K q n d \<Longrightarrow> settled K q n (drop_entry K q [k] d)"
  unfolding settled_def by (auto simp: s_ack_def s_map_pel_def split: option.splits)

lemma unlocked_zmem:
  assumes "lock_ok K q (UniqueLock m)" "qname_ok q"
  shows "zmem (RetryKey K q) (unlocked m d) = zmem (RetryKey K q) d"
    "zmem (ArchivedKey K q) (unlocked m d) = zmem (ArchivedKey K q) d"
  using unlocked_parts [OF assms] by (simp_all add: zmem_def)

lemma recover_one_parts:
  assumes "qname_ok q" "claimable K q d i"
  shows "settled K q n (recover_one K now q (n, i) d)"
    "settled K q k d \<Longrightarrow> settled K q k (recover_one K now q (n, i) d)"
    "j \<noteq> i \<Longrightarrow> body K q j (recover_one K now q (n, i) d) = body K q j d"
    "zmem (RetryKey K q) (recover_one K now q (n, i) d) =
      zmem (RetryKey K q) d \<union> (if to_retry K q d (n, i) then {i} else {})"
    "zmem (ArchivedKey K q) (recover_one K now q (n, i) d) =
      zmem (ArchivedKey K q) d \<union> (if stored K q d i \<noteq> None \<and> \<not> to_retry K q d (n, i) then {i} else {})"
proof -
  have retry_archive: "RetryKey K q \<noteq> ArchivedKey K q" using assms(1) by (simp add: key_render)
  consider (none) "stored K q d i = None"
    | (task) m where "stored K q d i = Some m" "ID m = i" "lock_ok K q (UniqueLock m)"
    using assms(2) by (cases "body K q i d") (auto simp: stored_def claimable_def)
  then have "settled K q n (recover_one K now q (n, i) d) \<and>
    (settled K q k d \<longrightarrow> settled K q k (recover_one K now q (n, i) d)) \<and>
    (j \<noteq> i \<longrightarrow> body K q j (recover_one K now q (n, i) d) = body K q j d) \<and>
    zmem (RetryKey K q) (recover_one K now q (n, i) d) =
      zmem (RetryKey K q) d \<union> (if to_retry K q d (n, i) then {i} else {}) \<and>
    zmem (ArchivedKey K q) (recover_one K now q (n, i) d) =
      zmem (ArchivedKey K q) d \<union> (if stored K q d i \<noteq> None \<and> \<not> to_retry K q d (n, i) then {i} else {})"
  proof cases
    case none
    have "zmem (RetryKey K q) (drop_entry K q [n] d) = zmem (RetryKey K q) d"
      "zmem (ArchivedKey K q) (drop_entry K q [n] d) = zmem (ArchivedKey K q) d"
      using assms(1) by (simp_all add: zmem_def drop_entry_def key_render)
    then show ?thesis
      using none settled_drop settled_more assms(1) by (simp add: recover_one_def to_retry_def)
  next
    case task
    have s: "strm K q (recover_one K now q (n, i) d) = strm K q (drop_entry K q [n] d)"
      using task assms(1) by (simp add: recover_one_def park_parts unlocked_parts)
    have "settled K q n (recover_one K now q (n, i) d)"
      "settled K q k d \<longrightarrow> settled K q k (recover_one K now q (n, i) d)"
      using settled_same [OF s] settled_drop settled_more by blast+
    moreover have "j \<noteq> i \<longrightarrow> body K q j (recover_one K now q (n, i) d) = body K q j d"
      using task assms(1) by (simp add: recover_one_def park_parts unlocked_parts)
    ultimately show ?thesis
      using task assms(1) retry_archive
      by (simp add: recover_one_def park_parts unlocked_zmem to_retry_def split: if_split)
  qed
  then show "settled K q n (recover_one K now q (n, i) d)"
    "settled K q k d \<Longrightarrow> settled K q k (recover_one K now q (n, i) d)"
    "j \<noteq> i \<Longrightarrow> body K q j (recover_one K now q (n, i) d) = body K q j d"
    "zmem (RetryKey K q) (recover_one K now q (n, i) d) =
      zmem (RetryKey K q) d \<union> (if to_retry K q d (n, i) then {i} else {})"
    "zmem (ArchivedKey K q) (recover_one K now q (n, i) d) =
      zmem (ArchivedKey K q) d \<union> (if stored K q d i \<noteq> None \<and> \<not> to_retry K q d (n, i) then {i} else {})"
    by blast+
qed

context redis_laws
begin

lemma Retry_run:
  assumes "calm w" "wt K (db w)" "qname_ok q"
  shows "Retry R K q n m t w = (Inr (), stepped (park K q n m (RetryKey K q) StateRetry (Unix t) (db w)) w)"
    and "wt K (park K q n m (RetryKey K q) StateRetry (Unix t) (db w))"
  using moveToZSetCmd_run [OF assms(2,3), of "RetryKey K q"] assms
  by (simp_all add: Retry_def moveToZSet_def park_def key_render)

lemma Archive_run:
  assumes "calm w" "wt K (db w)" "qname_ok q" "lock_ok K q (UniqueLock m)"
  shows "\<exists>w'. Archive R K q n m t w = (Inr (), w') \<and> calm w' \<and> wt K (db w') \<and>
    db w' = unlocked m (park K q n m (ArchivedKey K q) StateArchived (Unix t) (db w))"
proof -
  let ?d = "park K q n m (ArchivedKey K q) StateArchived (Unix t) (db w)"
  have m: "moveToZSet R K q n m (ArchivedKey K q) StateArchived (Unix t) w = (Inr (), stepped ?d w)"
    using moveToZSetCmd_run [OF assms(2,3), of "ArchivedKey K q"] assms(1) by (simp add: moveToZSet_def park_def)
  have "wt K ?d" using assms(2,3) by (simp add: park_def key_render)
  then obtain w' where "releaseUnique R m (stepped ?d w) = (Inr (), w')" "calm w'" "wt K (db w')" "db w' = unlocked m ?d"
    using releaseUnique_calm [of "stepped ?d w" K q m] assms(1,3,4) by auto
  then show ?thesis using m by (simp add: Archive_def)
qed

lemma recoverLoop_step:
  assumes "calm w" "wt K (db w)" "qname_ok q" "claimable K q (db w) i"
  shows "\<exists>w'. recoverLoop R K now q ((n, i) # es) (r, a, None) w =
      recoverLoop R K now q es (r + (if to_retry K q (db w) (n, i) then 1 else 0), a @ to_archive K q (db w) [(n, i)], None) w' \<and>
      calm w' \<and> wt K (db w') \<and> db w' = recover_one K now q (n, i) (db w)"
proof -
  let ?w1 = "stepped (db w) w"
  have g: "rt (HGET R (TaskKey K q i) ''msg'') w = (Inr (body K q i (db w)), ?w1)"
    using assms(1-3) by (simp add: typed_commands key_render body_def)
  have w1: "calm ?w1" "wt K (db ?w1)" using assms(1,2) by simp_all
  show ?thesis
  proof (cases "body K q i (db w)")
    case None
    have "rt (tx [XACK R (StreamKey K q) ConsumerGroup [n], XDEL R (StreamKey K q) [n]]) ?w1 =
        (Inr (), stepped (drop_entry K q [n] (db w)) ?w1)"
      using ack_run [OF w1(2) assms(3), of "[n]"] w1(1) by simp
    then show ?thesis
      using g None w1 assms(3)
      by (intro exI [of _ "stepped (drop_entry K q [n] (db w)) ?w1"])
        (simp add: recover_one_def to_retry_def to_archive_def stored_def map_filter_simps)
  next
    case (Some raw)
    then obtain m where m: "decode_body raw = Some m" "ID m = i" "lock_ok K q (UniqueLock m)"
      using assms(4) by (auto simp: claimable_def)
    have st: "stored K q (db w) i = Some m" using Some m by (simp add: stored_def)
    show ?thesis
    proof (cases "exhausted m")
      case True
      obtain w2 where "Archive R K q n m now ?w1 = (Inr (), w2)" "calm w2" "wt K (db w2)"
        "db w2 = unlocked m (park K q n m (ArchivedKey K q) StateArchived (Unix now) (db w))"
        using Archive_run [OF w1 assms(3) m(3), of n now] by auto
      then show ?thesis
        using g Some m(1) st True
        by (intro exI [of _ w2]) (simp add: recover_one_def to_retry_def to_archive_def exhausted_def map_filter_simps)
    next
      case False
      let ?m = "m\<lparr>Retried := Retried m + 1\<rparr>"
      show ?thesis
        using g Some m(1) st False Retry_run [OF w1 assms(3), of n ?m now] w1(1)
        by (intro exI [of _ "stepped (park K q n ?m (RetryKey K q) StateRetry (Unix now) (db w)) ?w1"])
          (simp add: recover_one_def to_retry_def to_archive_def exhausted_def map_filter_simps)
    qed
  qed
qed

lemma recoverLoop_run:
  assumes "qname_ok q"
  shows "calm w \<Longrightarrow> wt K (db w) \<Longrightarrow> \<forall>(n, i) \<in> set es. claimable K q (db w) i \<Longrightarrow> distinct (map snd es) \<Longrightarrow>
    \<exists>w'. recoverLoop R K now q es (r, a, None) w =
        ((r + int (length (filter (to_retry K q (db w)) es)), a @ to_archive K q (db w) es, None), w') \<and>
      (\<forall>(n, i) \<in> set es. settled K q n (db w') \<and>
         (stored K q (db w) i \<noteq> None \<longrightarrow> i \<in> zmem (if to_retry K q (db w) (n, i) then RetryKey K q else ArchivedKey K q) (db w'))) \<and>
      (\<forall>k. settled K q k (db w) \<longrightarrow> settled K q k (db w')) \<and>
      zmem (RetryKey K q) (db w) \<subseteq> zmem (RetryKey K q) (db w') \<and> zmem (ArchivedKey K q) (db w) \<subseteq> zmem (ArchivedKey K q) (db w')"
proof (induction es arbitrary: w r a)
  case Nil
  then show ?case by (simp add: to_archive_def map_filter_simps)
next
  case (Cons e es)
  obtain n i where e: "e = (n, i)" by fastforce
  have c: "claimable K q (db w) i" using Cons.prems(3) e by simp
  obtain w1 where w1: "recoverLoop R K now q ((n, i) # es) (r, a, None) w =
      recoverLoop R K now q es (r + (if to_retry K q (db w) (n, i) then 1 else 0), a @ to_archive K q (db w) [(n, i)], None) w1"
    "calm w1" "wt K (db w1)" "db w1 = recover_one K now q (n, i) (db w)"
    using recoverLoop_step [OF Cons.prems(1,2) assms c] by blast
  note one = recover_one_parts [where n = n and now = now, OF assms c, folded w1(4)]
  have same: "body K q j (db w1) = body K q j (db w)" if "(k, j) \<in> set es" for k j
    using that Cons.prems(4) e by (intro one(3)) (auto simp: rev_image_eqI)
  then have eq: "claimable K q (db w1) j = claimable K q (db w) j" "stored K q (db w1) j = stored K q (db w) j"
    "to_retry K q (db w1) (k, j) = to_retry K q (db w) (k, j)" if "(k, j) \<in> set es" for k j
    using that by (simp_all add: claimable_def stored_def to_retry_def)
  have "filter (to_retry K q (db w1)) es = filter (to_retry K q (db w)) es" using eq(3) by (intro filter_cong) auto
  moreover have "to_archive K q (db w1) es = to_archive K q (db w) es"
    using eq(2) unfolding to_archive_def List.map_filter_def by (intro arg_cong [where f = "map _"] arg_cong [where f = "filter _"] map_cong filter_cong) auto
  moreover have "to_archive K q (db w) (e # es) = to_archive K q (db w) [(n, i)] @ to_archive K q (db w) es"
    by (simp add: e to_archive_def map_filter_simps split: option.split)
  moreover have "\<forall>(n, i) \<in> set es. claimable K q (db w1) i" using Cons.prems(3) eq(1) by auto
  moreover have "distinct (map snd es)" using Cons.prems(4) by simp
  ultimately obtain w' where w': "recoverLoop R K now q (e # es) (r, a, None) w =
      ((r + int (length (filter (to_retry K q (db w)) (e # es))), a @ to_archive K q (db w) (e # es), None), w')"
    and S: "\<forall>(n, i) \<in> set es. settled K q n (db w') \<and>
         (stored K q (db w1) i \<noteq> None \<longrightarrow> i \<in> zmem (if to_retry K q (db w1) (n, i) then RetryKey K q else ArchivedKey K q) (db w'))"
    and M: "\<forall>k. settled K q k (db w1) \<longrightarrow> settled K q k (db w')"
      "zmem (RetryKey K q) (db w1) \<subseteq> zmem (RetryKey K q) (db w')" "zmem (ArchivedKey K q) (db w1) \<subseteq> zmem (ArchivedKey K q) (db w')"
    using Cons.IH [OF w1(2,3), of "r + (if to_retry K q (db w) (n, i) then 1 else 0)" "a @ to_archive K q (db w) [(n, i)]"] w1(1) e
    by auto
  have "\<forall>(n, i) \<in> set es. settled K q n (db w') \<and>
      (stored K q (db w) i \<noteq> None \<longrightarrow> i \<in> zmem (if to_retry K q (db w) (n, i) then RetryKey K q else ArchivedKey K q) (db w'))"
    using S eq(2,3) by fastforce
  moreover have "settled K q n (db w') \<and>
      (stored K q (db w) i \<noteq> None \<longrightarrow> i \<in> zmem (if to_retry K q (db w) (n, i) then RetryKey K q else ArchivedKey K q) (db w'))"
    using one(1,4,5) M by auto
  moreover have "\<forall>k. settled K q k (db w) \<longrightarrow> settled K q k (db w')" using one(2) M(1) by blast
  moreover have "zmem (RetryKey K q) (db w) \<subseteq> zmem (RetryKey K q) (db w')" "zmem (ArchivedKey K q) (db w) \<subseteq> zmem (ArchivedKey K q) (db w')"
    using one(4,5) M(2,3) by auto
  ultimately show ?case using w' e by (intro exI [of _ w']) simp
qed

lemma Recover_run:
  fixes c :: string and minIdle :: duration
  assumes "calm w" "intact K (db w)" "qname_ok q" "0 < maxn"
    and "groups (strm K q (db w)) ConsumerGroup = Some G"
  defines "claimed \<equiv> fst (s_scan (entries (strm K q (db w))) c (Milliseconds minIdle) (10 * nat maxn) (nat maxn) (pel G))"
  assumes "distinct (map snd claimed)"
  shows "\<exists>w'. Recover R K now q c minIdle maxn w =
      ((int (length (filter (to_retry K q (db w)) claimed)), to_archive K q (db w) claimed, None), w') \<and>
    (\<forall>(n, i) \<in> set claimed. settled K q n (db w') \<and>
       (stored K q (db w) i \<noteq> None \<longrightarrow> i \<in> zmem (if to_retry K q (db w) (n, i) then RetryKey K q else ArchivedKey K q) (db w')))"
proof -
  let ?sc = "s_scan (entries (strm K q (db w))) c (Milliseconds minIdle) (10 * nat maxn) (nat maxn) (pel G)"
  let ?d = "(db w)(StreamKey K q := mk_stream (db w (StreamKey K q)) (s_map_pel ConsumerGroup (\<lambda>_. snd ?sc) (strm K q (db w))))"
  have k: "0 < nat maxn" using assms(4) by simp
  have t: "is_stream (db w (StreamKey K q))" using intactD(1) [OF assms(2)] assms(3) by (simp add: key_render)
  have r: "rt (XAUTOCLAIM R (StreamKey K q) ConsumerGroup c (Milliseconds minIdle) (nat maxn)) w = (Inr claimed, stepped ?d w)"
    using XAUTOCLAIM [where d = "db w", OF t _ k, of ConsumerGroup G c "Milliseconds minIdle"] assms(1,5)
    by (simp add: strm_def split_beta claimed_def)
  have "safe K (db w) ?d" using XAUTOCLAIM_safe [OF assms(2,3) k, of c "Milliseconds minIdle"]
    XAUTOCLAIM [where d = "db w", OF t _ k, of ConsumerGroup G c "Milliseconds minIdle"] assms(5)
    by (simp add: strm_def split_beta)
  then have I: "intact K ?d" using safe_intact [OF assms(2)] by blast
  have b: "body K q i ?d = body K q i (db w)" for i using assms(3) by (simp add: body_def key_render)
  then have eq: "to_retry K q ?d = to_retry K q (db w)" "to_archive K q ?d es = to_archive K q (db w) es"
    "stored K q ?d = stored K q (db w)" for es
    by (simp_all add: to_retry_def to_archive_def stored_def fun_eq_iff)
  have "\<forall>(n, i) \<in> set claimed. claimable K q (db (stepped ?d w)) i"
    using intact_claimable [OF I assms(3)] by simp
  from recoverLoop_run [OF assms(3) _ _ this assms(7), of now 0 "[]"] assms(1) intactD(1) [OF I]
  obtain w' where "recoverLoop R K now q claimed (0, [], None) (stepped ?d w) =
      ((int (length (filter (to_retry K q (db w)) claimed)), to_archive K q (db w) claimed, None), w')"
    "\<forall>(n, i) \<in> set claimed. settled K q n (db w') \<and>
       (stored K q (db w) i \<noteq> None \<longrightarrow> i \<in> zmem (if to_retry K q (db w) (n, i) then RetryKey K q else ArchivedKey K q) (db w'))"
    unfolding stepped_simps eq by auto
  then show ?thesis using r by (intro exI [of _ w'] conjI) (simp_all only: Recover_def prod.case sum.case)
qed

text \<open>Deleting a task.\<close>

lemma DeleteTask_run:
  assumes "calm w" "wt K (db w)" "qname_ok q" "claimable K q (db w) i"
  shows "\<exists>w'. DeleteTask R K q i w = (Inr (), w') \<and> calm w' \<and> wt K (db w') \<and>
    db w' = (case stored K q (db w) i of None \<Rightarrow> kdel (TaskKey K q i) (unpark K q i (db w))
      | Some m \<Rightarrow> unlocked m (kdel (TaskKey K q i) (unpark K q i (db w))))"
proof -
  let ?w1 = "stepped (db w) w" and ?d = "kdel (TaskKey K q i) (unpark K q i (db w))"
  have g: "rt (HGET R (TaskKey K q i) ''msg'') w = (Inr (body K q i (db w)), ?w1)"
    using assms(1-3) by (simp add: typed_commands key_render body_def)
  have t: "rt (tx [discard (ZREM R (ScheduledKey K q) i), discard (ZREM R (RetryKey K q) i),
      discard (ZREM R (ArchivedKey K q) i), discard (ZREM R (CompletedKey K q) i), DEL R [TaskKey K q i]]) ?w1 =
      (Inr (), stepped ?d ?w1)"
    using delete_run [OF assms(2,3)] assms(1) by simp
  have wt: "wt K ?d" using assms(2,3) by (simp add: unpark_def key_render)
  show ?thesis
  proof (cases "body K q i (db w)")
    case None
    then show ?thesis using g t wt assms(1) by (simp add: DeleteTask_def GetTask_def stored_def)
  next
    case (Some raw)
    then obtain m where m: "decode_body raw = Some m" "ID m = i" "lock_ok K q (UniqueLock m)"
      using assms(4) by (auto simp: claimable_def)
    obtain w2 where "releaseUnique R m (stepped ?d ?w1) = (Inr (), w2)" "calm w2" "wt K (db w2)" "db w2 = unlocked m ?d"
      using releaseUnique_calm [of "stepped ?d ?w1" K q m] assms(1,3) m(3) wt by auto
    then show ?thesis using g t Some m(1) by (simp add: DeleteTask_def GetTask_def stored_def)
  qed
qed

end

text \<open>Concrete inputs: a worker that has died with a task, and an archive with three tasks.\<close>

definition dead_stream :: stream where
  "dead_stream = (s_add 1 ''a'' empty_stream)\<lparr>groups := [ConsumerGroup \<mapsto> \<lparr>last_delivered = 1, pel = [(1, ''dead'', 60000)]\<rparr>]\<rparr>"

definition dead_worker :: keyspace where
  "dead_worker = store DefaultKeys ''q'' ''a'' (Doc (EncodeMessage sample_task)) StateActive
     (Map.empty(StreamKey DefaultKeys ''q'' := mk_stream None dead_stream))"

definition full_archive :: keyspace where
  "full_archive = store DefaultKeys ''q'' ''a'' (Doc (EncodeMessage sample_task)) StateArchived
     (zput (ArchivedKey DefaultKeys ''q'') 3 ''c'' (zput (ArchivedKey DefaultKeys ''q'') 2 ''b''
       (zput (ArchivedKey DefaultKeys ''q'') 1 ''a'' open_queue)))"

lemma dead_stream_ok: "s_ok dead_stream"
  by (auto simp: s_ok_def dead_stream_def empty_stream_def s_add_def)

lemma dead_worker_simps [simp]:
  "strm DefaultKeys ''q'' dead_worker = dead_stream" "wt DefaultKeys dead_worker"
  "body DefaultKeys ''q'' ''a'' dead_worker = Some (Doc (EncodeMessage sample_task))"
proof -
  show "strm DefaultKeys ''q'' dead_worker = dead_stream" by (simp add: strm_def dead_worker_def store_def key_render)
  have "wt DefaultKeys (Map.empty(StreamKey DefaultKeys ''q'' := mk_stream None dead_stream))"
    using dead_stream_ok by (intro wt_stream_new) auto
  then show "wt DefaultKeys dead_worker" by (simp add: dead_worker_def)
  show "body DefaultKeys ''q'' ''a'' dead_worker = Some (Doc (EncodeMessage sample_task))"
    by (simp add: body_def dead_worker_def store_def key_render)
qed

lemma sample_wf: "task_wf DefaultKeys ''q'' sample_task"
  by (simp add: task_wf_def sample_task_def zeroMessage_def msg_ok_def int64_ok_def lock_ok_def small_def)

lemma dead_worker_intact: "intact DefaultKeys dead_worker"
proof -
  let ?K = DefaultKeys
  let ?d0 = "Map.empty(StreamKey ?K ''q'' := mk_stream None dead_stream) :: keyspace"
  have d: "dead_worker k = (if k = TaskKey ?K ''q'' ''a'' then dead_worker k else ?d0 k)" for k
    by (simp add: dead_worker_def store_def)
  have ttl: "e_ttl (dead_worker k) = None" for k by (simp add: dead_worker_def store_def effect_defs)
  have b: "body ?K q i dead_worker = (if q = ''q'' \<and> i = ''a'' then Some (Doc (EncodeMessage sample_task)) else None)"
    if "qname_ok q" for q i
    using that by (auto simp: body_def dead_worker_def store_def key_render effect_defs)
  have s: "strm ?K q dead_worker = (if q = ''q'' then dead_stream else empty_stream)" if "qname_ok q" for q
    using that by (simp add: strm_def dead_worker_def store_def key_render)
  have "bodies_ok ?K dead_worker"
    unfolding bodies_ok_def using b body_ok_encode [OF sample_wf] by (auto split: if_splits)
  moreover have "pend_ok (strm ?K q dead_worker) \<and> covered ?K q i 0 dead_worker" if "qname_ok q" for q i
    using b [OF that] s [OF that]
    by (auto simp: pend_ok_def covered_def listed_def dead_stream_def s_add_def empty_stream_def)
  moreover have "results_ok ?K dead_worker"
    by (simp add: results_ok_def dead_worker_def store_def key_render)
  moreover have "lasting ?K dead_worker" using ttl by (simp add: lasting_def)
  ultimately show ?thesis by (simp add: intact_def)
qed

lemma full_archive_simps [simp]:
  "wt DefaultKeys full_archive" "e_zset (full_archive (ArchivedKey DefaultKeys ''q'')) = [(1, ''a''), (2, ''b''), (3, ''c'')]"
  "full_archive (TaskKey DefaultKeys ''q'' ''a'') \<noteq> None"
proof -
  show "wt DefaultKeys full_archive" using sample_queues(1) by (simp add: full_archive_def key_render)
  show "e_zset (full_archive (ArchivedKey DefaultKeys ''q'')) = [(1, ''a''), (2, ''b''), (3, ''c'')]"
    by (simp add: full_archive_def store_def open_queue_def key_render z_add_def z_rem_def)
  show "full_archive (TaskKey DefaultKeys ''q'' ''a'') \<noteq> None"
    by (auto simp: full_archive_def store_def key_render fun_eq_iff)
qed

subsection \<open>Properties\<close>



text \<open>
  The recoverer looks no further than the front of the pending list.  It always scans from the
  beginning, and one call of the server looks at ten times the number of entries that it is asked for.
  When those are all in use, their leases being renewed, it recovers nothing, however long the entries
  behind them have been abandoned.
\<close>

theorem Recover_looks_at_front:
  assumes "redis_laws R" "calm w" "wt K (db w)" "qname_ok q" "0 < maxn"
    and "groups (strm K q (db w)) ConsumerGroup = Some G"
    and "\<forall>(n, c', t) \<in> set (take (10 * nat maxn) (pel G)). t < Milliseconds minIdle \<and> n \<in> fst ` set (entries (strm K q (db w)))"
    and "Recover R K now q c minIdle maxn w = (res, w')"
  shows "res = (0, [], None) \<and> groups (strm K q (db w')) ConsumerGroup = Some G"
proof -
  have k: "0 < nat maxn" using assms(5) by simp
  have t: "is_stream (db w (StreamKey K q))" using assms(3,4) by (simp add: key_render)
  let ?d = "(db w)(StreamKey K q := mk_stream (db w (StreamKey K q)) (s_map_pel ConsumerGroup (\<lambda>_. pel G) (strm K q (db w))))"
  have "XAUTOCLAIM R (StreamKey K q) ConsumerGroup c (Milliseconds minIdle) (nat maxn) (db w) = (Inr [], ?d)"
    using redis_laws.XAUTOCLAIM [where d = "db w", OF assms(1) t _ k, of ConsumerGroup G c "Milliseconds minIdle"]
      s_scan_blocked [OF assms(7), of c "nat maxn"] assms(6) by (simp add: strm_def)
  then have "Recover R K now q c minIdle maxn w = ((0, [], None), stepped ?d w)"
    using assms(2) by (simp add: Recover_def)
  moreover have "groups (strm K q ?d) ConsumerGroup = Some G" using assms(6) by (simp add: strm_def s_map_pel_def)
  ultimately show ?thesis using assms(8) by auto
qed

theorem Recover_looks_at_front_witness:
  "\<exists>w'. Recover mem_redis DefaultKeys 0 ''q'' ''c'' (90 * Second) 100 (at_rest dead_worker) = ((0, [], None), w')"
proof -
  let ?K = DefaultKeys and ?w = "at_rest dead_worker"
  let ?G = "\<lparr>last_delivered = 1, pel = [(1, ''dead'', 60000)]\<rparr> :: grp"
  obtain res w' where run: "Recover mem_redis ?K 0 ''q'' ''c'' (90 * Second) 100 ?w = (res, w')" by fastforce
  have G: "groups (strm ?K ''q'' (db ?w)) ConsumerGroup = Some ?G" by (simp add: dead_stream_def)
  have f: "\<forall>(n, c', t) \<in> set (take (10 * nat 100) (pel ?G)). t < Milliseconds (90 * Second) \<and>
      n \<in> fst ` set (entries (strm ?K ''q'' (db ?w)))"
    by (simp add: dead_stream_def empty_stream_def Milliseconds_def quot_def Second_def Millisecond_def)
  show ?thesis
    using Recover_looks_at_front [OF mem.redis_laws_axioms _ _ _ _ G f run] run by simp
qed



text \<open>
  C17: promoting a task.  A task that waits in one of the sorted sets of its queue is removed from all of
  them and appended to the stream once, in the pending state and with its body unchanged.  A task that does not
  wait, or that has lost its hash, gets no stream entry.
\<close>

theorem RunTask_promotes:
  assumes "redis_laws R" "calm w" "wt K (db w)" "qname_ok q" "RunTask R K q i w = (r, w')"
  shows "r = Inr () \<and> \<not> parked K q i (db w') \<and> body K q i (db w') = body K q i (db w) \<and>
    (if parked K q i (db w) \<and> db w (TaskKey K q i) \<noteq> None
     then (\<exists>n. entries (strm K q (db w')) = entries (strm K q (db w)) @ [(n, i)]) \<and>
       e_hash (db w' (TaskKey K q i)) ''state'' = Some (Num StatePending)
     else strm K q (db w') = strm K q (db w))"
proof -
  note run = redis_laws.runTaskCmd_run [OF assms(1,3,4), of i]
  have "r = Inr () \<and> db w' = (if parked K q i (db w) \<and> db w (TaskKey K q i) \<noteq> None
      then set_state K q StatePending i (xpush R (StreamKey K q) i (unpark K q i (db w))) else unpark K q i (db w))"
    using run assms(2,5) by (auto simp: RunTask_def split: if_splits)
  then show ?thesis
    using assms(4)
    by (auto simp: set_state_def unpark_def parked_def zmem_def body_def strm_def key_render effect_defs)
qed

theorem RunTask_promotes_witness:
  "\<exists>w' n. RunTask mem_redis DefaultKeys ''q'' ''a'' (at_rest full_archive) = (Inr (), w') \<and>
     \<not> parked DefaultKeys ''q'' ''a'' (db w') \<and>
     entries (strm DefaultKeys ''q'' (db w')) = entries (strm DefaultKeys ''q'' full_archive) @ [(n, ''a'')]"
proof -
  obtain r w' where run: "RunTask mem_redis DefaultKeys ''q'' ''a'' (at_rest full_archive) = (r, w')" by fastforce
  have "parked DefaultKeys ''q'' ''a'' full_archive" by (simp add: parked_def zmem_def)
  with RunTask_promotes [OF mem.redis_laws_axioms _ _ _ run] run full_archive_simps(3) show ?thesis by auto
qed

text \<open>
  C18: deleting a task.  The task is gone from its hash and from every sorted set of its queue, and the unique
  lock that it held is free.  The stream is not touched: an entry that still refers to the task is removed by the fetch that
  finds no body for it.
\<close>

theorem DeleteTask_removes:
  assumes "redis_laws R" "calm w" "intact K (db w)" "qname_ok q" "DeleteTask R K q i w = (r, w')"
  shows "r = Inr () \<and> db w' (TaskKey K q i) = None \<and> \<not> parked K q i (db w') \<and> strm K q (db w') = strm K q (db w) \<and>
    (\<forall>m. stored K q (db w) i = Some m \<longrightarrow> UniqueLock m \<noteq> [] \<longrightarrow>
       e_str (db w' (UniqueLock m)) \<noteq> Some (Txt i))"
proof -
  note c = intact_claimable [OF assms(3,4), of i]
  have c': "claimable K q (db w) i" by (rule c)
  let ?d = "kdel (TaskKey K q i) (unpark K q i (db w))"
  have r: "r = Inr ()" and w': "db w' = (case stored K q (db w) i of None \<Rightarrow> ?d | Some m \<Rightarrow> unlocked m ?d)"
    using redis_laws.DeleteTask_run [OF assms(1,2) intactD(1) [OF assms(3)] assms(4) c'] assms(5) by simp_all
  have d: "?d (TaskKey K q i) = None" "\<not> parked K q i ?d" "strm K q ?d = strm K q (db w)"
    using assms(4) by (simp_all add: unpark_def parked_def zmem_def strm_def key_render)
  show ?thesis
  proof (cases "stored K q (db w) i")
    case None
    then show ?thesis using r w' d by simp
  next
    case (Some m)
    then have m: "ID m = i" "lock_ok K q (UniqueLock m)"
      using c' by (auto simp: stored_def claimable_def split: bind_splits)
    have "parked K q i (unlocked m ?d) = parked K q i ?d"
      using unlocked_other [OF m(2) assms(4)] assms(4) by (simp add: parked_def zmem_def key_render)
    then show ?thesis
      using r w' d Some m unlocked_parts [OF m(2) assms(4)] unlocked_frees [of m ?d] by simp
  qed
qed

theorem DeleteTask_removes_witness:
  "\<exists>w'. DeleteTask mem_redis DefaultKeys ''q'' ''a'' (at_rest dead_worker) = (Inr (), w') \<and>
     db w' (TaskKey DefaultKeys ''q'' ''a'') = None \<and> strm DefaultKeys ''q'' (db w') = dead_stream"
proof -
  obtain r w' where run: "DeleteTask mem_redis DefaultKeys ''q'' ''a'' (at_rest dead_worker) = (r, w')" by fastforce
  show ?thesis
    using DeleteTask_removes [OF mem.redis_laws_axioms _ _ _ run] dead_worker_intact run by simp
qed

end
