(* ===== verification/Inspection.thy ===== *)
theory Inspection
  imports Maintenance
begin

section \<open>What the inspector reads (inspector.go, internal/rdb/inspect.go)\<close>

text \<open>
  The reading side of the inspector: what its answers say of the stored state.  A reading operation
  changes nothing and returns a value that the state determines; \<open>reads\<close> says so and composes along the
  code.
\<close>

definition reads :: "'a go \<Rightarrow> 'a \<Rightarrow> world \<Rightarrow> bool" where
  "reads f v w \<longleftrightarrow> (\<exists>w'. f w = (Inr v, w') \<and> calm w' \<and> db w' = db w)"

lemma reads_return [simp]: "reads (return v) u w \<longleftrightarrow> calm w \<and> v = u"
  by (auto simp: reads_def return_def)

lemma reads_rt: "calm w \<Longrightarrow> c (db w) = (Inr v, db w) \<Longrightarrow> reads (rt c) v w"
  by (simp add: reads_def)

lemma reads_andthen:
  assumes "reads f v w" "\<And>w'. calm w' \<Longrightarrow> db w' = db w \<Longrightarrow> reads (g v) u w'"
  shows "reads (andthen f g) u w"
  using assms by (fastforce simp: reads_def andthen_def)

lemma readsE:
  assumes "reads f v w" "f w = (r, w')"
  shows "r = Inr v" "calm w'" "db w' = db w"
  using assms by (auto simp: reads_def)

subsection \<open>Counting\<close>

definition in_flight :: "stream \<Rightarrow> nat" where
  "in_flight s = (case groups s ConsumerGroup of None \<Rightarrow> 0 | Some G \<Rightarrow> length (pel G))"

definition undelivered :: "stream \<Rightarrow> nat" where
  "undelivered s = (case groups s ConsumerGroup of None \<Rightarrow> length (entries s)
     | Some G \<Rightarrow> length (filter (\<lambda>(n, _). last_delivered G < n) (entries s)))"

text \<open>Every pending entry is still in the stream: the code acknowledges what it deletes.\<close>

definition pel_live :: "stream \<Rightarrow> bool" where
  "pel_live s \<longleftrightarrow> (\<forall>G. groups s ConsumerGroup = Some G \<longrightarrow> fst ` set (pel G) \<subseteq> fst ` set (entries s))"

lemma stream_split:
  assumes "s_ok s" "pend_ok s" "pel_live s"
  shows "length (entries s) = in_flight s + undelivered s"
proof (cases "groups s ConsumerGroup")
  case None
  then show ?thesis by (simp add: in_flight_def undelivered_def)
next
  case (Some G)
  let ?new = "\<lambda>(n, v). last_delivered G < n"
  have d: "distinct (map fst (entries s))" "distinct (map fst (pel G))"
    using assms(1) Some by (auto simp: s_ok_def strict_sorted_iff)
  have old: "\<forall>n \<in> fst ` set (pel G). n \<le> last_delivered G"
    using assms(1) Some by (fastforce simp: s_ok_def)
  have "fst ` set (pel G) = fst ` set (filter (\<lambda>e. \<not> ?new e) (entries s))"
    using assms(2,3) Some old unfolding pend_ok_def pel_live_def by (auto simp: image_iff) force+
  moreover have "distinct (map fst (filter (\<lambda>e. \<not> ?new e) (entries s)))" using d(1) by (rule distinct_map_filter)
  ultimately have "length (pel G) = length (filter (\<lambda>e. \<not> ?new e) (entries s))"
    using d(2) by (metis distinct_card length_map list.set_map)
  then show ?thesis
    using Some sum_length_filter_compl [of ?new "entries s"] by (simp add: in_flight_def undelivered_def)
qed

definition counts :: "Keys \<Rightarrow> string \<Rightarrow> keyspace \<Rightarrow> QueueStats" where
  "counts K q d =
     \<lparr>QS_Queue = q, QS_Pending = int (length (entries (strm K q d)) - in_flight (strm K q d)),
      QS_Active = int (in_flight (strm K q d)),
      QS_Scheduled = int (length (e_zset (d (ScheduledKey K q)))), QS_Retry = int (length (e_zset (d (RetryKey K q)))),
      QS_Archived = int (length (e_zset (d (ArchivedKey K q)))),
      QS_Completed = int (length (e_zset (d (CompletedKey K q))))\<rparr>"

text \<open>The scheduler's state in the store: leader, registry and fire history.\<close>

definition leader_of :: "Keys \<Rightarrow> keyspace \<Rightarrow> string" where
  "leader_of K d = (case e_str (d (LeaderKey K)) of None \<Rightarrow> [] | Some s \<Rightarrow> rstr_text s)"

definition registered :: "Keys \<Rightarrow> keyspace \<Rightarrow> string \<Rightarrow> ScheduleMeta option" where
  "registered K d i =
     map_option (\<lambda>m. m\<lparr>S_ID := i\<rparr>) (Option.bind (e_hash (d (SchedulesKey K)) i) decode_meta)"

definition last_fired :: "Keys \<Rightarrow> keyspace \<Rightarrow> string \<Rightarrow> int option" where
  "last_fired K d i = Option.bind (e_str (d (ScheduleLastFiredKey K i))) ParseInt"

definition fired_info :: "Keys \<Rightarrow> keyspace \<Rightarrow> string \<Rightarrow> ScheduleFireInfo option" where
  "fired_info K d i = map_option (\<lambda>ts. \<lparr>F_ID = i, F_LastFired = ts\<rparr>) (last_fired K d i)"

lemma fired_info_eq: "fired_info K d i = Some f \<longleftrightarrow> i = F_ID f \<and> last_fired K d i = Some (F_LastFired f)"
  by (cases f) (auto simp: fired_info_def)

lemma registered_ID: "registered K d i = Some m \<Longrightarrow> S_ID m = i"
  by (auto simp: registered_def)

lemma map_filter_set: "y \<in> set (List.map_filter g xs) \<longleftrightarrow> (\<exists>x \<in> set xs. g x = Some y)"
  by (force simp: List.map_filter_def)

context redis_laws
begin

lemma queueActive_reads:
  "calm w \<Longrightarrow> wt K (db w) \<Longrightarrow> qname_ok q \<Longrightarrow> 
    reads (queueActive R (render K (KStream q))) (int (in_flight (e_stream (db w (render K (KStream q)))))) w"
  by (cases "groups (e_stream (db w (render K (KStream q)))) ConsumerGroup")
    (simp_all add: reads_def queueActive_def in_flight_def rt_calm XPENDING XPENDING_nogroup lift_err_def)

lemma queueStats_reads:
  assumes "calm w" "wt K (db w)" "qname_ok q"
  shows "reads (queueStats R K q) (counts K q (db w)) w"
  unfolding queueStats_def using assms
  by (auto intro!: reads_andthen [OF reads_rt] reads_andthen [OF queueActive_reads]
      simp: XLEN ZCARD key_render Let_def counts_def strm_def)

lemma SMEMBERS_reads:
  assumes "calm w" "is_set (db w k)" "e_ok (db w k)"
  obtains us where "reads (rt (SMEMBERS R k)) us w" "distinct us" "set us = e_set (db w k)"
proof -
  have "finite (e_set (db w k))" using assms(2,3) by (cases "db w k" rule: is_set.cases) auto
  then show ?thesis using that SMEMBERS [of "db w" k] assms(1,2) by (auto intro: reads_rt)
qed

lemma queueInfos_reads:
  assumes "calm w" "wt K (db w)" "\<forall>q \<in> set qs. qname_ok q"
  shows "reads (queueInfos R K ps qs) (map (\<lambda>q. queueInfo ps (counts K q (db w))) qs) w"
  using assms
proof (induction qs arbitrary: w)
  case Nil
  then show ?case by (simp add: reads_def)
next
  case (Cons q qs)
  have eq: "queueInfos R K ps (q # qs) =
      andthen (queueStats R K q) (\<lambda>st. andthen (queueInfos R K ps qs) (\<lambda>is. return (queueInfo ps st # is)))"
    by (simp add: fun_eq_iff)
  show ?case unfolding eq
  proof (rule reads_andthen)
    show "reads (queueStats R K q) (counts K q (db w)) w" using Cons.prems by (simp add: queueStats_reads)
    fix w' :: world assume "calm w'" "db w' = db w"
    with Cons.IH [of w'] Cons.prems
    show "reads (andthen (queueInfos R K ps qs) (\<lambda>is. return (queueInfo ps (counts K q (db w)) # is)))
        (map (\<lambda>q. queueInfo ps (counts K q (db w))) (q # qs)) w'"
      by (auto intro: reads_andthen)
  qed
qed

lemma inspectorQueues_reads:
  assumes "calm w" "wt K (db w)" "\<forall>q \<in> e_set (db w (QueuesKey K)). qname_ok q"
  obtains qs where "distinct qs" "set qs = e_set (db w (QueuesKey K))"
    "reads (inspectorQueues R K) (map (\<lambda>q. queueInfo (e_set (db w (PausedKey K))) (counts K q (db w))) qs) w"
proof -
  have t: "is_set (db w (QueuesKey K))" "e_ok (db w (QueuesKey K))" "is_set (db w (PausedKey K))" "e_ok (db w (PausedKey K))"
    using wt_types [OF assms(2)] wt_eok [OF assms(2), of KQueues] wt_eok [OF assms(2), of KPaused] by (auto simp: key_render)
  obtain qs where qs: "reads (Queues R K) qs w" "distinct qs" "set qs = e_set (db w (QueuesKey K))"
    unfolding Queues_def by (rule SMEMBERS_reads [OF assms(1) t(1,2)])
  have "reads (inspectorQueues R K) (map (\<lambda>q. queueInfo (e_set (db w (PausedKey K))) (counts K q (db w))) qs) w"
    unfolding inspectorQueues_def
  proof (rule reads_andthen [OF qs(1)])
    fix w1 :: world assume w1: "calm w1" "db w1 = db w"
    then have t1: "is_set (db w1 (PausedKey K))" "e_ok (db w1 (PausedKey K))" using t by simp_all
    obtain ps where ps: "reads (PausedQueues R K) ps w1" "set ps = e_set (db w1 (PausedKey K))"
      unfolding PausedQueues_def by (rule SMEMBERS_reads [OF w1(1) t1])
    show "reads (andthen (PausedQueues R K) (\<lambda>ps. queueInfos R K (set ps) qs))
        (map (\<lambda>q. queueInfo (e_set (db w (PausedKey K))) (counts K q (db w))) qs) w1"
    proof (rule reads_andthen [OF ps(1)])
      fix w2 :: world assume "calm w2" "db w2 = db w1"
      then show "reads (queueInfos R K (set ps) qs) (map (\<lambda>q. queueInfo (e_set (db w (PausedKey K))) (counts K q (db w))) qs) w2"
        using queueInfos_reads [of w2 K qs "set ps"] assms(2,3) qs(3) ps(2) w1 by simp
    qed
  qed
  with that qs(2,3) show ?thesis by blast
qed

subsection \<open>Listing\<close>

lemma GetTask_reads:
  assumes "calm w" "wt K (db w)" "qname_ok q"
  shows "stored K q (db w) i = Some m \<Longrightarrow> reads (GetTask R K q i) m w"
    and "body K q i (db w) = None \<Longrightarrow> \<exists>w'. GetTask R K q i w = (Inl RedisNil, w') \<and> calm w' \<and> db w' = db w"
  using assms
  by (auto simp: GetTask_def reads_def andthen_def return_def fail_def stored_def body_def HGET key_render split: bind_splits)

lemma listLoop_reads:
  assumes "calm w" "wt K (db w)" "qname_ok q" "\<And>i. i \<in> snd ` set zs \<Longrightarrow> claimable K q (db w) i"
  shows "reads (listLoop R K q zs)
    (List.map_filter (\<lambda>(x, i). map_option (\<lambda>m. \<lparr>Z_Msg = m, Z_Score = x\<rparr>) (stored K q (db w) i)) zs) w"
  using assms
proof (induction zs arbitrary: w)
  case Nil
  then show ?case by (simp add: reads_def map_filter_simps)
next
  case (Cons z zs)
  obtain x i where z: "z = (x, i)" by fastforce
  note wt = Cons.prems(2)
  have c: "claimable K q (db w) i" using Cons.prems(4) [of i] z by simp
  have IH: "reads (listLoop R K q zs) (List.map_filter (\<lambda>(x, i).
      map_option (\<lambda>m. \<lparr>Z_Msg = m, Z_Score = x\<rparr>) (stored K q (db w) i)) zs) w'" if "calm w'" "db w' = db w" for w'
    using Cons.IH [of w'] Cons.prems that by simp
  show ?case
  proof (cases "stored K q (db w) i")
    case None
    then have "body K q i (db w) = None"
      using c by (auto simp: stored_def claimable_def split: bind_splits)
    then obtain w' where w': "GetTask R K q i w = (Inl RedisNil, w')" "calm w'" "db w' = db w"
      using GetTask_reads(2) [OF Cons.prems(1) wt Cons.prems(3)] by blast
    then show ?thesis using IH [of w'] None z by (simp add: reads_def map_filter_simps)
  next
    case (Some m)
    then obtain w' where w': "GetTask R K q i w = (Inr m, w')" "calm w'" "db w' = db w"
      using GetTask_reads(1) [OF Cons.prems(1) wt Cons.prems(3)] by (auto simp: reads_def)
    then show ?thesis using IH [of w'] Some z
      by (fastforce simp: reads_def map_filter_simps andthen_def return_def)
  qed
qed

lemma ListTasks_reads:
  assumes "calm w" "wt K (db w)" "qname_ok q" "ZSetKeyForState K q state = Some z" "0 < limit"
    and "\<And>i. i \<in> zmem z (db w) \<Longrightarrow> claimable K q (db w) i"
  shows "reads (ListTasks R K q state limit)
    (List.map_filter (\<lambda>(x, i). map_option (\<lambda>m. (taskInfoFromMsg m)\<lparr>NextProcessAt := Some (score_time x)\<rparr>)
       (stored K q (db w) i)) (take (nat limit) (e_zset (db w z)))) w"
proof -
  have z: "is_zset (db w z)"
    using assms(3,4) wt_types [OF assms(2)] by (auto simp: ZSetKeyForState_def key_render split: if_splits)
  have l: "nat (limit - 1) + 1 = nat limit" using assms(5) by simp
  have r: "reads (rt (ZRANGE R z (limit - 1))) (take (nat limit) (e_zset (db w z))) w"
    using assms(1,5) ZRANGE [of "db w" z "limit - 1"] z l by (intro reads_rt) simp_all
  have "reads (ListZSetTasks R K q z limit) (List.map_filter (\<lambda>(x, i).
      map_option (\<lambda>m. \<lparr>Z_Msg = m, Z_Score = x\<rparr>) (stored K q (db w) i)) (take (nat limit) (e_zset (db w z)))) w"
    unfolding ListZSetTasks_def if_not_P [OF assms(5) [unfolded not_le [symmetric]]]
  proof (rule reads_andthen [OF r])
    fix w' :: world assume w': "calm w'" "db w' = db w"
    have "claimable K q (db w') i" if "i \<in> snd ` set (take (nat limit) (e_zset (db w z)))" for i
      using assms(6) [of i] that w' set_take_subset [of "nat limit" "e_zset (db w z)"]
      by (auto simp: zmem_def z_members_def)
    with listLoop_reads [of w' K q] assms(2,3) w'
    show "reads (listLoop R K q (take (nat limit) (e_zset (db w z))))
      (List.map_filter (\<lambda>(x, i). map_option (\<lambda>m. \<lparr>Z_Msg = m, Z_Score = x\<rparr>) (stored K q (db w) i))
         (take (nat limit) (e_zset (db w z)))) w'"
      by simp
  qed
  then show ?thesis unfolding ListTasks_def assms(4) option.case
    by (rule reads_andthen) (auto simp: List.map_filter_def comp_def option.map_comp split_def)
qed

subsection \<open>Schedules\<close>

lemma LeaderID_reads:
  assumes "calm w" "wt K (db w)"
  shows "reads (LeaderID R K) (leader_of K (db w)) w"
  unfolding LeaderID_def using assms
  by (auto intro!: reads_andthen [OF reads_rt] simp: GET key_render leader_of_def)

lemma ListSchedules_reads:
  assumes "calm w" "wt K (db w)"
  obtains ms where "reads (ListSchedules R K) ms w" "distinct (map S_ID ms)"
    "\<And>m. m \<in> set ms \<longleftrightarrow> registered K (db w) (S_ID m) = Some m"
proof -
  let ?h = "e_hash (db w (SchedulesKey K))"
  let ?f = "\<lambda>(i, raw). map_option (\<lambda>m. m\<lparr>S_ID := i\<rparr>) (decode_meta raw)"
  have h: "is_hash (db w (SchedulesKey K))" "e_ok (db w (SchedulesKey K))"
    using wt_types [OF assms(2)] wt_eok [OF assms(2), of KSchedules] by (auto simp: key_render)
  then have "finite (dom ?h)" by (cases "db w (SchedulesKey K)" rule: is_hash.cases) auto
  then obtain all where all: "HGETALL R (SchedulesKey K) (db w) = (Inr all, db w)" "distinct (map fst all)" "map_of all = ?h"
    using HGETALL [of "db w" "SchedulesKey K"] h(1) by blast
  have "reads (ListSchedules R K) (List.map_filter ?f all) w"
    unfolding ListSchedules_def using assms(1) all(1) by (auto intro!: reads_andthen [OF reads_rt])
  moreover have "S_ID ` set (List.map_filter ?f xs) \<subseteq> fst ` set xs" for xs
    by (induction xs) (auto simp: map_filter_simps split: option.splits)
  then have "distinct (map fst xs) \<Longrightarrow> distinct (map S_ID (List.map_filter ?f xs))" for xs
    by (induction xs) (auto simp: map_filter_simps split: option.splits, blast)
  then have "distinct (map S_ID (List.map_filter ?f all))" using all(2) by blast
  moreover have "m \<in> set (List.map_filter ?f all) \<longleftrightarrow> registered K (db w) (S_ID m) = Some m" for m
  proof -
    have "m \<in> set (List.map_filter ?f all) \<longleftrightarrow> (\<exists>i raw. map_of all i = Some raw \<and> ?f (i, raw) = Some m)"
      using all(2) by (force simp: List.map_filter_def image_iff)
    also have "\<dots> \<longleftrightarrow> registered K (db w) (S_ID m) = Some m"
      unfolding all(3) registered_def by (auto split: bind_splits)
    finally show ?thesis .
  qed
  ultimately show ?thesis using that by blast
qed

lemma scanLoop_reads:
  assumes "calm w" "wt K (db w)" "\<forall>k \<in> set ks. \<exists>i. k = pre @ i @ suf" "\<And>i. pre @ i @ suf = ScheduleLastFiredKey K i"
  shows "reads (scanLoop R pre suf ks acc) (acc @ List.map_filter (fired_info K (db w))
    (map (\<lambda>k. TrimSuffix (TrimPrefix k pre) suf) ks)) w"
  using assms(1-3)
proof (induction ks arbitrary: w acc)
  case Nil
  then show ?case by (simp add: reads_def map_filter_simps)
next
  case (Cons k ks)
  then obtain i where k: "k = pre @ i @ suf" by auto
  have id: "TrimSuffix (TrimPrefix k pre) suf = i"
    by (simp add: k TrimPrefix_def TrimSuffix_def strip_append strip_end_append)
  have "GET R k (db w) = (Inr (e_str (db w k)), db w)"
    using Cons.prems(2) wt_types unfolding k assms(4) by (intro GET) (simp add: key_render)
  then obtain w' where w': "rt (GET R k) w = (Inr (e_str (db w k)), w')" "calm w'" "db w' = db w"
    using reads_rt [OF Cons.prems(1), of "GET R k"] by (auto simp: reads_def)
  have "scanLoop R pre suf (k # ks) acc w =
      scanLoop R pre suf ks (acc @ (case fired_info K (db w) i of None \<Rightarrow> [] | Some f \<Rightarrow> [f])) w'"
    using w'(1) id unfolding fired_info_def last_fired_def assms(4) [symmetric] k [symmetric]
    by (auto split: option.split bind_split)
  then show ?case
    using Cons.IH [of w' "acc @ (case fired_info K (db w) i of None \<Rightarrow> [] | Some f \<Rightarrow> [f])"] Cons.prems w'(2,3) id
    by (cases "fired_info K (db w) i") (simp_all add: reads_def map_filter_simps del: scanLoop.simps)
qed

lemma ScanSchedules_reads:
  assumes "calm w" "wt K (db w)" "finite (dom (db w))" "CHR ''*'' \<notin> set (prefix K)"
  obtains fs where "reads (ScanSchedules R K) fs w"
    "\<And>f. f \<in> set fs \<longleftrightarrow> last_fired K (db w) (F_ID f) = Some (F_LastFired f)"
    "(\<And>p s ks. fst (SCAN R p s (db w)) = Inr ks \<Longrightarrow> distinct ks) \<Longrightarrow> distinct (map F_ID fs)"
proof -
  let ?pat = "ScheduleLastFiredKey K ''*''"
  define pre where "pre = takeWhile (\<lambda>c. c \<noteq> CHR ''*'') ?pat"
  define suf where "suf = drop (length pre + 1) ?pat"
  have key: "pre @ i @ suf = ScheduleLastFiredKey K i" for i
    unfolding pre_def suf_def using scan_pattern [OF assms(4)] by simp
  obtain ks where ks: "SCAN R pre suf (db w) = (Inr ks, db w)" "set ks = {k \<in> dom (db w). \<exists>m. k = pre @ m @ suf}"
    using SCAN [OF assms(3)] by blast
  let ?id = "\<lambda>k. TrimSuffix (TrimPrefix k pre) suf"
  have id: "?id (pre @ i @ suf) = i" for i by (simp add: TrimPrefix_def TrimSuffix_def)
  let ?fs = "List.map_filter (fired_info K (db w)) (map ?id ks)"
  have "reads (ScanSchedules R K) ?fs w"
    unfolding ScanSchedules_def Let_def pre_def [symmetric] suf_def [symmetric]
  proof (rule reads_andthen [OF reads_rt [of w "SCAN R pre suf" ks, OF assms(1) ks(1)]])
    fix w' :: world assume "calm w'" "db w' = db w"
    with scanLoop_reads [OF _ _ _ key, of w' ks "[]"] ks(2) assms(2)
    show "reads (scanLoop R pre suf ks []) ?fs w'" by simp
  qed
  moreover have "f \<in> set ?fs \<longleftrightarrow> last_fired K (db w) (F_ID f) = Some (F_LastFired f)" for f
  proof -
    have "?id ` set ks = {i. db w (ScheduleLastFiredKey K i) \<noteq> None}"
      unfolding ks(2) using id key by (auto simp: image_iff dom_def) (metis key)+
    moreover have "f \<in> set ?fs \<longleftrightarrow> (\<exists>i \<in> ?id ` set ks. fired_info K (db w) i = Some f)"
      by (simp add: map_filter_set)
    moreover have "last_fired K (db w) i = Some ts \<Longrightarrow> db w (ScheduleLastFiredKey K i) \<noteq> None" for i ts
      by (cases "db w (ScheduleLastFiredKey K i)") (auto simp: last_fired_def)
    ultimately show ?thesis by (auto simp: fired_info_eq)
  qed
  moreover have "distinct (map F_ID ?fs)" if "distinct ks"
  proof -
    have "inj_on ?id (set ks)" unfolding ks(2) using id by (auto intro!: inj_onI)
    with that have "distinct (map ?id ks)" by (simp add: distinct_map)
    moreover have "distinct xs \<Longrightarrow> distinct (map F_ID (List.map_filter (fired_info K (db w)) xs))" for xs
      by (induction xs) (auto simp: map_filter_simps fired_info_def List.map_filter_def split: option.splits)
    ultimately show ?thesis by blast
  qed
  ultimately show ?thesis using that ks(1) by (metis fst_conv)
qed

lemma schedulerStatus_reads:
  assumes "calm w" "wt K (db w)" "finite (dom (db w))" "CHR ''*'' \<notin> set (prefix K)"
  obtains ms fs where
    "reads (schedulerStatus R K now) \<lparr>SS_LeaderID = leader_of K (db w), Schedules = mergeSchedules now ms fs\<rparr> w"
    "distinct (map S_ID ms)" "\<And>m. m \<in> set ms \<longleftrightarrow> registered K (db w) (S_ID m) = Some m"
    "\<And>f. f \<in> set fs \<longleftrightarrow> last_fired K (db w) (F_ID f) = Some (F_LastFired f)"
    "(\<And>p s ks. fst (SCAN R p s (db w)) = Inr ks \<Longrightarrow> distinct ks) \<Longrightarrow> distinct (map F_ID fs)"
proof -
  obtain w1 where w1: "LeaderID R K w = (Inr (leader_of K (db w)), w1)" "calm w1" "db w1 = db w"
    using LeaderID_reads [OF assms(1,2)] by (auto simp: reads_def)
  then have wt1: "wt K (db w1)" using assms(2) by simp
  obtain ms where ms: "reads (ListSchedules R K) ms w1" "distinct (map S_ID ms)"
      "\<And>m. m \<in> set ms \<longleftrightarrow> registered K (db w1) (S_ID m) = Some m"
    by (rule ListSchedules_reads [OF w1(2) wt1]) blast
  then obtain w2 where w2: "ListSchedules R K w1 = (Inr ms, w2)" "calm w2" "db w2 = db w"
    using w1(3) by (auto simp: reads_def)
  then have d2: "wt K (db w2)" "finite (dom (db w2))" using assms(2,3) by simp_all
  obtain fs where fs: "reads (ScanSchedules R K) fs w2"
      "\<And>f. f \<in> set fs \<longleftrightarrow> last_fired K (db w2) (F_ID f) = Some (F_LastFired f)"
      "(\<And>p s ks. fst (SCAN R p s (db w2)) = Inr ks \<Longrightarrow> distinct ks) \<Longrightarrow> distinct (map F_ID fs)"
    by (rule ScanSchedules_reads [OF w2(2) d2 assms(4)]) blast
  then obtain w3 where "ScanSchedules R K w2 = (Inr fs, w3)" "calm w3" "db w3 = db w"
    using w2(3) by (auto simp: reads_def)
  with w1 w2 have "reads (schedulerStatus R K now) \<lparr>SS_LeaderID = leader_of K (db w), Schedules = mergeSchedules now ms fs\<rparr> w"
    by (simp add: reads_def schedulerStatus_def andthen_def return_def)
  with that ms(2,3) fs(2,3) w1(3) w2(3) show ?thesis by simp
qed

end

lemma firedAt_last_fired:
  assumes "\<And>f. f \<in> set fs \<longleftrightarrow> last_fired K d (F_ID f) = Some (F_LastFired f)"
  shows "firedAt fs i = last_fired K d i"
proof (cases "firedAt fs i")
  case None
  then have "i \<notin> F_ID ` set fs" by (force simp: firedAt_def map_of_eq_None_iff)
  then have "last_fired K d i \<noteq> Some ts" for ts
    using assms [of "\<lparr>F_ID = i, F_LastFired = ts\<rparr>"] by (metis ScheduleFireInfo.select_convs imageI)
  with None show ?thesis by (cases "last_fired K d i") auto
next
  case (Some ts)
  then have "(i, ts) \<in> set (rev (map (\<lambda>f. (F_ID f, F_LastFired f)) fs))"
    unfolding firedAt_def by (rule map_of_SomeD)
  with assms Some show ?thesis by fastforce
qed

lemma mergeSchedules_ids:
  "SI_ID ` set (mergeSchedules now ms fs) = S_ID ` set ms \<union> F_ID ` set fs"
  "distinct (map S_ID ms) \<Longrightarrow> distinct (map F_ID fs) \<Longrightarrow> distinct (map SI_ID (mergeSchedules now ms fs))"
proof -
  have [simp]: "SI_ID (registryInfo now fs m) = S_ID m" "SI_ID (historyInfo f) = F_ID f" for m f
    by (simp_all add: registryInfo_def historyInfo_def)
  show "SI_ID ` set (mergeSchedules now ms fs) = S_ID ` set ms \<union> F_ID ` set fs"
    by (auto simp: mergeSchedules_def image_Un image_image)
  have "map SI_ID (mergeSchedules now ms fs) = map S_ID ms @ map F_ID (filter (\<lambda>f. F_ID f \<notin> set (map S_ID ms)) fs)"
    by (simp add: mergeSchedules_def comp_def)
  then show "distinct (map SI_ID (mergeSchedules now ms fs))" if "distinct (map S_ID ms)" "distinct (map F_ID fs)"
    using that by (simp only: distinct_append distinct_map_filter) force
qed

text \<open>Concrete states: a task that waits for its retry, and a scheduler with one registered schedule
  that has not fired and one that is known by its history only.\<close>

definition parked_task :: keyspace where
  "parked_task = zput (RetryKey DefaultKeys ''q'') 7 ''a'' dead_worker"

lemma intact_retry:
  assumes "intact K d" "qname_ok q"
  shows "intact K (zput (RetryKey K q) x i d)"
proof -
  let ?d = "zput (RetryKey K q) x i d"
  have ttl: "e_ttl (?d k) = e_ttl (d k)" if "e_ttl (d (RetryKey K q)) = None" for k
    using that by (auto simp: zput_def mk_zset_def)
  have "bodies_ok K ?d" "results_ok K ?d"
    using assms unfolding intact_def bodies_ok_def results_ok_def body_def by (auto simp: zput_def key_render)
  moreover have "lasting K ?d"
    using assms ttl unfolding intact_def lasting_def by auto
  moreover have "pend_ok (strm K r ?d) \<and> covered K r j 0 ?d" if "qname_ok r" for r j
  proof -
    have "pend_ok (strm K r d)" "covered K r j 0 d" using assms(1) that by (auto simp: intact_def)
    then show ?thesis
      using assms(2) that by (auto simp: covered_def parked_def body_def strm_def zmem_def zput_def key_render)
  qed
  moreover have "wt K ?d" using assms by (simp add: intact_def key_render)
  ultimately show ?thesis by (simp add: intact_def)
qed

definition sample_meta :: ScheduleMeta where
  "sample_meta = \<lparr>S_ID = ''s'', S_Kind = ''k'', S_Queue = ''q'', S_Spec = ''@every 1s'', RegisteredAt = 1, LastSeen = 100\<rparr>"

lemma meta_roundtrip:
  assumes "utf8_ok (S_Kind m)" "utf8_ok (S_Queue m)" "utf8_ok (S_Spec m)" "int64_ok (RegisteredAt m)" "int64_ok (LastSeen m)"
  shows "decode_meta (Doc (encode_meta m)) = Some (m\<lparr>S_ID := []\<rparr>)"
  using assms by (simp add: decode_meta_def encode_meta_def jstr_def jint_def utf8_ok_def int64_ok_def)

lemma sample_meta_decode: "decode_meta (Doc (encode_meta sample_meta)) = Some (sample_meta\<lparr>S_ID := []\<rparr>)"
  by (rule meta_roundtrip) (simp_all add: sample_meta_def int64_ok_def)

definition scheduler_space :: keyspace where
  "scheduler_space = [SchedulesKey DefaultKeys \<mapsto> (RHash [''s'' \<mapsto> Doc (encode_meta sample_meta)], None),
     ScheduleLastFiredKey DefaultKeys ''h'' \<mapsto> (RStr (Num 5), None)]"

lemma scheduler_space_wt: "wt DefaultKeys scheduler_space"
proof -
  have "type_of rk None" for rk by (cases rk) simp_all
  then show ?thesis unfolding wt_def scheduler_space_def by (auto simp: key_render)
qed

subsection \<open>Properties\<close>

text \<open>
  The counts of a queue are exact.  In every intact state whose pending entries are all in the stream,
  the statistics of a queue give the undelivered entries, the delivered and not yet acknowledged ones
  and the sizes of the sorted sets, and reading them changes nothing.
\<close>

theorem queueStats_counts:
  assumes "redis_laws R" "calm w" "intact K (db w)" "qname_ok q" "pel_live (strm K q (db w))"
    "queueStats R K q w = (r, w')"
  shows "db w' = db w \<and> r = Inr \<lparr>QS_Queue = q, QS_Pending = int (undelivered (strm K q (db w))),
    QS_Active = int (in_flight (strm K q (db w))), QS_Scheduled = int (length (e_zset (db w (ScheduledKey K q)))),
    QS_Retry = int (length (e_zset (db w (RetryKey K q)))), QS_Archived = int (length (e_zset (db w (ArchivedKey K q)))),
    QS_Completed = int (length (e_zset (db w (CompletedKey K q))))\<rparr>"
proof -
  note wt = intactD(1) [OF assms(3)]
  have "s_ok (strm K q (db w))" "pend_ok (strm K q (db w))"
    using wt_parts [OF wt] assms(3,4) by (auto simp: intact_def strm_def key_render)
  then have "length (entries (strm K q (db w))) = in_flight (strm K q (db w)) + undelivered (strm K q (db w))"
    using assms(5) by (rule stream_split)
  then show ?thesis
    using readsE [OF redis_laws.queueStats_reads [OF assms(1,2) wt assms(4)] assms(6)] by (simp add: counts_def)
qed

theorem queueStats_counts_witness:
  "\<exists>w' st. queueStats mem_redis DefaultKeys ''q'' (at_rest dead_worker) = (Inr st, w') \<and> QS_Pending st = 0 \<and> QS_Active st = 1"
proof -
  obtain r w' where run: "queueStats mem_redis DefaultKeys ''q'' (at_rest dead_worker) = (r, w')" by fastforce
  have s: "pel_live dead_stream" "undelivered dead_stream = 0" "in_flight dead_stream = 1"
    by (simp_all add: pel_live_def undelivered_def in_flight_def dead_stream_def empty_stream_def)
  from queueStats_counts [OF mem.redis_laws_axioms _ _ _ _ run] dead_worker_intact s run show ?thesis by simp
qed

text \<open>
  C20: listing tasks.  For one of the four states with a sorted set, the listing gives the first \<open>limit\<close>
  members in the order of their scores, each with its stored task and its time, leaving out members whose
  task is gone; for any other state it is refused.  Nothing is changed.
\<close>

theorem ListTasks_lists:
  assumes "redis_laws R" "calm w" "intact K (db w)" "qname_ok q" "0 < limit"
    "ListTasks R K q state limit w = (r, w')"
  shows "db w' = db w \<and> (case ZSetKeyForState K q state of None \<Rightarrow> r = Inl ErrInvalidState
    | Some z \<Rightarrow> r = Inr (List.map_filter (\<lambda>(x, i). map_option (\<lambda>m. (taskInfoFromMsg m)\<lparr>NextProcessAt := Some (score_time x)\<rparr>)
       (stored K q (db w) i)) (take (nat limit) (e_zset (db w z)))))"
proof (cases "ZSetKeyForState K q state")
  case None
  with assms(6) show ?thesis by (simp add: ListTasks_def fail_def)
next
  case (Some z)
  have "reads (ListTasks R K q state limit)
      (List.map_filter (\<lambda>(x, i). map_option (\<lambda>m. (taskInfoFromMsg m)\<lparr>NextProcessAt := Some (score_time x)\<rparr>)
         (stored K q (db w) i)) (take (nat limit) (e_zset (db w z)))) w"
    by (rule redis_laws.ListTasks_reads [OF assms(1,2) intactD(1) [OF assms(3)] assms(4) Some assms(5)])
      (rule intact_claimable [OF assms(3,4)])
  from readsE [OF this assms(6)] Some show ?thesis by simp
qed

theorem ListTasks_lists_witness:
  "\<exists>w' ti. ListTasks mem_redis DefaultKeys ''q'' ''retry'' 10 (at_rest parked_task) = (Inr [ti], w') \<and>
     TI_ID ti = ''a'' \<and> NextProcessAt ti = Some (7 * Second)"
proof -
  obtain r w' where run: "ListTasks mem_redis DefaultKeys ''q'' ''retry'' 10 (at_rest parked_task) = (r, w')" by fastforce
  have i: "intact DefaultKeys parked_task" unfolding parked_task_def by (intro intact_retry dead_worker_intact) simp
  have "stored DefaultKeys ''q'' parked_task ''a'' = Some sample_task" "e_zset (parked_task (RetryKey DefaultKeys ''q'')) = [(7, ''a'')]"
    using dead_worker_simps(3)
    by (simp_all add: stored_def parked_task_def body_def key_render zput_def dead_worker_def store_def z_add_def z_rem_def)
  with ListTasks_lists [OF mem.redis_laws_axioms _ _ _ _ run] i run show ?thesis
    by (simp add: ZSetKeyForState_def map_filter_simps taskInfoFromMsg_def sample_task_def score_time_def)
qed

text \<open>
  The status of the scheduler.  It names the current leader and lists exactly the schedules that are
  registered or have a fire history, in particular those that have never fired; each with the time of its last fire
  and, when it is registered, its kind, queue and specification, stale when it was last refreshed more than a minute ago.
\<close>

theorem schedulerStatus_lists:
  assumes "redis_laws R" "calm w" "wt K (db w)" "finite (dom (db w))" "CHR ''*'' \<notin> set (prefix K)"
    "schedulerStatus R K now w = (r, w')"
  shows "\<exists>st. r = Inr st \<and> db w' = db w \<and> SS_LeaderID st = leader_of K (db w) \<and>
    SI_ID ` set (Schedules st) = {i. registered K (db w) i \<noteq> None \<or> last_fired K (db w) i \<noteq> None} \<and>
    (\<forall>s \<in> set (Schedules st). SI_LastFired s = map_option (\<lambda>ts. ts * Second) (last_fired K (db w) (SI_ID s)) \<and>
       (case registered K (db w) (SI_ID s) of None \<Rightarrow> SI_Kind s = [] \<and> \<not> Stale s
        | Some m \<Rightarrow> SI_Kind s = S_Kind m \<and> SI_Queue s = S_Queue m \<and> SI_Spec s = S_Spec m \<and>
            Stale s = (Minute < now - LastSeen m * Second)))"
proof -
  obtain ms fs where
    run: "reads (schedulerStatus R K now) \<lparr>SS_LeaderID = leader_of K (db w), Schedules = mergeSchedules now ms fs\<rparr> w"
    and ms: "distinct (map S_ID ms)" "\<And>m. m \<in> set ms \<longleftrightarrow> registered K (db w) (S_ID m) = Some m"
    and fs: "\<And>f. f \<in> set fs \<longleftrightarrow> last_fired K (db w) (F_ID f) = Some (F_LastFired f)"
    by (rule redis_laws.schedulerStatus_reads [OF assms(1-5)]) blast
  note fired = firedAt_last_fired [OF fs]
  have ids: "S_ID ` set ms = {i. registered K (db w) i \<noteq> None}"
  proof -
    have "i \<in> S_ID ` set ms" if "registered K (db w) i = Some m" for i m
      using ms(2) [of m] that registered_ID [OF that] by blast
    moreover have "registered K (db w) (S_ID m) \<noteq> None" if "m \<in> set ms" for m
      using ms(2) [of m] that by simp
    ultimately show ?thesis by blast
  qed
  have "F_ID ` set fs = {i. last_fired K (db w) i \<noteq> None}"
  proof -
    have "i \<in> F_ID ` set fs" if "last_fired K (db w) i = Some ts" for i ts
      using fs [of "\<lparr>F_ID = i, F_LastFired = ts\<rparr>"] that by (metis ScheduleFireInfo.select_convs(1,2) imageI)
    moreover have "last_fired K (db w) (F_ID f) \<noteq> None" if "f \<in> set fs" for f
      using fs [of f] that by simp
    ultimately show ?thesis by blast
  qed
  with ids have "SI_ID ` set (mergeSchedules now ms fs) = {i. registered K (db w) i \<noteq> None \<or> last_fired K (db w) i \<noteq> None}"
    by (auto simp: mergeSchedules_ids)
  moreover have "SI_LastFired s = map_option (\<lambda>ts. ts * Second) (last_fired K (db w) (SI_ID s)) \<and>
      (case registered K (db w) (SI_ID s) of None \<Rightarrow> SI_Kind s = [] \<and> \<not> Stale s
       | Some m \<Rightarrow> SI_Kind s = S_Kind m \<and> SI_Queue s = S_Queue m \<and> SI_Spec s = S_Spec m \<and>
           Stale s = (Minute < now - LastSeen m * Second))" if s: "s \<in> set (mergeSchedules now ms fs)" for s
  proof -
    consider m where "m \<in> set ms" "s = registryInfo now fs m"
      | f where "f \<in> set fs" "F_ID f \<notin> S_ID ` set ms" "s = historyInfo f"
      using s by (auto simp: mergeSchedules_def)
    then show ?thesis
    proof cases
      case 1
      then have "registered K (db w) (S_ID m) = Some m" using ms(2) [of m] by simp
      with 1(2) show ?thesis by (simp add: registryInfo_def fired staleAfter_def)
    next
      case 2
      then have "last_fired K (db w) (F_ID f) = Some (F_LastFired f)" "registered K (db w) (F_ID f) = None"
        using fs [of f] ids by simp_all
      with 2(3) show ?thesis by (simp add: historyInfo_def)
    qed
  qed
  ultimately show ?thesis using readsE [OF run assms(6)] by auto
qed

theorem schedulerStatus_lists_witness:
  "\<exists>w' st. schedulerStatus mem_redis DefaultKeys (200 * Second) (at_rest scheduler_space) = (Inr st, w') \<and>
     SI_ID ` set (Schedules st) = {''s'', ''h''} \<and>
     (''s'', None, True) \<in> (\<lambda>s. (SI_ID s, SI_LastFired s, Stale s)) ` set (Schedules st)"
proof -
  let ?K = DefaultKeys and ?d = scheduler_space
  obtain r w' where run: "schedulerStatus mem_redis ?K (200 * Second) (at_rest ?d) = (r, w')" by fastforce
  have f: "finite (dom ?d)" "CHR ''*'' \<notin> set (prefix ?K)" by (simp_all add: scheduler_space_def DefaultKeys_def DefaultPrefix_def)
  have "registered ?K ?d i = (if i = ''s'' then Some sample_meta else None)" for i
    using sample_meta_decode by (simp add: registered_def scheduler_space_def key_render) (simp add: sample_meta_def)
  moreover have "last_fired ?K ?d i = (if i = ''h'' then Some 5 else None)" for i
    by (simp add: last_fired_def scheduler_space_def key_render ParseInt_def int64_ok_def)
  ultimately obtain st where st: "r = Inr st" "SI_ID ` set (Schedules st) = {''s'', ''h''}"
      "\<And>s. s \<in> set (Schedules st) \<Longrightarrow> SI_ID s = ''s'' \<Longrightarrow> SI_LastFired s = None \<and> Stale s"
    using schedulerStatus_lists [OF mem.redis_laws_axioms _ _ _ _ run] scheduler_space_wt f
    by (fastforce simp: duration_defs sample_meta_def split: if_splits)
  then have "''s'' \<in> SI_ID ` set (Schedules st)" by simp
  then obtain s where "s \<in> set (Schedules st)" "SI_ID s = ''s''" by auto
  with st(3) have "(''s'', None, True) \<in> (\<lambda>s. (SI_ID s, SI_LastFired s, Stale s)) ` set (Schedules st)"
    by (intro image_eqI [of _ _ s]) simp_all
  with st(1,2) run show ?thesis by auto
qed

end
