(* ===== verification/Monitoring.thy ===== *)
theory Monitoring
  imports Inspection Score
begin

section \<open>Prometheus metrics (contrib/prometheus)\<close>

text \<open>
  The exporter: counters and a histogram that the hooks of the server feed, and two collectors that
  read the stored state through the inspector at every scrape.  The Prometheus client is the parameter
  \<^verbatim>\<open>prom\<close>: the vectors with their operations, for which the locale \<open>prom_laws\<close> states what the code
  relies on.  A constant metric is the call of \<^verbatim>\<open>MustNewConstMetric\<close> with its arguments, in the order
  in which the collectors send them.
\<close>

subsection \<open>Task metrics (metrics.go)\<close>

record ('c, 'h) prom =
  NewCounterVec :: "string \<Rightarrow> string list \<Rightarrow> 'c"
  CounterLabels :: "'c \<Rightarrow> string list"
  Inc :: "'c \<Rightarrow> string list \<Rightarrow> 'c"
  Add :: "'c \<Rightarrow> string list \<Rightarrow> rat \<Rightarrow> 'c"
  Value :: "'c \<Rightarrow> string list \<Rightarrow> rat option"
  NewHistogramVec :: "string \<Rightarrow> rat list \<Rightarrow> string list \<Rightarrow> 'h"
  HistogramLabels :: "'h \<Rightarrow> string list"
  Buckets :: "'h \<Rightarrow> rat list"
  Observe :: "'h \<Rightarrow> string list \<Rightarrow> rat \<Rightarrow> 'h"
  SampleCount :: "'h \<Rightarrow> string list \<Rightarrow> nat"
  DefBuckets :: "rat list"

definition TaskOutcome_string :: "TaskOutcome \<Rightarrow> string" where
  "TaskOutcome_string oc =
     (case oc of OutcomeSuccess \<Rightarrow> ''success'' | OutcomeRetry \<Rightarrow> ''retry'' | OutcomeDeadLetter \<Rightarrow> ''dead_letter'')"

definition outcomeRequeued :: string where "outcomeRequeued = ''requeued''"
definition outcomeDeadLetter :: string where "outcomeDeadLetter = TaskOutcome_string OutcomeDeadLetter"

record options =
  durationBuckets :: "rat list"

definition WithDurationBuckets :: "rat list \<Rightarrow> options \<Rightarrow> options" where
  "WithDurationBuckets buckets opts = opts\<lparr>durationBuckets := buckets\<rparr>"

record ('c, 'h) PromMetrics =
  processed :: 'c
  duration_vec :: 'h
  recovered_vec :: 'c

definition NewMetrics :: "('c, 'h) prom \<Rightarrow> (options \<Rightarrow> options) list \<Rightarrow> ('c, 'h) PromMetrics" where
  "NewMetrics P opts =
     (let cfg = fold (\<lambda>opt cfg. opt cfg) opts \<lparr>durationBuckets = DefBuckets P\<rparr>;
          cfg = (if durationBuckets cfg = [] then cfg\<lparr>durationBuckets := DefBuckets P\<rparr> else cfg)
      in \<lparr>processed = NewCounterVec P ''chronos_tasks_processed_total'' [''queue'', ''kind'', ''outcome''],
          duration_vec = NewHistogramVec P ''chronos_task_duration_seconds'' (durationBuckets cfg) [''queue'', ''kind''],
          recovered_vec = NewCounterVec P ''chronos_tasks_recovered_total'' [''queue'', ''outcome'']\<rparr>)"

text \<open>\<^verbatim>\<open>Duration.Seconds\<close> adds the whole seconds and the rest as doubles; the quotient truncates.\<close>

definition Seconds :: "duration \<Rightarrow> rat" where
  "Seconds d =
     (let sec = quot d Second; nsec = d - sec * Second
      in float64 (float64 (of_int sec) + float64 (of_int nsec / 10 ^ 9)))"

definition metricsObserveTask ::
  "('c, 'h) prom \<Rightarrow> string \<Rightarrow> string \<Rightarrow> TaskOutcome \<Rightarrow> duration \<Rightarrow> ('c, 'h) PromMetrics \<Rightarrow> ('c, 'h) PromMetrics" where
  "metricsObserveTask P queue kind oc dur m =
     m\<lparr>processed := Inc P (processed m) [queue, kind, TaskOutcome_string oc],
       duration_vec := Observe P (duration_vec m) [queue, kind] (Seconds dur)\<rparr>"

definition metricsObserveRecovered ::
  "('c, 'h) prom \<Rightarrow> string \<Rightarrow> int \<Rightarrow> int \<Rightarrow> ('c, 'h) PromMetrics \<Rightarrow> ('c, 'h) PromMetrics" where
  "metricsObserveRecovered P queue recovered deadLettered m =
     m\<lparr>recovered_vec :=
         Add P (Add P (recovered_vec m) [queue, outcomeRequeued] (float64 (of_int recovered)))
           [queue, outcomeDeadLetter] (float64 (of_int deadLettered))\<rparr>"

text \<open>The calls that the server makes on its metrics, one after the other.\<close>

fun feed :: "('c, 'h) prom \<Rightarrow> observation \<Rightarrow> ('c, 'h) PromMetrics \<Rightarrow> ('c, 'h) PromMetrics" where
  "feed P (ObserveTask q k oc dur) m = metricsObserveTask P q k oc dur m"
| "feed P (ObserveRecovered q r a) m = metricsObserveRecovered P q r a m"
| "feed P (OnDeadLetter ti e) m = m"

subsection \<open>Collectors (collector.go, scheduler.go)\<close>

record Desc =
  fqName :: string
  variableLabels :: "string list"

record Metric =
  m_desc :: Desc
  m_value :: rat
  m_labels :: "string list"

definition constMetric :: "Desc \<Rightarrow> rat \<Rightarrow> string list \<Rightarrow> Metric" where
  "constMetric d v ls = \<lparr>m_desc = d, m_value = v, m_labels = ls\<rparr>"

record QueueCollector =
  qc_timeout :: duration
  qc_tasks :: Desc
  qc_paused :: Desc
  qc_up :: Desc

definition NewQueueCollector :: QueueCollector where
  "NewQueueCollector =
     \<lparr>qc_timeout = 5 * Second,
      qc_tasks = \<lparr>fqName = ''chronos_queue_tasks'', variableLabels = [''queue'', ''state'']\<rparr>,
      qc_paused = \<lparr>fqName = ''chronos_queue_paused'', variableLabels = [''queue'']\<rparr>,
      qc_up = \<lparr>fqName = ''chronos_collector_up'', variableLabels = []\<rparr>\<rparr>"

definition QueueCollector_Describe :: "QueueCollector \<Rightarrow> Desc list" where
  "QueueCollector_Describe c = [qc_tasks c, qc_paused c, qc_up c]"

text \<open>The metrics of one queue; the inspector returns no nil entries.\<close>

definition queueMetrics :: "QueueCollector \<Rightarrow> QueueInfo \<Rightarrow> Metric list" where
  "queueMetrics c q =
     (let g = (\<lambda>state v. constMetric (qc_tasks c) (float64 (of_int v)) [QI_Queue q, state]);
          paused = (if QI_Paused q then 1 else 0)
      in [g ''pending'' (QI_Pending q), g ''active'' (QI_Active q), g ''scheduled'' (QI_Scheduled q),
          g ''retry'' (QI_Retry q), g ''archived'' (QI_Archived q), g ''completed'' (QI_Completed q),
          constMetric (qc_paused c) paused [QI_Queue q]])"

definition QueueCollector_Collect :: "redis \<Rightarrow> Keys \<Rightarrow> QueueCollector \<Rightarrow> world \<Rightarrow> Metric list \<times> world" where
  "QueueCollector_Collect R K c w =
     (case inspectorQueues R K w of
        (Inl e, w') \<Rightarrow> ([constMetric (qc_up c) 0 []], w')
      | (Inr queues, w') \<Rightarrow> (constMetric (qc_up c) 1 [] # concat (map (queueMetrics c) queues), w'))"

record SchedulerCollector =
  sc_timeout :: duration
  sc_lastFired :: Desc
  sc_stale :: Desc
  sc_leader :: Desc

definition NewSchedulerCollector :: SchedulerCollector where
  "NewSchedulerCollector =
     \<lparr>sc_timeout = 5 * Second,
      sc_lastFired = \<lparr>fqName = ''chronos_schedule_last_fired_timestamp_seconds'',
        variableLabels = [''id'', ''kind'', ''queue'']\<rparr>,
      sc_stale = \<lparr>fqName = ''chronos_schedule_stale'', variableLabels = []\<rparr>,
      sc_leader = \<lparr>fqName = ''chronos_scheduler_leader'', variableLabels = [''leader_id'']\<rparr>\<rparr>"

definition SchedulerCollector_Describe :: "SchedulerCollector \<Rightarrow> Desc list" where
  "SchedulerCollector_Describe c = [sc_lastFired c, sc_stale c, sc_leader c]"

text \<open>The loop over the schedules, with the flag that it accumulates.\<close>

fun scheduleMetrics :: "SchedulerCollector \<Rightarrow> ScheduleInfo list \<Rightarrow> rat \<Rightarrow> Metric list \<times> rat" where
  "scheduleMetrics c [] anyStale = ([], anyStale)"
| "scheduleMetrics c (s # ss) anyStale =
     (let anyStale = (if Stale s then 1 else anyStale)
      in case SI_LastFired s of
           None \<Rightarrow> scheduleMetrics c ss anyStale
         | Some t \<Rightarrow>
             (case scheduleMetrics c ss anyStale of (ms, a) \<Rightarrow>
                (constMetric (sc_lastFired c) (float64 (of_int (Unix t))) [SI_ID s, SI_Kind s, SI_Queue s] # ms, a)))"

definition SchedulerCollector_Collect ::
  "redis \<Rightarrow> Keys \<Rightarrow> time \<Rightarrow> SchedulerCollector \<Rightarrow> world \<Rightarrow> Metric list \<times> world" where
  "SchedulerCollector_Collect R K now c w =
     (case schedulerStatus R K now w of
        (Inl e, w') \<Rightarrow> ([], w')
      | (Inr st, w') \<Rightarrow>
          ((if SS_LeaderID st \<noteq> [] then [constMetric (sc_leader c) 1 [SS_LeaderID st]] else []) @
           (case scheduleMetrics c (Schedules st) 0 of (ms, anyStale) \<Rightarrow>
              ms @ [constMetric (sc_stale c) anyStale []]), w'))"

text \<open>The registry rejects a scrape in which two metrics have the same name and label values.\<close>

definition series :: "Metric \<Rightarrow> string \<times> string list" where
  "series m = (fqName (m_desc m), m_labels m)"

definition gathers :: "Desc list \<Rightarrow> Metric list \<Rightarrow> bool" where
  "gathers ds ms \<longleftrightarrow> distinct (map series ms) \<and>
     (\<forall>m \<in> set ms. m_desc m \<in> set ds \<and> length (m_labels m) = length (variableLabels (m_desc m)))"

subsection \<open>The counters\<close>

text \<open>
  What the code relies on: a fresh vector has no series, an addition to the series of some label values,
  as many as the vector has labels and valid UTF-8, adds to that series and no other, exactly as long as
  the value is an integer that a double represents, and a histogram counts what it observes.
\<close>

locale prom_laws =
  fixes P :: "('c, 'h) prom"
  assumes new: "Value P (NewCounterVec P n ls) vs = None" "CounterLabels P (NewCounterVec P n ls) = ls"
    and Inc: "Inc P c vs = Add P c vs 1"
    and Add_labels: "CounterLabels P (Add P c vs x) = CounterLabels P c"
    and Add: "length vs = length (CounterLabels P c) \<Longrightarrow> list_all utf8_ok vs \<Longrightarrow>
      (case Value P c vs of None \<Rightarrow> 0 | Some v \<Rightarrow> v) = of_nat a \<Longrightarrow> a + b \<le> 2 ^ 53 \<Longrightarrow>
      Value P (Add P c vs (of_nat b)) vs = Some (of_nat (a + b))"
    and Add_other: "us \<noteq> vs \<Longrightarrow> Value P (Add P c vs x) us = Value P c us"
    and hist_new: "SampleCount P (NewHistogramVec P n bs ls) vs = 0"
      "HistogramLabels P (NewHistogramVec P n bs ls) = ls"
      "bs \<noteq> [] \<Longrightarrow> Buckets P (NewHistogramVec P n bs ls) = bs"
    and Observe_kept: "HistogramLabels P (Observe P h vs x) = HistogramLabels P h"
      "Buckets P (Observe P h vs x) = Buckets P h"
    and Observe: "length vs = length (HistogramLabels P h) \<Longrightarrow> list_all utf8_ok vs \<Longrightarrow>
      SampleCount P (Observe P h vs x) vs = Suc (SampleCount P h vs)"
    and Observe_other: "us \<noteq> vs \<Longrightarrow> SampleCount P (Observe P h vs x) us = SampleCount P h us"
    and DefBuckets: "DefBuckets P \<noteq> []"

text \<open>A client that keeps the vectors in maps.\<close>

type_synonym mem_counter = "string list \<times> (string list \<Rightarrow> rat option)"
type_synonym mem_histogram = "string list \<times> rat list \<times> (string list \<Rightarrow> nat)"

definition mem_add :: "mem_counter \<Rightarrow> string list \<Rightarrow> rat \<Rightarrow> mem_counter" where
  "mem_add c vs x = (fst c, (snd c)(vs \<mapsto> (case snd c vs of None \<Rightarrow> 0 | Some v \<Rightarrow> v) + x))"

definition mem_prom :: "(mem_counter, mem_histogram) prom" where
  "mem_prom =
     \<lparr>NewCounterVec = (\<lambda>n ls. (ls, Map.empty)), CounterLabels = fst,
      Inc = (\<lambda>c vs. mem_add c vs 1), Add = mem_add, Value = snd,
      NewHistogramVec = (\<lambda>n bs ls. (ls, bs, \<lambda>_. 0)), HistogramLabels = fst, Buckets = fst \<circ> snd,
      Observe = (\<lambda>(ls, bs, f) vs x. (ls, bs, f(vs := Suc (f vs)))), SampleCount = snd \<circ> snd,
      DefBuckets = [1 / 200, 1 / 100, 1 / 40, 1 / 20, 1 / 10, 1 / 4, 1 / 2, 1, 5 / 2, 5, 10]\<rparr>"

interpretation mem_prom: prom_laws mem_prom
  by unfold_locales (auto simp: mem_prom_def mem_add_def split: prod.splits)

text \<open>What the counters should show: tallies of the observations.\<close>

fun task_tally :: "string list \<Rightarrow> observation list \<Rightarrow> nat" where
  "task_tally vs [] = 0"
| "task_tally vs (ObserveTask q k oc dur # obs) =
     (if vs = [q, k, TaskOutcome_string oc] then 1 else 0) + task_tally vs obs"
| "task_tally vs (_ # obs) = task_tally vs obs"

fun handled_tally :: "string list \<Rightarrow> observation list \<Rightarrow> nat" where
  "handled_tally vs [] = 0"
| "handled_tally vs (ObserveTask q k oc dur # obs) = (if vs = [q, k] then 1 else 0) + handled_tally vs obs"
| "handled_tally vs (_ # obs) = handled_tally vs obs"

fun recovered_tally :: "string list \<Rightarrow> observation list \<Rightarrow> nat" where
  "recovered_tally vs [] = 0"
| "recovered_tally vs (ObserveRecovered q r a # obs) =
     (if vs = [q, outcomeRequeued] then nat r else 0) + (if vs = [q, outcomeDeadLetter] then nat a else 0) +
     recovered_tally vs obs"
| "recovered_tally vs (_ # obs) = recovered_tally vs obs"

text \<open>The observations of a server whose queues and kinds are valid UTF-8.\<close>

fun observation_ok :: "observation \<Rightarrow> bool" where
  "observation_ok (ObserveTask q k oc dur) = (utf8_ok q \<and> utf8_ok k)"
| "observation_ok (ObserveRecovered q r a) = (utf8_ok q \<and> 0 \<le> r \<and> 0 \<le> a)"
| "observation_ok (OnDeadLetter ti e) = True"

definition counted :: "('c, 'h) prom \<Rightarrow> 'c \<Rightarrow> string list \<Rightarrow> rat" where
  "counted P c vs = (case Value P c vs of None \<Rightarrow> 0 | Some v \<Rightarrow> v)"

definition labelled :: "('c, 'h) prom \<Rightarrow> ('c, 'h) PromMetrics \<Rightarrow> bool" where
  "labelled P m \<longleftrightarrow> length (CounterLabels P (processed m)) = 3 \<and> length (HistogramLabels P (duration_vec m)) = 2 \<and>
     length (CounterLabels P (recovered_vec m)) = 2"

lemma utf8_outcomes [simp]: "utf8_ok (TaskOutcome_string oc)" "utf8_ok outcomeRequeued" "utf8_ok outcomeDeadLetter"
  by (cases oc; simp add: TaskOutcome_string_def outcomeRequeued_def outcomeDeadLetter_def)+

lemma outcomes_differ [simp]: "outcomeRequeued \<noteq> outcomeDeadLetter"
  by (simp add: TaskOutcome_string_def outcomeRequeued_def outcomeDeadLetter_def)

context prom_laws
begin

lemma counted_Add:
  assumes "length vs = length (CounterLabels P c)" "list_all utf8_ok vs" "counted P c vs = of_nat a" "a + b \<le> 2 ^ 53"
  shows "counted P (Add P c vs (of_nat b)) us = counted P c us + (if us = vs then of_nat b else 0)"
  using Add [OF assms(1,2) _ assms(4)] Add_other [of us vs c] assms(3) by (auto simp: counted_def)

lemma feed_counts:
  assumes "labelled P m" "list_all observation_ok obs"
    "\<And>vs. counted P (processed m) vs = of_nat (a vs)" "\<And>vs. a vs + task_tally vs obs < 2 ^ 53"
    "\<And>vs. counted P (recovered_vec m) vs = of_nat (b vs)" "\<And>vs. b vs + recovered_tally vs obs < 2 ^ 53"
  shows "counted P (processed (fold (feed P) obs m)) vs = of_nat (a vs + task_tally vs obs) \<and>
    counted P (recovered_vec (fold (feed P) obs m)) vs = of_nat (b vs + recovered_tally vs obs) \<and>
    SampleCount P (duration_vec (fold (feed P) obs m)) vs = SampleCount P (duration_vec m) vs + handled_tally vs obs \<and>
    Buckets P (duration_vec (fold (feed P) obs m)) = Buckets P (duration_vec m)"
  using assms
proof (induction obs arbitrary: m a b)
  case Nil
  then show ?case by simp
next
  case (Cons ob obs)
  show ?case
  proof (cases ob)
    case (OnDeadLetter ti e)
    with Cons.IH [of m a b] Cons.prems show ?thesis by simp
  next
    case (ObserveTask q k oc dur)
    let ?v = "[q, k, TaskOutcome_string oc]"
    let ?m = "feed P ob m" and ?a = "\<lambda>vs. a vs + (if vs = ?v then 1 else 0)"
    have l: "labelled P ?m" using Cons.prems(1) ObserveTask
      by (simp add: labelled_def metricsObserveTask_def Inc Add_labels Observe_kept)
    have u: "utf8_ok q" "utf8_ok k" using Cons.prems(2) ObserveTask by simp_all
    have "a ?v + 1 \<le> 2 ^ 53" using Cons.prems(4) [of ?v] ObserveTask by simp
    then have p: "counted P (processed ?m) vs = of_nat (?a vs)" for vs
      using counted_Add [of ?v "processed m" "a ?v" 1 vs] Cons.prems(1,3) u ObserveTask
      by (simp add: metricsObserveTask_def Inc labelled_def)
    have h: "SampleCount P (duration_vec ?m) us = SampleCount P (duration_vec m) us + (if us = [q, k] then 1 else 0)" for us
      using Observe [of "[q, k]" "duration_vec m"] Observe_other [of us "[q, k]" "duration_vec m"] Cons.prems(1) u ObserveTask
      by (simp add: metricsObserveTask_def labelled_def)
    have r: "recovered_vec ?m = recovered_vec m" "Buckets P (duration_vec ?m) = Buckets P (duration_vec m)"
      using ObserveTask by (simp_all add: metricsObserveTask_def Observe_kept)
    have "?a vs + task_tally vs obs < 2 ^ 53" "b vs + recovered_tally vs obs < 2 ^ 53" for vs
      using Cons.prems(4) [of vs] Cons.prems(6) [of vs] ObserveTask by (simp_all split: if_splits)
    with Cons.IH [OF l _ p, of b] Cons.prems(2,5) r h ObserveTask show ?thesis by simp
  next
    case (ObserveRecovered q rn an)
    let ?u = "[q, outcomeRequeued]" and ?v = "[q, outcomeDeadLetter]"
    let ?m = "feed P ob m" and ?b = "\<lambda>vs. b vs + (if vs = ?u then nat rn else 0) + (if vs = ?v then nat an else 0)"
    have l: "labelled P ?m" using Cons.prems(1) ObserveRecovered
      by (simp add: labelled_def metricsObserveRecovered_def Add_labels)
    have u: "utf8_ok q" "0 \<le> rn" "0 \<le> an" using Cons.prems(2) ObserveRecovered by simp_all
    then obtain x y where xy: "rn = int x" "an = int y" by (metis nonneg_int_cases)
    have bounds: "b ?u + x < 2 ^ 53" "b ?v + y < 2 ^ 53"
      using Cons.prems(6) [of ?u] Cons.prems(6) [of ?v] ObserveRecovered xy by simp_all
    then have f: "float64 (of_nat x) = of_nat x" "float64 (of_nat y) = of_nat y"
      using float64_int [of "int x"] float64_int [of "int y"] by simp_all
    let ?c = "Add P (recovered_vec m) ?u (of_nat x)"
    have rv: "recovered_vec ?m = Add P ?c ?v (of_nat y)"
      using ObserveRecovered xy f by (simp add: metricsObserveRecovered_def)
    have c: "counted P ?c us = of_nat (b us + (if us = ?u then x else 0))" for us
      using counted_Add [of ?u "recovered_vec m" "b ?u" x us] Cons.prems(1,5) u bounds by (simp add: labelled_def)
    have c': "counted P ?c ?v = of_nat (b ?v)" using c [of ?v] outcomes_differ by simp
    have p: "counted P (recovered_vec ?m) vs = of_nat (?b vs)" for vs
      unfolding rv using counted_Add [OF _ _ c', of y vs] c [of vs] Cons.prems(1) u bounds xy
      by (simp add: labelled_def Add_labels)
    have r: "processed ?m = processed m" "duration_vec ?m = duration_vec m"
      using ObserveRecovered by (simp_all add: metricsObserveRecovered_def)
    have "?b vs + recovered_tally vs obs < 2 ^ 53" "a vs + task_tally vs obs < 2 ^ 53" for vs
      using Cons.prems(6) [of vs] Cons.prems(4) [of vs] ObserveRecovered by (simp_all split: if_splits)
    with Cons.IH [OF l _ _ _ p, of a] Cons.prems(2,3) r ObserveRecovered show ?thesis by simp
  qed
qed

lemma NewMetrics_fresh:
  "labelled P (NewMetrics P opts)" "counted P (processed (NewMetrics P opts)) vs = 0"
  "counted P (recovered_vec (NewMetrics P opts)) vs = 0" "SampleCount P (duration_vec (NewMetrics P opts)) vs = 0"
  "Buckets P (duration_vec (NewMetrics P opts)) \<noteq> []"
  by (auto simp: NewMetrics_def Let_def labelled_def counted_def new hist_new DefBuckets)

end

lemma handled_by_outcome:
  "handled_tally [q, k] obs = (\<Sum>oc\<leftarrow>[OutcomeSuccess, OutcomeRetry, OutcomeDeadLetter]. task_tally [q, k, TaskOutcome_string oc] obs)"
proof (induction obs)
  case (Cons ob obs)
  show ?case
  proof (cases ob)
    case (ObserveTask q' k' oc dur)
    with Cons show ?thesis by (cases oc) (auto simp: TaskOutcome_string_def)
  qed (use Cons in simp_all)
qed simp

subsection \<open>The collected metrics\<close>

definition gauge :: "Metric list \<Rightarrow> string \<Rightarrow> string list \<Rightarrow> rat option" where
  "gauge ms n ls = map_of (map (\<lambda>m. (series m, m_value m)) ms) (n, ls)"

lemma const_parts [simp]: "m_desc (constMetric d v ls) = d" "m_value (constMetric d v ls) = v"
  "m_labels (constMetric d v ls) = ls" "series (constMetric d v ls) = (fqName d, ls)"
  by (simp_all add: constMetric_def series_def)

lemma const_id: "constMetric (m_desc x) (m_value x) (m_labels x) = x"
  by (cases x) (simp add: constMetric_def)

lemma gauge_member:
  assumes "distinct (map series ms)" "constMetric c v ls \<in> set ms"
  shows "gauge ms (fqName c) ls = Some v"
  unfolding gauge_def
proof (rule map_of_is_SomeI)
  show "distinct (map fst (map (\<lambda>m. (series m, m_value m)) ms))" using assms(1) by (simp add: comp_def)
  show "((fqName c, ls), v) \<in> set (map (\<lambda>m. (series m, m_value m)) ms)"
    using assms(2) by (auto simp: image_iff intro!: bexI [of _ "constMetric c v ls"])
qed

text \<open>The samples of a queue show its stored state.\<close>

definition shows_queue :: "Keys \<Rightarrow> keyspace \<Rightarrow> Metric list \<Rightarrow> string \<Rightarrow> bool" where
  "shows_queue K d ms q \<longleftrightarrow>
     gauge ms ''chronos_queue_tasks'' [q, ''pending''] = Some (float64 (of_nat (undelivered (strm K q d)))) \<and>
     gauge ms ''chronos_queue_tasks'' [q, ''active''] = Some (float64 (of_nat (in_flight (strm K q d)))) \<and>
     gauge ms ''chronos_queue_tasks'' [q, ''scheduled''] = Some (float64 (of_nat (length (e_zset (d (ScheduledKey K q)))))) \<and>
     gauge ms ''chronos_queue_tasks'' [q, ''retry''] = Some (float64 (of_nat (length (e_zset (d (RetryKey K q)))))) \<and>
     gauge ms ''chronos_queue_tasks'' [q, ''archived''] = Some (float64 (of_nat (length (e_zset (d (ArchivedKey K q)))))) \<and>
     gauge ms ''chronos_queue_tasks'' [q, ''completed''] = Some (float64 (of_nat (length (e_zset (d (CompletedKey K q)))))) \<and>
     gauge ms ''chronos_queue_paused'' [q] = Some (if q \<in> e_set (d (PausedKey K)) then 1 else 0)"

lemma queue_gauges:
  assumes "distinct (map series ms)"
    "set (queueMetrics NewQueueCollector (queueInfo (e_set (d (PausedKey K))) (counts K q d))) \<subseteq> set ms"
    "length (entries (strm K q d)) = in_flight (strm K q d) + undelivered (strm K q d)"
  shows "shows_queue K d ms q"
proof -
  have "gauge ms (fqName (m_desc x)) (m_labels x) = Some (m_value x)" if "x \<in> set ms" for x
    using gauge_member [OF assms(1), of "m_desc x" "m_value x" "m_labels x"] that by (auto simp: const_id)
  then have "\<forall>x \<in> set (queueMetrics NewQueueCollector (queueInfo (e_set (d (PausedKey K))) (counts K q d))).
      gauge ms (fqName (m_desc x)) (m_labels x) = Some (m_value x)" using assms(2) by blast
  then show ?thesis
    using assms(3) by (simp add: queueMetrics_def queueInfo_def counts_def NewQueueCollector_def shows_queue_def)
qed

lemma queueMetrics_series:
  "distinct (map QI_Queue qs) \<Longrightarrow> distinct (map series (concat (map (queueMetrics NewQueueCollector) qs)))"
proof (induction qs)
  case (Cons q qs)
  have head: "hd (snd (series m)) = QI_Queue p" if "m \<in> set (queueMetrics NewQueueCollector p)" for p m
    using that by (auto simp: queueMetrics_def Let_def)
  have "series m \<noteq> series m'" if "m \<in> set (queueMetrics NewQueueCollector q)" "p \<in> set qs"
    "m' \<in> set (queueMetrics NewQueueCollector p)" for m m' p
  proof
    assume "series m = series m'"
    with head [OF that(1)] head [OF that(3)] have "QI_Queue q = QI_Queue p" by simp
    with Cons.prems that(2) show False by auto
  qed
  then have "series ` set (queueMetrics NewQueueCollector q) \<inter> series ` set (concat (map (queueMetrics NewQueueCollector) qs)) = {}"
    by fastforce
  moreover have "distinct (map series (queueMetrics NewQueueCollector q))"
    by (simp add: queueMetrics_def NewQueueCollector_def)
  ultimately show ?case using Cons by simp
qed simp

lemma scheduleMetrics_eq:
  "scheduleMetrics c ss a =
     (List.map_filter (\<lambda>s. map_option (\<lambda>t. constMetric (sc_lastFired c) (float64 (of_int (Unix t)))
        [SI_ID s, SI_Kind s, SI_Queue s]) (SI_LastFired s)) ss, if \<exists>s \<in> set ss. Stale s then 1 else a)"
  by (induction ss arbitrary: a) (auto simp: map_filter_simps Let_def split: option.split)

lemma scheduler_descs [simp]:
  "fqName (sc_lastFired NewSchedulerCollector) = ''chronos_schedule_last_fired_timestamp_seconds''"
  "variableLabels (sc_lastFired NewSchedulerCollector) = [''id'', ''kind'', ''queue'']"
  "fqName (sc_stale NewSchedulerCollector) = ''chronos_schedule_stale''" "variableLabels (sc_stale NewSchedulerCollector) = []"
  "fqName (sc_leader NewSchedulerCollector) = ''chronos_scheduler_leader''"
  "variableLabels (sc_leader NewSchedulerCollector) = [''leader_id'']"
  by (simp_all add: NewSchedulerCollector_def)

lemma schedule_series_distinct:
  assumes "distinct (map SI_ID ss)"
  shows "distinct (map series (fst (scheduleMetrics c ss a)))"
proof -
  let ?f = "\<lambda>s. map_option (\<lambda>t. constMetric (sc_lastFired c) (float64 (of_int (Unix t))) [SI_ID s, SI_Kind s, SI_Queue s])
    (SI_LastFired s)"
  have "hd ` snd ` series ` set (List.map_filter ?f xs) \<subseteq> SI_ID ` set xs" for xs
    by (induction xs) (auto simp: map_filter_simps split: option.split)
  then have sub: "y \<in> series ` set (List.map_filter ?f xs) \<Longrightarrow> hd (snd y) \<in> SI_ID ` set xs" for xs y by blast
  have "distinct (map SI_ID xs) \<Longrightarrow> distinct (map series (List.map_filter ?f xs))" for xs
  proof (induction xs)
    case (Cons x xs)
    then show ?case using sub [of "(fqName (sc_lastFired c), [SI_ID x, SI_Kind x, SI_Queue x])" xs]
      by (cases "SI_LastFired x") (auto simp: map_filter_simps)
  qed (simp add: map_filter_simps)
  with assms show ?thesis by (simp add: scheduleMetrics_eq)
qed

text \<open>A server that scans a key twice, which the documentation of \<^verbatim>\<open>SCAN\<close> allows.\<close>

definition scan_twice :: redis where
  "scan_twice = mem_redis\<lparr>SCAN := (\<lambda>p s d. (case SCAN mem_redis p s d of (Inr ks, d') \<Rightarrow> (Inr (ks @ ks), d') | r \<Rightarrow> r))\<rparr>"

lemma scan_twice_laws: "redis_laws scan_twice"
proof -
  have [simp]: "SCAN scan_twice p s d = (Inr (ks @ ks), d')" if "SCAN mem_redis p s d = (Inr ks, d')" for p s d ks d'
    using that by (simp add: scan_twice_def)
  have s: "\<exists>ks. SCAN scan_twice p s d = (Inr ks, d) \<and> set ks = {k \<in> dom d. \<exists>m. k = p @ m @ s}" if "finite (dom d)" for p s d
  proof -
    from mem.SCAN [OF that, of p s] obtain ks where "SCAN mem_redis p s d = (Inr ks, d)" "set ks = {k \<in> dom d. \<exists>m. k = p @ m @ s}"
      by blast
    then show ?thesis by simp
  qed
  have o: "snd (SCAN scan_twice p s d) = d \<and>
      (\<forall>ks. fst (SCAN scan_twice p s d) = Inr ks \<longrightarrow> set ks \<subseteq> {k. \<exists>m. k = p @ m @ s})" for p s d
  proof -
    obtain ks where "SCAN mem_redis p s d = (Inr ks, d)" by (simp add: mem_redis_def)
    then show ?thesis using mem.SCAN_only [of p s d] by auto
  qed
  have "redis.truncate (scan_twice\<lparr>SCAN := SCAN mem_redis\<rparr>) = redis.truncate mem_redis"
    by (simp add: scan_twice_def redis.defs)
  then have e: "scan_twice\<lparr>SCAN := SCAN mem_redis\<rparr> = mem_redis" by (simp add: scan_twice_def)
  have "redis_laws (scan_twice\<lparr>SCAN := SCAN mem_redis\<rparr>)" unfolding e by (rule mem.redis_laws_axioms)
  then show ?thesis
    unfolding redis_laws_def using s o by simp
qed

definition firing_space :: keyspace where
  "firing_space = [ScheduleLastFiredKey DefaultKeys ''h'' \<mapsto> (RStr (Num 5), None)]"

lemma firing_space_wt: "wt DefaultKeys firing_space"
proof -
  have "type_of rk None" for rk by (cases rk) simp_all
  then show ?thesis by (auto simp: wt_def firing_space_def key_render)
qed

lemma firing_space_scan:
  "ScanSchedules scan_twice DefaultKeys w = (Inr [\<lparr>F_ID = ''h'', F_LastFired = 5\<rparr>, \<lparr>F_ID = ''h'', F_LastFired = 5\<rparr>],
     stepped firing_space (stepped firing_space (stepped firing_space w)))"
  if "calm w" "db w = firing_space"
proof -
  let ?K = DefaultKeys and ?key = "ScheduleLastFiredKey DefaultKeys ''h''"
  define pre where "pre = takeWhile (\<lambda>c. c \<noteq> CHR ''*'') (ScheduleLastFiredKey ?K ''*'')"
  define suf where "suf = drop (length pre + 1) (ScheduleLastFiredKey ?K ''*'')"
  have key: "pre @ i @ suf = ScheduleLastFiredKey ?K i" for i
    unfolding pre_def suf_def using mem.scan_pattern [of ?K i] by (simp add: DefaultKeys_def DefaultPrefix_def)
  have "{k \<in> dom firing_space. \<exists>m. k = pre @ m @ suf} = {?key}"
    using key by (auto simp: firing_space_def)
  then have sc: "SCAN scan_twice pre suf firing_space = (Inr [?key, ?key], firing_space)"
    by (simp add: scan_twice_def mem_redis_def)
  have get: "GET scan_twice ?key firing_space = (Inr (Some (Num 5)), firing_space)"
    by (simp add: scan_twice_def mem_redis_def typed_def firing_space_def)
  have id: "TrimSuffix (TrimPrefix ?key pre) suf = ''h''"
    unfolding key [symmetric] using strip_end_append [of suf "''h''"] by (simp add: TrimPrefix_def TrimSuffix_def)
  show ?thesis
    unfolding ScanSchedules_def Let_def pre_def [symmetric] suf_def [symmetric]
    using that sc get id by (simp add: andthen_def ParseInt_def int64_ok_def)
qed

definition tracked_worker :: keyspace where
  "tracked_worker = dead_worker(QueuesKey DefaultKeys \<mapsto> (RSet {''q''}, None))"

lemma tracked_worker_intact: "intact DefaultKeys tracked_worker"
proof -
  have "safe DefaultKeys dead_worker tracked_worker"
  proof (rule safe_frame)
    show "wt DefaultKeys tracked_worker"
      using wt_set [OF dead_worker_simps(2), of KQueues "{''q''}" None] by (simp add: tracked_worker_def mk_set_def key_render)
    show "results_ok DefaultKeys tracked_worker"
      using dead_worker_intact by (simp add: intact_def results_ok_def tracked_worker_def key_render)
    show "rkey_ok rk \<Longrightarrow> task_key rk \<Longrightarrow> tracked_worker (render DefaultKeys rk) = dead_worker (render DefaultKeys rk)" for rk
      by (auto simp: tracked_worker_def key_render task_key_def)
  qed
  with dead_worker_intact show ?thesis by (simp add: safe_def)
qed

subsection \<open>Properties\<close>

text \<open>
  C26: the counters are the tallies of the observations.  Whatever the server reports, in any order, each
  series of processed tasks shows how often its queue, kind and outcome were reported, each series of recovered tasks shows
  the sum of the reported deltas, and the histogram of a queue and kind has as many samples as all outcomes together.
\<close>

theorem metrics_count_observations:
  assumes "prom_laws P" "list_all observation_ok obs"
    "\<forall>vs. task_tally vs obs < 2 ^ 53 \<and> recovered_tally vs obs < 2 ^ 53" "m = fold (feed P) obs (NewMetrics P opts)"
  shows "counted P (processed m) vs = of_nat (task_tally vs obs) \<and>
    counted P (recovered_vec m) vs = of_nat (recovered_tally vs obs) \<and>
    SampleCount P (duration_vec m) [q, k] =
      (\<Sum>oc\<leftarrow>[OutcomeSuccess, OutcomeRetry, OutcomeDeadLetter]. task_tally [q, k, TaskOutcome_string oc] obs) \<and>
    Buckets P (duration_vec m) \<noteq> []"
proof -
  note fresh = prom_laws.NewMetrics_fresh [OF assms(1), of opts]
  have c: "counted P (processed m) us = of_nat (task_tally us obs) \<and>
    counted P (recovered_vec m) us = of_nat (recovered_tally us obs) \<and>
    SampleCount P (duration_vec m) us = handled_tally us obs \<and>
    Buckets P (duration_vec m) = Buckets P (duration_vec (NewMetrics P opts))" for us
    using prom_laws.feed_counts [OF assms(1) fresh(1) assms(2), of "\<lambda>_. 0" "\<lambda>_. 0" us] fresh(2-4) assms(3,4) by simp
  show ?thesis using c [of vs] c [of "[q, k]"] fresh(5) handled_by_outcome [of q k obs] by simp
qed

theorem metrics_count_observations_witness:
  "counted mem_prom (processed (fold (feed mem_prom) [ObserveTask ''q'' ''k'' OutcomeRetry Second, ObserveRecovered ''q'' 3 1,
     ObserveTask ''q'' ''k'' OutcomeRetry Second] (NewMetrics mem_prom [WithDurationBuckets []]))) [''q'', ''k'', ''retry''] = 2"
proof -
  let ?obs = "[ObserveTask ''q'' ''k'' OutcomeRetry Second, ObserveRecovered ''q'' 3 1, ObserveTask ''q'' ''k'' OutcomeRetry Second]"
  have "list_all observation_ok ?obs" "\<forall>vs. task_tally vs ?obs < 2 ^ 53 \<and> recovered_tally vs ?obs < 2 ^ 53"
    by (simp_all add: TaskOutcome_string_def)
  from metrics_count_observations [OF mem_prom.prom_laws_axioms this refl, of "[WithDurationBuckets []]" "[''q'', ''k'', ''retry'']"]
  show ?thesis by (simp add: TaskOutcome_string_def)
qed

text \<open>
  C27: the queue gauges show the stored state.  In every intact state a scrape that reaches Redis reports \<^verbatim>\<open>up = 1\<close>, gives
  for every known queue the exact number of its tasks in each state and whether it is paused, has no series twice and
  only series that the collector describes.  Reading changes nothing.
\<close>

theorem queue_gauges_exact:
  assumes "redis_laws R" "calm w" "intact K (db w)"
    "\<forall>q \<in> e_set (db w (QueuesKey K)). qname_ok q \<and> pel_live (strm K q (db w))"
    "QueueCollector_Collect R K NewQueueCollector w = (ms, w')"
  shows "db w' = db w \<and> gathers (QueueCollector_Describe NewQueueCollector) ms \<and> gauge ms ''chronos_collector_up'' [] = Some 1 \<and>
    (\<forall>q \<in> e_set (db w (QueuesKey K)). shows_queue K (db w) ms q)"
proof -
  let ?c = NewQueueCollector and ?info = "\<lambda>q. queueInfo (e_set (db w (PausedKey K))) (counts K q (db w))"
  note wt = intactD(1) [OF assms(3)]
  have ok: "\<forall>q \<in> e_set (db w (QueuesKey K)). qname_ok q" using assms(4) by blast
  obtain qs where qs: "distinct qs" "set qs = e_set (db w (QueuesKey K))" "reads (inspectorQueues R K) (map ?info qs) w"
    by (rule redis_laws.inspectorQueues_reads [OF assms(1,2) wt ok])
  then have db: "db w' = db w" and ms: "ms = constMetric (qc_up ?c) 1 [] # concat (map (queueMetrics ?c) (map ?info qs))"
    using assms(5) by (auto simp: QueueCollector_Collect_def reads_def)
  have name: "QI_Queue (?info q) = q" for q by (simp add: queueInfo_def counts_def)
  then have "distinct (map series (concat (map (queueMetrics ?c) (map ?info qs))))"
    using qs(1) by (intro queueMetrics_series) (simp add: comp_def)
  then have d: "distinct (map series ms)" by (auto simp: ms queueMetrics_def NewQueueCollector_def)
  then have g: "gathers (QueueCollector_Describe ?c) ms"
    by (auto simp: gathers_def ms QueueCollector_Describe_def queueMetrics_def NewQueueCollector_def Let_def)
  have up: "gauge ms ''chronos_collector_up'' [] = Some 1"
    using gauge_member [OF d, of "qc_up ?c" 1 "[]"] by (simp add: ms NewQueueCollector_def)
  have "shows_queue K (db w) ms q" if "q \<in> set qs" for q
  proof (rule queue_gauges [OF d])
    show "set (queueMetrics ?c (?info q)) \<subseteq> set ms" using that by (auto simp: ms)
    show "length (entries (strm K q (db w))) = in_flight (strm K q (db w)) + undelivered (strm K q (db w))"
      using stream_split that assms(3,4) qs(2) wt_parts(4) [OF wt, of "KStream q"] by (auto simp: intact_def strm_def key_render)
  qed
  with db g up qs(2) show ?thesis by simp
qed

theorem queue_gauges_exact_witness:
  "\<exists>ms w'. QueueCollector_Collect mem_redis DefaultKeys NewQueueCollector (at_rest tracked_worker) = (ms, w') \<and>
     gauge ms ''chronos_queue_tasks'' [''q'', ''active''] = Some 1 \<and> gauge ms ''chronos_queue_tasks'' [''q'', ''retry''] = Some 0"
proof -
  obtain ms w' where run: "QueueCollector_Collect mem_redis DefaultKeys NewQueueCollector (at_rest tracked_worker) = (ms, w')" by fastforce
  have q: "e_set (tracked_worker (QueuesKey DefaultKeys)) = {''q''}" "strm DefaultKeys ''q'' tracked_worker = dead_stream"
    "e_zset (tracked_worker (RetryKey DefaultKeys ''q'')) = []"
    using dead_worker_simps(1)
    by (simp_all add: tracked_worker_def strm_def key_render dead_worker_def store_def)
  have s: "pel_live dead_stream" "in_flight dead_stream = 1"
    by (simp_all add: pel_live_def in_flight_def dead_stream_def empty_stream_def)
  have "shows_queue DefaultKeys tracked_worker ms ''q''"
    using queue_gauges_exact [OF mem.redis_laws_axioms _ _ _ run] tracked_worker_intact q s by simp
  then show ?thesis using run q s float64_int [of 0] float64_int [of 1] by (simp add: shows_queue_def)
qed



text \<open>
  A repeated key breaks the scrape.  Nothing removes duplicates between the scan and the collector: when the scan yields the key of a
  schedule that only has a history twice, as it may, two metrics with the same labels are sent and the whole scrape is
  rejected.
\<close>

theorem schedule_series_collide:
  "redis_laws scan_twice \<and> wt DefaultKeys firing_space \<and>
   \<not> gathers (SchedulerCollector_Describe NewSchedulerCollector)
       (fst (SchedulerCollector_Collect scan_twice DefaultKeys now NewSchedulerCollector (at_rest firing_space)))"
proof -
  let ?K = DefaultKeys and ?w = "at_rest firing_space"
  have l: "LeaderID scan_twice ?K ?w = (Inr [], stepped firing_space ?w)"
    by (simp add: LeaderID_def andthen_def return_def scan_twice_def mem_redis_def typed_def firing_space_def key_render)
  have g: "ListSchedules scan_twice ?K w = (Inr [], stepped firing_space w)" if "calm w" "db w = firing_space" for w
    using that by (simp add: ListSchedules_def andthen_def return_def scan_twice_def mem_redis_def typed_def firing_space_def
        key_render map_filter_simps)
  have "\<not> distinct (map series (fst (SchedulerCollector_Collect scan_twice ?K now NewSchedulerCollector ?w)))"
    by (simp add: SchedulerCollector_Collect_def schedulerStatus_def andthen_def l g firing_space_scan return_def
        mergeSchedules_def historyInfo_def scheduleMetrics_eq map_filter_simps)
  then show ?thesis using scan_twice_laws firing_space_wt by (simp add: gathers_def)
qed

end
