(* ===== verification/Text.thy ===== *)
theory Text
  imports Handler
begin

section \<open>Text functions\<close>

text \<open>
  The functions of \<^verbatim>\<open>strings\<close>, \<^verbatim>\<open>net/url\<close> and \<^verbatim>\<open>fmt\<close> that the web console and the command line tool use, on
  strings of bytes.
\<close>

subsection \<open>Runes\<close>

text \<open>A string as the list of its runes, each with the bytes that encode it.\<close>

function pieces :: "nat list \<Rightarrow> (nat \<times> nat list) list" where
  "pieces bs = (if bs = [] then []
     else case decode_rune bs of (r, w) \<Rightarrow> (r, take w bs) # pieces (drop w bs))"
  by pat_completeness auto
termination
proof (relation "measure length")
  fix bs :: "nat list" and r w
  assume "bs \<noteq> []" "(r, w) = decode_rune bs"
  then show "(drop w bs, bs) \<in> measure length"
    using decode_rune_width [of bs] by (cases "decode_rune bs") auto
qed simp

declare pieces.simps [simp del]

definition bytes_of :: "string \<Rightarrow> nat list" where "bytes_of s = map of_char s"
definition text_of :: "nat list \<Rightarrow> string" where "text_of bs = map char_of bs"

lemma text_bytes [simp]: "text_of (bytes_of s) = s"
  by (simp add: text_of_def bytes_of_def comp_def)

lemma pieces_concat: "concat (map snd (pieces bs)) = bs"
proof (induction bs rule: pieces.induct)
  case (1 bs)
  obtain r w where "decode_rune bs = (r, w)" by fastforce
  with 1 show ?case by (subst pieces.simps) (auto split: prod.split)
qed

definition TrimSpace :: "string \<Rightarrow> string" where
  "TrimSpace s =
     text_of (concat (map snd (rev (dropWhile (IsSpace \<circ> fst) (rev (dropWhile (IsSpace \<circ> fst) (pieces (bytes_of s))))))))"

text \<open>\<^verbatim>\<open>string([]rune)\<close>: each rune is encoded, one that is no scalar value as \<open>U+FFFD\<close>.\<close>

definition encode_rune :: "nat \<Rightarrow> nat list" where
  "encode_rune r =
     (if r < 128 then [r]
      else if r < 2048 then [192 + r div 64, 128 + r mod 64]
      else if r < 65536 then
        (if 55296 \<le> r \<and> r < 57344 then [239, 191, 189]
         else [224 + r div 4096, 128 + r div 64 mod 64, 128 + r mod 64])
      else if r < 1114112 then
        [240 + r div 262144, 128 + r div 4096 mod 64, 128 + r div 64 mod 64, 128 + r mod 64]
      else [239, 191, 189])"

subsection \<open>Splitting\<close>

text \<open>\<^verbatim>\<open>strings.Split\<close> by a separator of one byte.\<close>

fun split_on :: "char \<Rightarrow> string \<Rightarrow> string \<Rightarrow> string list" where
  "split_on c acc [] = [rev acc]"
| "split_on c acc (x # xs) = (if x = c then rev acc # split_on c [] xs else split_on c (x # acc) xs)"

definition Split :: "string \<Rightarrow> char \<Rightarrow> string list" where
  "Split s c = split_on c [] s"

fun join :: "string \<Rightarrow> string list \<Rightarrow> string" where
  "join sep [] = []"
| "join sep [x] = x"
| "join sep (x # y # xs) = x @ sep @ join sep (y # xs)"

lemma split_on_nonempty: "split_on c acc s \<noteq> []"
  by (induction s arbitrary: acc) auto

lemma join_split_on: "join [c] (split_on c acc s) = rev acc @ s"
proof (induction s arbitrary: acc)
  case (Cons x xs)
  then show ?case
    using split_on_nonempty [of c "[]" xs] Cons.IH [of "[]"] by (cases "split_on c [] xs") auto
qed simp

lemma split_on_without: "c \<notin> set acc \<Longrightarrow> p \<in> set (split_on c acc s) \<Longrightarrow> c \<notin> set p"
proof (induction s arbitrary: acc)
  case (Cons x s)
  then show ?case using Cons.IH [of "[]"] Cons.IH [of "x # acc"] by (auto split: if_splits)
qed simp

lemma join_Split: "join [c] (Split s c) = s"
  by (simp add: Split_def join_split_on)

lemma Split_without: "p \<in> set (Split s c) \<Longrightarrow> c \<notin> set p"
  using split_on_without [of c "[]"] by (simp add: Split_def)

subsection \<open>Query strings\<close>

definition hex_upper :: "nat \<Rightarrow> char" where
  "hex_upper v = char_of (if v < 10 then 48 + v else 55 + v)"

definition unreserved :: "nat \<Rightarrow> bool" where
  "unreserved b \<longleftrightarrow> 97 \<le> b \<and> b \<le> 122 \<or> 65 \<le> b \<and> b \<le> 90 \<or> 48 \<le> b \<and> b \<le> 57 \<or> b \<in> {45, 95, 46, 126}"

definition QueryEscape :: "string \<Rightarrow> string" where
  "QueryEscape s = concat (map (\<lambda>c. let b = of_char c :: nat in
     if unreserved b then [c] else if b = 32 then ''+'' else [CHR ''%'', hex_upper (b div 16), hex_upper (b mod 16)]) s)"

end
