(* ===== verification/Console.thy ===== *)
theory Console
  imports Inspection Score Text
begin

section \<open>Web console (contrib/webui)\<close>

text \<open>
  The HTTP handlers of the console on top of the inspector, with the samples that its sparklines show.  A
  request is what the handlers read of it: method, path segments after decoding, query values, origin and host.
  The clock readings, the templates with their execution, the texts of errors, the indentation of JSON texts and the static
  files are the fields of \<^verbatim>\<open>console\<close>.  A redirect is the argument of \<^verbatim>\<open>http.Redirect\<close>; what a template shows is the page with its data.
\<close>

subsection \<open>Sparklines (sparkline.go)\<close>

record ring =
  buf :: "rat list"
  next_ix :: nat
  full :: bool

definition newRing :: "nat \<Rightarrow> ring" where
  "newRing n = \<lparr>buf = replicate n 0, next_ix = 0, full = False\<rparr>"

definition ring_push :: "rat \<Rightarrow> ring \<Rightarrow> ring" where
  "ring_push v r =
     (let b = (buf r)[next_ix r := v]; n = (next_ix r + 1) mod length b
      in \<lparr>buf = b, next_ix = n, full = (if n = 0 then True else full r)\<rparr>)"

definition ring_values :: "ring \<Rightarrow> rat list" where
  "ring_values r =
     (if \<not> full r then take (next_ix r) (buf r) else drop (next_ix r) (buf r) @ take (next_ix r) (buf r))"

record sparkStore =
  rings :: "string \<Rightarrow> ring option"
  lastPush :: "string \<Rightarrow> time option"
  spark_size :: nat

definition newSparkStore :: "nat \<Rightarrow> sparkStore" where
  "newSparkStore n = \<lparr>rings = Map.empty, lastPush = Map.empty, spark_size = n\<rparr>"

definition minPushInterval :: duration where "minPushInterval = Second"

definition spark_push :: "time \<Rightarrow> string \<Rightarrow> rat \<Rightarrow> sparkStore \<Rightarrow> sparkStore" where
  "spark_push now queue v s =
     (if (case lastPush s queue of None \<Rightarrow> False | Some t \<Rightarrow> now - t < minPushInterval) then s
      else let r = (case rings s queue of None \<Rightarrow> newRing (spark_size s) | Some r \<Rightarrow> r)
           in s\<lparr>lastPush := (lastPush s)(queue \<mapsto> now), rings := (rings s)(queue \<mapsto> ring_push v r)\<rparr>)"

text \<open>The verb \<^verbatim>\<open>%.1f\<close>: the nearest tenth, ties to even.\<close>

definition fixed1 :: "rat \<Rightarrow> string" where
  "fixed1 x =
     (let n = nat (round_even (\<bar>x\<bar> * 10))
      in (if x < 0 then ''-'' else '''') @ dec_nat (n div 10) @ ''.'' @ dec_nat (n mod 10))"

definition spark_point :: "rat \<Rightarrow> rat \<Rightarrow> nat \<Rightarrow> int \<Rightarrow> int \<Rightarrow> nat \<Rightarrow> rat \<Rightarrow> string" where
  "spark_point lo spread n w h i v =
     (let pad = 2;
          x = float64 (pad + float64 (float64 (float64 (of_int w - 2 * pad) * of_nat i) / of_nat (n - 1)));
          y = float64 (pad + float64 (float64 (of_int h - 2 * pad) * float64 (1 - float64 (float64 (v - lo) / spread))))
      in fixed1 x @ '','' @ fixed1 y @ '' '')"

definition sparklineSVG :: "rat list \<Rightarrow> int \<Rightarrow> int \<Rightarrow> string" where
  "sparklineSVG vals0 w h =
     (if vals0 = [] then ''''
      else let vals = (if length vals0 = 1 then [hd vals0, hd vals0] else vals0);
               lo = fold (\<lambda>v m. if v < m then v else m) vals (hd vals);
               hi = fold (\<lambda>v m. if m < v then v else m) vals (hd vals);
               spread = (if float64 (hi - lo) = 0 then 1 else float64 (hi - lo));
               pts = concat (map (\<lambda>(i, v). spark_point lo spread (length vals) w h i v) (enumerate 0 vals))
           in ''<svg viewBox=\"0 0 '' @ dec_int w @ '' '' @ dec_int h @ ''\" width=\"'' @ dec_int w @ ''\" height=\"'' @ dec_int h @
              ''\" preserveAspectRatio=\"none\"><polyline points=\"'' @ TrimSpace pts @
              ''\" fill=\"none\" stroke=\"currentColor\" stroke-width=\"1.5\"/></svg>'')"

definition spark_svg :: "sparkStore \<Rightarrow> string \<Rightarrow> int \<Rightarrow> int \<Rightarrow> string" where
  "spark_svg s queue w h = (case rings s queue of None \<Rightarrow> '''' | Some r \<Rightarrow> sparklineSVG (ring_values r) w h)"

subsection \<open>Pages (render.go)\<close>

text \<open>The helpers of the templates.\<close>

definition tmpl_add :: "int \<Rightarrow> int \<Rightarrow> int" where "tmpl_add a b = int64 (a + b)"
definition tmpl_seq :: "nat \<Rightarrow> nat list" where "tmpl_seq n = [0..<n]"

text \<open>The ellipsis is the three bytes of its UTF-8 encoding.\<close>

definition tmpl_trunc :: "string \<Rightarrow> nat \<Rightarrow> string" where
  "tmpl_trunc s n =
     (let r = map fst (pieces (bytes_of s))
      in if length r \<le> n then s else text_of (concat (map encode_rune (take n r)) @ [226, 128, 166]))"

datatype page =
    DashboardPage string "QueueInfo list" "SchedulerStatus option" "(string \<times> string) list" string
  | QueuePage string string string "string list" "TaskInfo list" string string bool
  | TaskPage string string TaskInfo string "string list" bool
  | SchedulerPage string SchedulerStatus

record statsQueue =
  st_Queue :: string
  st_Pending :: int
  st_Active :: int
  st_Scheduled :: int
  st_Retry :: int
  st_Archived :: int
  st_Completed :: int
  st_Paused :: bool
  st_Spark :: string

datatype reply = Html string | Json "statsQueue list" | ErrorText string | RedirectTo string | File string

record response =
  status :: nat
  content :: reply

definition httpError :: "string \<Rightarrow> nat \<Rightarrow> response" where
  "httpError msg code = \<lparr>status = code, content = ErrorText msg\<rparr>"

definition httpRedirect :: "string \<Rightarrow> response" where
  "httpRedirect url = \<lparr>status = 303, content = RedirectTo url\<rparr>"

record console =
  execute :: "string \<Rightarrow> page \<Rightarrow> string + string"
  errText :: "err \<Rightarrow> string"
  indentJSON :: "bytes \<Rightarrow> string option"
  staticFile :: "string list \<Rightarrow> response"
  sampleClock :: "nat \<Rightarrow> time"
  statusClock :: time

definition pages :: "string list" where
  "pages = [''dashboard'', ''queue'', ''task'', ''scheduler'']"

definition render_page :: "console \<Rightarrow> string \<Rightarrow> page \<Rightarrow> response" where
  "render_page C name p =
     (if name \<notin> set pages then httpError (''unknown page: '' @ name) 500
      else case execute C name p of Inl e \<Rightarrow> httpError e 500 | Inr html \<Rightarrow> \<lparr>status = 200, content = Html html\<rparr>)"

subsection \<open>Handlers (handlers.go)\<close>

datatype httpMethod = MethodGet | MethodHead | MethodPost | MethodOther string

record request =
  rq_method :: httpMethod
  rq_path :: "string list"
  rq_query :: "string \<Rightarrow> string"
  rq_origin :: string
  rq_host :: string

record webserver =
  conn :: string
  sparks :: sparkStore

definition sparkW :: int where "sparkW = 80"
definition sparkH :: int where "sparkH = 20"
definition listLimit :: int where "listLimit = 100"
definition bulkLimit :: nat where "bulkLimit = 10000"

definition listStates :: "string list" where
  "listStates = [''scheduled'', ''retry'', ''archived'', ''completed'']"

type_synonym handler = "webserver \<Rightarrow> world \<Rightarrow> response \<times> webserver \<times> world"

text \<open>The samples that a request takes of the queues, and the sparkline of each one afterwards.\<close>

fun sampleQueues :: "(nat \<Rightarrow> time) \<Rightarrow> nat \<Rightarrow> QueueInfo list \<Rightarrow> sparkStore \<Rightarrow> (string \<times> string) list \<times> sparkStore" where
  "sampleQueues clk i [] s = ([], s)"
| "sampleQueues clk i (q # qs) s =
     (let s1 = spark_push (clk i) (QI_Queue q) (float64 (of_int (int64 (QI_Pending q + QI_Active q)))) s
      in case sampleQueues clk (Suc i) qs s1 of (svgs, s2) \<Rightarrow>
           ((QI_Queue q, spark_svg s1 (QI_Queue q) sparkW sparkH) # svgs, s2))"

definition dashboard :: "redis \<Rightarrow> Keys \<Rightarrow> console \<Rightarrow> request \<Rightarrow> handler" where
  "dashboard R K C r srv w =
     (case inspectorQueues R K w of
        (Inl e, w1) \<Rightarrow> (httpError (errText C e) 500, srv, w1)
      | (Inr queues, w1) \<Rightarrow>
          (case schedulerStatus R K (statusClock C) w1 of (st, w2) \<Rightarrow>
             (let sched = (case st of Inl e \<Rightarrow> None | Inr s \<Rightarrow> Some s)
              in case sampleQueues (sampleClock C) 0 queues (sparks srv) of (svgs, s) \<Rightarrow>
                   (render_page C ''dashboard'' (DashboardPage (conn srv) queues sched svgs (rq_query r ''msg'')),
                    srv\<lparr>sparks := s\<rparr>, w2))))"

definition statsOf :: "QueueInfo \<Rightarrow> string \<Rightarrow> statsQueue" where
  "statsOf q svg =
     \<lparr>st_Queue = QI_Queue q, st_Pending = QI_Pending q, st_Active = QI_Active q, st_Scheduled = QI_Scheduled q,
      st_Retry = QI_Retry q, st_Archived = QI_Archived q, st_Completed = QI_Completed q, st_Paused = QI_Paused q,
      st_Spark = svg\<rparr>"

definition apiStats :: "redis \<Rightarrow> Keys \<Rightarrow> console \<Rightarrow> request \<Rightarrow> handler" where
  "apiStats R K C r srv w =
     (case inspectorQueues R K w of
        (Inl e, w1) \<Rightarrow> (httpError (errText C e) 500, srv, w1)
      | (Inr queues, w1) \<Rightarrow>
          (case sampleQueues (sampleClock C) 0 queues (sparks srv) of (svgs, s) \<Rightarrow>
             (\<lparr>status = 200, content = Json (map2 statsOf queues (map snd svgs))\<rparr>, srv\<lparr>sparks := s\<rparr>, w1)))"

definition queueDetail :: "redis \<Rightarrow> Keys \<Rightarrow> console \<Rightarrow> string \<Rightarrow> request \<Rightarrow> handler" where
  "queueDetail R K C queue r srv w =
     (let state = (if rq_query r ''state'' = '''' then ''archived'' else rq_query r ''state'')
      in case ListTasks R K queue state listLimit w of
           (Inl e, w1) \<Rightarrow> (httpError (errText C e) (if e = ErrInvalidState then 400 else 500), srv, w1)
         | (Inr tasks, w1) \<Rightarrow>
             (let kf = rq_query r ''kind'';
                  tasks = (if kf \<noteq> '''' then filter (\<lambda>t. TI_Kind t = kf) tasks else tasks)
              in case PausedQueues R K w1 of (ps, w2) \<Rightarrow>
                   (let paused = (case ps of Inl e \<Rightarrow> False | Inr ns \<Rightarrow> queue \<in> set ns)
                    in (render_page C ''queue'' (QueuePage (conn srv) queue state listStates tasks (rq_query r ''msg'') kf paused),
                        srv, w2))))"

definition formatPayload :: "console \<Rightarrow> bytes \<Rightarrow> string" where
  "formatPayload C p = (case indentJSON C p of Some t \<Rightarrow> t | None \<Rightarrow> map (\<lambda>b. char_of (unat b)) p)"

definition taskDetail :: "redis \<Rightarrow> Keys \<Rightarrow> console \<Rightarrow> string \<Rightarrow> string \<Rightarrow> request \<Rightarrow> handler" where
  "taskDetail R K C queue id' r srv w =
     (case inspectorGetTask R K queue id' w of
        (Inl e, w1) \<Rightarrow> (httpError (errText C e) (if e = ErrTaskNotFound then 404 else 500), srv, w1)
      | (Inr task, w1) \<Rightarrow>
          (case (if TI_GroupID task \<noteq> '''' \<and> TI_GroupQueue task \<noteq> ''''
                 then GroupMemberIDs R K (TI_GroupQueue task) (TI_GroupID task) else return []) w1 of (ms, w2) \<Rightarrow>
             (render_page C ''task'' (TaskPage (conn srv) id' task (formatPayload C (TI_Payload task))
                (case ms of Inl e \<Rightarrow> [] | Inr m \<Rightarrow> m) (case ms of Inl e \<Rightarrow> False | Inr m \<Rightarrow> True)), srv, w2)))"

definition crossOrigin :: "request \<Rightarrow> bool" where
  "crossOrigin r \<longleftrightarrow> rq_origin r \<noteq> '''' \<and> rq_origin r \<noteq> ''http://'' @ rq_host r \<and> rq_origin r \<noteq> ''https://'' @ rq_host r"

definition rejected :: response where
  "rejected = httpError ''cross-origin request rejected'' 403"

definition task_action :: "console \<Rightarrow> (string \<Rightarrow> string \<Rightarrow> unit go) \<Rightarrow> string \<Rightarrow> string \<Rightarrow> string \<Rightarrow> request \<Rightarrow> handler" where
  "task_action C fn okMsg queue id' r srv w =
     (if crossOrigin r then (rejected, srv, w)
      else case fn queue id' w of (res, w1) \<Rightarrow>
        (let msg = (case res of Inl e \<Rightarrow> ''error: '' @ errText C e | Inr _ \<Rightarrow> okMsg)
         in (httpRedirect (''/queues/'' @ queue @ ''?msg='' @ QueryEscape msg), srv, w1)))"

definition runTask :: "redis \<Rightarrow> Keys \<Rightarrow> console \<Rightarrow> string \<Rightarrow> string \<Rightarrow> request \<Rightarrow> handler" where
  "runTask R K C = task_action C (RunTask R K) ''queued for immediate run''"

definition deleteTask :: "redis \<Rightarrow> Keys \<Rightarrow> console \<Rightarrow> string \<Rightarrow> string \<Rightarrow> request \<Rightarrow> handler" where
  "deleteTask R K C = task_action C (DeleteTask R K) ''deleted''"

subsection \<open>Bulk actions\<close>

record tally =
  okCount :: nat
  failCount :: nat
  failed :: "string set"
  progressed :: bool

definition handled :: "tally \<Rightarrow> nat" where
  "handled t = okCount t + failCount t"

text \<open>One pass over a listing, up to the limit.\<close>

fun bulkPass :: "(string \<Rightarrow> unit go) \<Rightarrow> TaskInfo list \<Rightarrow> tally \<Rightarrow> world \<Rightarrow> tally \<times> world" where
  "bulkPass fn [] t w = (t, w)"
| "bulkPass fn (tsk # tasks) t w =
     (if bulkLimit \<le> handled t then (t, w)
      else if TI_ID tsk \<in> failed t then bulkPass fn tasks t w
      else case fn (TI_ID tsk) w of
             (Inl e, w1) \<Rightarrow>
               bulkPass fn tasks (t\<lparr>failed := insert (TI_ID tsk) (failed t), failCount := failCount t + 1\<rparr>) w1
           | (Inr _, w1) \<Rightarrow> bulkPass fn tasks (t\<lparr>okCount := okCount t + 1, progressed := True\<rparr>) w1)"

lemma bulkPass_grows:
  "bulkPass fn tasks t w = (t', w') \<Longrightarrow> okCount t \<le> okCount t' \<and> failCount t \<le> failCount t' \<and>
     (progressed t' \<longrightarrow> progressed t \<or> okCount t < okCount t') \<and> (handled t \<le> bulkLimit \<longrightarrow> handled t' \<le> bulkLimit)"
proof (induction tasks arbitrary: t w)
  case (Cons tsk tasks)
  show ?case
  proof (cases "bulkLimit \<le> handled t \<or> TI_ID tsk \<in> failed t")
    case True
    with Cons show ?thesis by (cases "bulkLimit \<le> handled t") auto
  next
    case False
    obtain r w1 where f: "fn (TI_ID tsk) w = (r, w1)" by fastforce
    from Cons.IH [of _ w1] Cons.prems False f show ?thesis
      by (cases r) (fastforce simp: handled_def)+
  qed
qed simp

function bulkLoop ::
  "redis \<Rightarrow> Keys \<Rightarrow> string \<Rightarrow> string \<Rightarrow> (string \<Rightarrow> unit go) \<Rightarrow> tally \<Rightarrow> world \<Rightarrow> (err + tally) \<times> world" where
  "bulkLoop R K queue state fn t w =
     (if bulkLimit \<le> handled t then (Inr t, w)
      else case ListTasks R K queue state listLimit w of
             (Inl e, w1) \<Rightarrow> (Inl e, w1)
           | (Inr tasks, w1) \<Rightarrow>
               (case bulkPass fn tasks (t\<lparr>progressed := False\<rparr>) w1 of (t', w2) \<Rightarrow>
                  if \<not> progressed t' then (Inr t', w2) else bulkLoop R K queue state fn t' w2))"
  by pat_completeness auto
termination
proof (relation "measure (\<lambda>(R, K, q, s, fn, t, w). bulkLimit - handled t)")
  fix fn t w1 t' w2 tasks
  assume a: "\<not> bulkLimit \<le> handled t" "(t', w2) = bulkPass fn tasks (t\<lparr>progressed := False\<rparr>) w1" "\<not> \<not> progressed t'"
  have "handled t < handled t'" using bulkPass_grows [OF a(2) [symmetric]] a(3) by (simp add: handled_def)
  with a(1) show "((R, K, q, s, fn, t', w2), R, K, q, s, fn, t, w) \<in> measure (\<lambda>(R, K, q, s, fn, t, w). bulkLimit - handled t)"
    for R K q s w
    by simp
qed simp

declare bulkLoop.simps [simp del]

definition noTally :: tally where
  "noTally = \<lparr>okCount = 0, failCount = 0, failed = {}, progressed = False\<rparr>"

definition bulk :: "redis \<Rightarrow> Keys \<Rightarrow> console \<Rightarrow> (string \<Rightarrow> string \<Rightarrow> unit go) \<Rightarrow> string \<Rightarrow> string \<Rightarrow> request \<Rightarrow> handler" where
  "bulk R K C fn verb queue r srv w =
     (if crossOrigin r then (rejected, srv, w)
      else let state = (if rq_query r ''state'' = '''' then ''archived'' else rq_query r ''state'')
           in if state \<noteq> ''archived'' \<and> state \<noteq> ''retry''
              then (httpError ''bulk actions are limited to archived|retry'' 400, srv, w)
              else case bulkLoop R K queue state (fn queue) noTally w of (res, w1) \<Rightarrow>
                (let msg = (case res of Inl e \<Rightarrow> ''bulk failed: '' @ errText C e
                    | Inr t \<Rightarrow> dec_nat (okCount t) @ '' task(s) '' @ verb @
                        (if 0 < failCount t then '', '' @ dec_nat (failCount t) @ '' failed'' else ''''))
                 in (httpRedirect (''/queues/'' @ queue @ ''?state='' @ QueryEscape state @ ''&msg='' @ QueryEscape msg), srv, w1)))"

definition bulkRun :: "redis \<Rightarrow> Keys \<Rightarrow> console \<Rightarrow> string \<Rightarrow> request \<Rightarrow> handler" where
  "bulkRun R K C = bulk R K C (RunTask R K) ''re-ran''"

definition bulkDelete :: "redis \<Rightarrow> Keys \<Rightarrow> console \<Rightarrow> string \<Rightarrow> request \<Rightarrow> handler" where
  "bulkDelete R K C = bulk R K C (DeleteTask R K) ''deleted''"

subsection \<open>Search, scheduler and queue actions\<close>

text \<open>The first queue, in the order of the listing, in which the task is found.\<close>

fun searchIn :: "redis \<Rightarrow> Keys \<Rightarrow> string \<Rightarrow> QueueInfo list \<Rightarrow> world \<Rightarrow> string option \<times> world" where
  "searchIn R K id' [] w = (None, w)"
| "searchIn R K id' (q # qs) w =
     (case inspectorGetTask R K (QI_Queue q) id' w of
        (Inr _, w1) \<Rightarrow> (Some (QI_Queue q), w1)
      | (Inl e, w1) \<Rightarrow> searchIn R K id' qs w1)"

definition search :: "redis \<Rightarrow> Keys \<Rightarrow> console \<Rightarrow> request \<Rightarrow> handler" where
  "search R K C r srv w =
     (let id' = TrimSpace (rq_query r ''id'')
      in if id' = '''' then (httpRedirect ''/'', srv, w)
         else case inspectorQueues R K w of (qs, w1) \<Rightarrow>
           (case (case qs of Inl e \<Rightarrow> (None, w1) | Inr queues \<Rightarrow> searchIn R K id' queues w1) of
              (Some q, w2) \<Rightarrow> (httpRedirect (''/queues/'' @ q @ ''/tasks/'' @ id'), srv, w2)
            | (None, w2) \<Rightarrow> (httpRedirect (''/?msg='' @ QueryEscape (''task not found: '' @ id')), srv, w2)))"

definition schedulerPage :: "redis \<Rightarrow> Keys \<Rightarrow> console \<Rightarrow> request \<Rightarrow> handler" where
  "schedulerPage R K C r srv w =
     (case schedulerStatus R K (statusClock C) w of
        (Inl e, w1) \<Rightarrow> (httpError (errText C e) 500, srv, w1)
      | (Inr st, w1) \<Rightarrow> (render_page C ''scheduler'' (SchedulerPage (conn srv) st), srv, w1))"

definition queueAction :: "console \<Rightarrow> (string \<Rightarrow> unit go) \<Rightarrow> string \<Rightarrow> string \<Rightarrow> request \<Rightarrow> handler" where
  "queueAction C fn okMsg queue r srv w =
     (if crossOrigin r then (rejected, srv, w)
      else case fn queue w of (res, w1) \<Rightarrow>
        (let msg = (case res of Inl e \<Rightarrow> ''error: '' @ errText C e | Inr _ \<Rightarrow> okMsg)
         in (httpRedirect (''/queues/'' @ queue @ ''?msg='' @ QueryEscape msg), srv, w1)))"

definition pauseQueue :: "redis \<Rightarrow> Keys \<Rightarrow> console \<Rightarrow> string \<Rightarrow> request \<Rightarrow> handler" where
  "pauseQueue R K C = queueAction C (PauseQueue R K) ''paused (takes effect within ~1s)''"

definition resumeQueue :: "redis \<Rightarrow> Keys \<Rightarrow> console \<Rightarrow> string \<Rightarrow> request \<Rightarrow> handler" where
  "resumeQueue R K C = queueAction C (ResumeQueue R K) ''resumed''"

subsection \<open>Routes (webui.go)\<close>

datatype endpoint =
    Dashboard | Stats | QueueDetail string | TaskDetail string string | Run string string | Delete string string
  | Pause string | Resume string | BulkRun string | BulkDelete string | Search | SchedulerInfo
  | Static "string list" | Nowhere

text \<open>The patterns of the mux on a path without a trailing slash.\<close>

definition route :: "string list \<Rightarrow> endpoint" where
  "route p =
     (case p of
        [] \<Rightarrow> Dashboard
      | [a] \<Rightarrow> if a = ''search'' then Search else if a = ''scheduler'' then SchedulerInfo else Nowhere
      | [a, b] \<Rightarrow> if a = ''static'' then Static [b] else if a = ''api'' \<and> b = ''stats'' then Stats
                  else if a = ''queues'' then QueueDetail b else Nowhere
      | [a, b, c] \<Rightarrow> if a = ''static'' then Static [b, c] else if a \<noteq> ''queues'' then Nowhere
                     else if c = ''pause'' then Pause b else if c = ''resume'' then Resume b else Nowhere
      | [a, b, c, d] \<Rightarrow> if a = ''static'' then Static [b, c, d] else if a \<noteq> ''queues'' then Nowhere
                        else if c = ''tasks'' then TaskDetail b d
                        else if c = ''bulk'' \<and> d = ''run'' then BulkRun b
                        else if c = ''bulk'' \<and> d = ''delete'' then BulkDelete b else Nowhere
      | a # b # c # d # e # rest \<Rightarrow>
          if a = ''static'' then Static (b # c # d # e # rest)
          else if a = ''queues'' \<and> c = ''tasks'' \<and> rest = [] \<and> e = ''run'' then Run b d
          else if a = ''queues'' \<and> c = ''tasks'' \<and> rest = [] \<and> e = ''delete'' then Delete b d else Nowhere)"

definition isPost :: "endpoint \<Rightarrow> bool" where
  "isPost e = (case e of Run q i \<Rightarrow> True | Delete q i \<Rightarrow> True | Pause q \<Rightarrow> True | Resume q \<Rightarrow> True
     | BulkRun q \<Rightarrow> True | BulkDelete q \<Rightarrow> True | _ \<Rightarrow> False)"

definition methodAllowed :: "endpoint \<Rightarrow> httpMethod \<Rightarrow> bool" where
  "methodAllowed e m = (if isPost e then m = MethodPost else m = MethodGet \<or> m = MethodHead)"

definition Handler :: "string \<Rightarrow> webserver" where
  "Handler label = \<lparr>conn = label, sparks = newSparkStore 20\<rparr>"

definition serve :: "redis \<Rightarrow> Keys \<Rightarrow> console \<Rightarrow> request \<Rightarrow> handler" where
  "serve R K C r srv w =
     (let e = route (rq_path r)
      in if e = Nowhere then (httpError ''404 page not found'' 404, srv, w)
         else if \<not> methodAllowed e (rq_method r) then (httpError ''Method Not Allowed'' 405, srv, w)
         else case e of
           Dashboard \<Rightarrow> dashboard R K C r srv w
         | Stats \<Rightarrow> apiStats R K C r srv w
         | QueueDetail q \<Rightarrow> queueDetail R K C q r srv w
         | TaskDetail q i \<Rightarrow> taskDetail R K C q i r srv w
         | Run q i \<Rightarrow> runTask R K C q i r srv w
         | Delete q i \<Rightarrow> deleteTask R K C q i r srv w
         | Pause q \<Rightarrow> pauseQueue R K C q r srv w
         | Resume q \<Rightarrow> resumeQueue R K C q r srv w
         | BulkRun q \<Rightarrow> bulkRun R K C q r srv w
         | BulkDelete q \<Rightarrow> bulkDelete R K C q r srv w
         | Search \<Rightarrow> search R K C r srv w
         | SchedulerInfo \<Rightarrow> schedulerPage R K C r srv w
         | Static p \<Rightarrow> (staticFile C p, srv, w)
         | Nowhere \<Rightarrow> (httpError ''404 page not found'' 404, srv, w))"

subsection \<open>The window of samples\<close>

definition last_n :: "nat \<Rightarrow> 'a list \<Rightarrow> 'a list" where
  "last_n n xs = drop (length xs - n) xs"

lemma last_n_snoc: "last_n n (last_n n xs @ [v]) = last_n n (xs @ [v])"
proof -
  have "length (last_n n xs) = min n (length xs)" by (auto simp: last_n_def)
  then show ?thesis by (cases "length xs < n") (auto simp: last_n_def drop_append min_def Suc_diff_le)
qed

text \<open>What the store of the sparklines needs of a buffer: it keeps the latest samples, in order.\<close>

locale sample_window =
  fixes new :: "nat \<Rightarrow> 'r" and push :: "'a \<Rightarrow> 'r \<Rightarrow> 'r" and vals :: "'r \<Rightarrow> 'a list" and ok :: "nat \<Rightarrow> 'r \<Rightarrow> bool"
  assumes new: "0 < n \<Longrightarrow> ok n (new n) \<and> vals (new n) = []"
    and push: "0 < n \<Longrightarrow> ok n r \<Longrightarrow> ok n (push v r) \<and> vals (push v r) = last_n n (vals r @ [v])"
begin

lemma window_ok: "0 < n \<Longrightarrow> ok n (fold push vs (new n)) \<and> vals (fold push vs (new n)) = last_n n vs"
proof (induction vs rule: rev_induct)
  case Nil
  then show ?case using new by (simp add: last_n_def)
next
  case (snoc v vs)
  then show ?case using push [of n "fold push vs (new n)" v] by (simp add: last_n_snoc)
qed

end

definition ring_ok :: "nat \<Rightarrow> ring \<Rightarrow> bool" where
  "ring_ok n r \<longleftrightarrow> length (buf r) = n \<and> next_ix r < n"

lemma ring_push_values:
  assumes "ring_ok n r"
  shows "ring_ok n (ring_push v r) \<and> ring_values (ring_push v r) = last_n n (ring_values r @ [v])"
proof -
  let ?k = "next_ix r" and ?b = "buf r"
  have k: "?k < length ?b" "length ?b = n" using assms by (auto simp: ring_ok_def)
  have b: "take (Suc ?k) (?b[?k := v]) = take ?k ?b @ [v]" "drop (Suc ?k) (?b[?k := v]) = drop (Suc ?k) ?b"
    using k by (simp_all add: take_Suc_conv_app_nth)
  have d: "drop ?k ?b = ?b ! ?k # drop (Suc ?k) ?b" using k by (simp add: Cons_nth_drop_Suc)
  show ?thesis
  proof (cases "Suc ?k = n")
    case True
    then have "ring_push v r = \<lparr>buf = ?b[?k := v], next_ix = 0, full = True\<rparr>"
      using k by (simp add: ring_push_def)
    moreover have "?b[?k := v] = take ?k ?b @ [v]" using b(1) True k by simp
    ultimately show ?thesis
      using k True d by (auto simp: ring_ok_def ring_values_def last_n_def)
  next
    case False
    then have "Suc ?k < n" using k by simp
    then have "ring_push v r = \<lparr>buf = ?b[?k := v], next_ix = Suc ?k, full = full r\<rparr>"
      using k by (simp add: ring_push_def)
    then show ?thesis
      using k b d \<open>Suc ?k < n\<close> by (auto simp: ring_ok_def ring_values_def last_n_def)
  qed
qed

interpretation window: sample_window newRing ring_push ring_values ring_ok
proof
  fix n :: nat assume "0 < n"
  then show "ring_ok n (newRing n) \<and> ring_values (newRing n) = []"
    by (simp add: newRing_def ring_ok_def ring_values_def)
qed (rule ring_push_values)

text \<open>The samples of a queue that are not dropped: those at least the minimal interval after the last one.\<close>

fun accepted :: "time option \<Rightarrow> (time \<times> rat) list \<Rightarrow> rat list" where
  "accepted l [] = []"
| "accepted l ((t, v) # xs) =
     (if (case l of None \<Rightarrow> False | Some t' \<Rightarrow> t - t' < minPushInterval) then accepted l xs else v # accepted (Some t) xs)"

definition samples_of :: "string \<Rightarrow> (string \<times> time \<times> rat) list \<Rightarrow> (time \<times> rat) list" where
  "samples_of q ps = map snd (filter (\<lambda>p. fst p = q) ps)"

definition shown :: "sparkStore \<Rightarrow> string \<Rightarrow> rat list" where
  "shown s q = (case rings s q of None \<Rightarrow> [] | Some r \<Rightarrow> ring_values r)"

definition store_ok :: "sparkStore \<Rightarrow> bool" where
  "store_ok s \<longleftrightarrow> 0 < spark_size s \<and> (\<forall>q r. rings s q = Some r \<longrightarrow> ring_ok (spark_size s) r)"

lemma spark_push_step:
  assumes "store_ok s"
  shows "store_ok (spark_push t p v s) \<and> spark_size (spark_push t p v s) = spark_size s \<and>
    (if q = p \<and> \<not> (case lastPush s q of None \<Rightarrow> False | Some t' \<Rightarrow> t - t' < minPushInterval)
     then lastPush (spark_push t p v s) q = Some t \<and> shown (spark_push t p v s) q = last_n (spark_size s) (shown s q @ [v])
     else lastPush (spark_push t p v s) q = lastPush s q \<and> shown (spark_push t p v s) q = shown s q)"
proof -
  let ?n = "spark_size s"
  let ?r = "case rings s p of None \<Rightarrow> newRing ?n | Some r \<Rightarrow> r"
  have n: "0 < ?n" using assms by (simp add: store_ok_def)
  have r: "ring_ok ?n ?r" "ring_values ?r = shown s p"
    using assms window.new [OF n] by (auto simp: store_ok_def shown_def split: option.split)
  note step = ring_push_values [OF r(1), of v]
  show ?thesis
  proof (cases "case lastPush s p of None \<Rightarrow> False | Some t' \<Rightarrow> t - t' < minPushInterval")
    case True
    then have "spark_push t p v s = s" by (simp add: spark_push_def)
    with True assms show ?thesis by auto
  next
    case False
    then have p: "spark_push t p v s = s\<lparr>lastPush := (lastPush s)(p \<mapsto> t), rings := (rings s)(p \<mapsto> ring_push v ?r)\<rparr>"
      by (simp add: spark_push_def)
    have "store_ok (spark_push t p v s)" using assms step by (auto simp: p store_ok_def)
    then show ?thesis using False step r(2) by (auto simp: p shown_def)
  qed
qed

lemma spark_window:
  assumes "store_ok s" "lastPush s q = l" "shown s q = last_n (spark_size s) acc"
  shows "shown (fold (\<lambda>(p, t, v). spark_push t p v) ps s) q = last_n (spark_size s) (acc @ accepted l (samples_of q ps))"
  using assms
proof (induction ps arbitrary: s l acc)
  case (Cons x ps)
  obtain p t v where x: "x = (p, t, v)" by (cases x)
  let ?s = "spark_push t p v s"
  note step = spark_push_step [OF Cons.prems(1), of t p v q]
  show ?case
  proof (cases "q = p \<and> \<not> (case l of None \<Rightarrow> False | Some t' \<Rightarrow> t - t' < minPushInterval)")
    case True
    then have "shown ?s q = last_n (spark_size s) (acc @ [v])" "lastPush ?s q = Some t"
      using step Cons.prems by (simp_all add: last_n_snoc)
    with Cons.IH [of ?s "Some t" "acc @ [v]"] step True x show ?thesis by (auto simp: samples_of_def)
  next
    case False
    then have "shown ?s q = last_n (spark_size s) acc" "lastPush ?s q = l" using step Cons.prems by auto
    with Cons.IH [of ?s l acc] step False x show ?thesis by (auto simp: samples_of_def)
  qed
qed (simp add: samples_of_def)

subsection \<open>Draining a state\<close>

text \<open>A set whose members all have a task that decodes.\<close>

definition full_set :: "Keys \<Rightarrow> string \<Rightarrow> string \<Rightarrow> keyspace \<Rightarrow> bool" where
  "full_set K q z d \<longleftrightarrow> (\<forall>i \<in> zmem z d. claimable K q d i \<and> body K q i d \<noteq> None)"

lemma z_rem_head: "distinct (map snd ((x, i) # zs)) \<Longrightarrow> z_rem i ((x, i) # zs) = zs"
proof -
  assume "distinct (map snd ((x, i) # zs))"
  then have "i \<notin> snd ` set zs" by simp
  then have "filter (\<lambda>p. snd p \<noteq> i) zs = zs" by (auto simp: filter_id_conv)
  then show ?thesis by (simp add: z_rem_def split_def)
qed

lemma claimable_same: "body K q i d' = body K q i d \<Longrightarrow> claimable K q d' i = claimable K q d i"
  by (simp add: claimable_def)

context redis_laws
begin

lemma DeleteTask_head:
  assumes "calm w" "wt K (db w)" "qname_ok q" "ZSetKeyForState K q state = Some z" "full_set K q z (db w)"
    "e_zset (db w z) = (x, i) # zs"
  obtains w' where "DeleteTask R K q i w = (Inr (), w')" "calm w'" "wt K (db w')" "e_zset (db w' z) = zs"
    "full_set K q z (db w')" "\<And>j. db w' (TaskKey K q j) = (if j = i then None else db w (TaskKey K q j))"
proof -
  have i: "claimable K q (db w) i" "body K q i (db w) \<noteq> None"
    using assms(5,6) by (auto simp: full_set_def zmem_def z_members_def)
  then obtain m where m: "stored K q (db w) i = Some m" "ID m = i" "lock_ok K q (UniqueLock m)"
    by (auto simp: stored_def claimable_def)
  let ?d = "kdel (TaskKey K q i) (unpark K q i (db w))"
  obtain w' where w': "DeleteTask R K q i w = (Inr (), w')" "calm w'" "wt K (db w')" "db w' = unlocked m ?d"
    using DeleteTask_run [OF assms(1-3) i(1)] m(1) by auto
  have z: "z \<in> {ScheduledKey K q, RetryKey K q, ArchivedKey K q, CompletedKey K q}"
    using assms(4) by (auto simp: ZSetKeyForState_def split: if_splits)
  obtain rk where rk: "z = render K rk" "rkey_ok rk" "rk \<in> {KScheduled q, KRetry q, KArchived q, KCompleted q}"
    using z assms(3) by (auto simp: key_render)
  have "distinct (map snd ((x, i) # zs))"
    using wt_parts(2) [OF assms(2) rk(2)] assms(6) rk(1) by (simp add: z_ok_def)
  then have "z_rem i (e_zset (db w z)) = zs" unfolding assms(6) by (rule z_rem_head)
  moreover have "e_zset (?d z) = z_rem i (e_zset (db w z))"
    using rk assms(3) by (auto simp: unpark_def zdel_def kdel_def key_render)
  moreover have "unlocked m ?d z = ?d z" using unlocked_other [OF m(3) assms(3) rk(2), of ?d] rk by auto
  ultimately have ez: "e_zset (db w' z) = zs" using w'(4) by simp
  have key: "db w' (TaskKey K q j) = (if j = i then None else db w (TaskKey K q j))" for j
    using unlocked_parts(3) [OF m(3) assms(3), of ?d j] w'(4) assms(3)
    by (simp add: unpark_def zdel_def kdel_def key_render)
  have "i \<notin> zmem z (db w')"
    using \<open>distinct (map snd ((x, i) # zs))\<close> ez by (auto simp: zmem_def z_members_def)
  moreover have "zmem z (db w') \<subseteq> zmem z (db w)" using ez assms(6) by (auto simp: zmem_def z_members_def)
  moreover have "body K q j (db w') = body K q j (db w)" if "j \<noteq> i" for j using key [of j] that by (simp add: body_def)
  ultimately have "full_set K q z (db w')"
    using assms(5) claimable_same unfolding full_set_def by (metis subsetD)
  with that w' ez key show ?thesis by blast
qed

lemma bulkPass_deletes:
  assumes "calm w" "wt K (db w)" "qname_ok q" "ZSetKeyForState K q state = Some z" "full_set K q z (db w)"
    "e_zset (db w z) = zs @ zs'" "map TI_ID tasks = map snd zs" "failed t = {}"
    "k = min (length zs) (bulkLimit - handled t)"
  shows "\<exists>w'. bulkPass (DeleteTask R K q) tasks t w = (t\<lparr>okCount := okCount t + k, progressed := progressed t \<or> 0 < k\<rparr>, w') \<and>
    calm w' \<and> wt K (db w') \<and> e_zset (db w' z) = drop k (zs @ zs') \<and> full_set K q z (db w') \<and>
    (\<forall>j. db w' (TaskKey K q j) = (if j \<in> snd ` set (take k zs) then None else db w (TaskKey K q j)))"
  using assms
proof (induction zs arbitrary: w t tasks k)
  case Nil
  then show ?case by auto
next
  case (Cons y zs)
  obtain x i where y: "y = (x, i)" by fastforce
  then obtain tsk ts where tasks: "tasks = tsk # ts" "TI_ID tsk = i" "map TI_ID ts = map snd zs"
    using Cons.prems(7) by (cases tasks) auto
  show ?case
  proof (cases "bulkLimit \<le> handled t")
    case True
    then show ?thesis using Cons.prems tasks y by (auto intro!: exI [of _ w])
  next
    case False
    have z: "e_zset (db w z) = (x, i) # (zs @ zs')" using Cons.prems(6) y by simp
    obtain w1 where w1: "DeleteTask R K q i w = (Inr (), w1)" "calm w1" "wt K (db w1)" "e_zset (db w1 z) = zs @ zs'"
      "full_set K q z (db w1)" "\<And>j. db w1 (TaskKey K q j) = (if j = i then None else db w (TaskKey K q j))"
      by (rule DeleteTask_head [OF Cons.prems(1-5) z]) blast
    let ?t = "t\<lparr>okCount := okCount t + 1, progressed := True\<rparr>"
    define k' where "k' = min (length zs) (bulkLimit - handled ?t)"
    have k: "k = Suc k'" using False Cons.prems(9) by (auto simp: k'_def handled_def min_def)
    from Cons.IH [OF w1(2,3) Cons.prems(3,4) w1(5,4) tasks(3) _ k'_def] Cons.prems(8)
    obtain w' where "bulkPass (DeleteTask R K q) ts ?t w1 = (?t\<lparr>okCount := okCount ?t + k', progressed := progressed ?t \<or> 0 < k'\<rparr>, w')"
      "calm w'" "wt K (db w')" "e_zset (db w' z) = drop k' (zs @ zs')" "full_set K q z (db w')"
      "\<forall>j. db w' (TaskKey K q j) = (if j \<in> snd ` set (take k' zs) then None else db w1 (TaskKey K q j))" by auto
    then show ?thesis using tasks False w1(1,6) Cons.prems(8) y k by (auto intro!: exI [of _ w'])
  qed
qed

lemma bulkLoop_deletes:
  assumes "calm w" "wt K (db w)" "qname_ok q" "ZSetKeyForState K q state = Some z" "full_set K q z (db w)"
    "failed t = {}" "handled t \<le> bulkLimit" "k = min (length (e_zset (db w z))) (bulkLimit - handled t)"
  shows "\<exists>w' t'. bulkLoop R K q state (DeleteTask R K q) t w = (Inr t', w') \<and> okCount t' = okCount t + k \<and> failCount t' = failCount t \<and>
    e_zset (db w' z) = drop k (e_zset (db w z)) \<and>
    (\<forall>j. db w' (TaskKey K q j) = (if j \<in> snd ` set (take k (e_zset (db w z))) then None else db w (TaskKey K q j)))"
  using assms
proof (induction "length (e_zset (db w z))" arbitrary: w t k rule: less_induct)
  case less
  show ?case
  proof (cases "bulkLimit \<le> handled t")
    case True
    then show ?thesis using less.prems(8) by (subst bulkLoop.simps) simp
  next
    case False
    let ?z = "e_zset (db w z)" and ?t = "t\<lparr>progressed := False\<rparr>"
    let ?infos = "List.map_filter (\<lambda>(x, i). map_option (\<lambda>m. (taskInfoFromMsg m)\<lparr>NextProcessAt := Some (score_time x)\<rparr>)
       (stored K q (db w) i)) (take 100 ?z)"
    have c: "claimable K q (db w) i" "body K q i (db w) \<noteq> None" if "i \<in> zmem z (db w)" for i
      using that less.prems(5) by (auto simp: full_set_def)
    obtain w1 where w1: "ListTasks R K q state listLimit w = (Inr ?infos, w1)" "calm w1" "db w1 = db w"
      using ListTasks_reads [OF less.prems(1-4) _ c(1), of listLimit] by (auto simp: reads_def listLimit_def)
    have ids: "map TI_ID (List.map_filter (\<lambda>(x, i). map_option (\<lambda>m. (taskInfoFromMsg m)\<lparr>NextProcessAt := Some (score_time x)\<rparr>)
       (stored K q (db w) i)) ys) = map snd ys" if "set ys \<subseteq> set ?z" for ys
      using that
    proof (induction ys)
      case (Cons y ys)
      obtain x i where y: "y = (x, i)" by fastforce
      then have "i \<in> zmem z (db w)" using Cons.prems by (force simp: zmem_def z_members_def)
      from c [OF this] obtain m where "stored K q (db w) i = Some m" "ID m = i"
        by (auto simp: stored_def claimable_def)
      then show ?case using Cons y by (simp add: map_filter_simps taskInfoFromMsg_def)
    qed (simp add: map_filter_simps)
    define k1 where "k1 = min (length (take 100 ?z)) (bulkLimit - handled ?t)"
    have "map TI_ID ?infos = map snd (take 100 ?z)" by (intro ids set_take_subset)
    then obtain w2 where w2: "bulkPass (DeleteTask R K q) ?infos ?t w1 = (?t\<lparr>okCount := okCount ?t + k1, progressed := progressed ?t \<or> 0 < k1\<rparr>, w2)"
      "calm w2" "wt K (db w2)" "e_zset (db w2 z) = drop k1 ?z" "full_set K q z (db w2)"
      "\<forall>j. db w2 (TaskKey K q j) = (if j \<in> snd ` set (take k1 ?z) then None else db w (TaskKey K q j))"
      using bulkPass_deletes [of w1 K q state z "take 100 ?z" "drop 100 ?z" ?infos ?t k1] less.prems w1 k1_def
      by (auto simp: min_def)
    show ?thesis
    proof (cases "k1 = 0")
      case True
      then have "?z = []" using False k1_def by (auto simp: handled_def min_def split: if_splits)
      then show ?thesis using less.prems(8) w1 w2 True False by (subst bulkLoop.simps) (auto intro!: exI [of _ w2])
    next
      case k1: False
      let ?t2 = "?t\<lparr>okCount := okCount ?t + k1, progressed := progressed ?t \<or> 0 < k1\<rparr>"
      have loop: "bulkLoop R K q state (DeleteTask R K q) t w = bulkLoop R K q state (DeleteTask R K q) ?t2 w2"
        using False w1 w2(1) k1 by (subst bulkLoop.simps) simp
      have le: "k1 \<le> length ?z" "k1 \<le> bulkLimit - handled t" by (auto simp: k1_def handled_def)
      define k2 where "k2 = min (length (e_zset (db w2 z))) (bulkLimit - handled ?t2)"
      have k: "k = k1 + k2" using less.prems(8) w2(4) le by (auto simp: k2_def handled_def min_def)
      have "length (e_zset (db w2 z)) < length ?z" "handled ?t2 \<le> bulkLimit"
        using w2(4) k1 le False by (auto simp: handled_def)
      from less.hyps [OF this(1) w2(2,3) less.prems(3,4) w2(5) _ this(2) k2_def] less.prems(6)
      obtain w' t' where "bulkLoop R K q state (DeleteTask R K q) ?t2 w2 = (Inr t', w')" "okCount t' = okCount ?t2 + k2"
        "failCount t' = failCount ?t2" "e_zset (db w' z) = drop k2 (e_zset (db w2 z))"
        "\<forall>j. db w' (TaskKey K q j) = (if j \<in> snd ` set (take k2 (e_zset (db w2 z))) then None else db w2 (TaskKey K q j))" by auto
      moreover have "take k ?z = take k1 ?z @ take k2 (drop k1 ?z)" unfolding k by (rule take_add)
      ultimately show ?thesis using w2(4,6) loop k by (auto simp: add.commute image_Un intro!: exI [of _ w'] exI [of _ t'])
    qed
  qed
qed

end

text \<open>Concrete inputs.\<close>

definition sample_console :: console where
  "sample_console = \<lparr>execute = (\<lambda>n p. Inr n), errText = (\<lambda>_. ''failed''), indentJSON = (\<lambda>_. None),
     staticFile = (\<lambda>p. \<lparr>status = 200, content = File ''''\<rparr>), sampleClock = (\<lambda>_. 0), statusClock = 0\<rparr>"

definition sample_request :: "httpMethod \<Rightarrow> string list \<Rightarrow> string \<Rightarrow> string \<Rightarrow> request" where
  "sample_request m p state origin =
     \<lparr>rq_method = m, rq_path = p, rq_query = (\<lambda>k. if k = ''state'' then state else ''''), rq_origin = origin, rq_host = ''h''\<rparr>"

lemma GetTask_missing:
  assumes "redis_laws R" "calm w" "wt K (db w)" "qname_ok q" "body K q i (db w) = None"
  shows "\<exists>w'. inspectorGetTask R K q i w = (Inl ErrTaskNotFound, w') \<and> db w' = db w"
  using redis_laws.GetTask_reads(2) [OF assms] by (auto simp: inspectorGetTask_def)

subsection \<open>Properties\<close>

text \<open>
  C24: the sparkline shows a window of the samples.  Whatever samples the requests take, in any order of queues and at any times, the
  line of a queue shows the latest samples of that queue, oldest first and at most as many as the size of the ring, leaving out those
  that came less than a second after the last one that was kept.
\<close>

theorem sparkline_window:
  assumes "0 < n"
  shows "shown (fold (\<lambda>(q, t, v). spark_push t q v) ps (newSparkStore n)) q = last_n n (accepted None (samples_of q ps))"
  using spark_window [of "newSparkStore n" q None "[]" ps] assms
  by (simp add: store_ok_def newSparkStore_def shown_def last_n_def)

theorem sparkline_window_witness:
  "shown (fold (\<lambda>(q, t, v). spark_push t q v) [(''a'', 0, 1), (''a'', 5, 2), (''b'', 6, 3), (''a'', Second, 4), (''a'', 2 * Second, 5)]
     (newSparkStore 2)) ''a'' = [4, 5]"
  using sparkline_window [of 2 "[(''a'', 0, 1), (''a'', 5, 2), (''b'', 6, 3), (''a'', Second, 4), (''a'', 2 * Second, 5)]" "''a''"]
  by (simp add: samples_of_def last_n_def minPushInterval_def Second_def)

text \<open>
  C22: requests from other origins change nothing.  Every route that modifies tasks or queues requires a POST, and a request whose origin is another site
  is answered by 403, or by 405 when the method is wrong, before anything is read or written.
\<close>

theorem cross_origin_rejected:
  assumes "crossOrigin r" "isPost (route (rq_path r))" "serve R K C r srv w = (resp, srv', w')"
  shows "srv' = srv \<and> w' = w \<and> status resp = (if rq_method r = MethodPost then 403 else 405)"
  using assms
  by (auto simp: serve_def methodAllowed_def isPost_def runTask_def deleteTask_def task_action_def pauseQueue_def resumeQueue_def
      queueAction_def bulkRun_def bulkDelete_def bulk_def rejected_def httpError_def Let_def split: endpoint.splits)

theorem cross_origin_rejected_witness:
  "status (fst (serve mem_redis DefaultKeys sample_console
     (sample_request MethodPost [''queues'', ''q'', ''bulk'', ''delete''] '''' ''http://evil'') (Handler '''') (at_rest dead_worker))) = 403"
proof -
  let ?r = "sample_request MethodPost [''queues'', ''q'', ''bulk'', ''delete''] '''' ''http://evil''"
  have r: "crossOrigin ?r" "isPost (route (rq_path ?r))" "rq_method ?r = MethodPost"
    by (simp_all add: crossOrigin_def sample_request_def route_def isPost_def)
  obtain resp srv' w' where run: "serve mem_redis DefaultKeys sample_console ?r (Handler '''') (at_rest dead_worker) = (resp, srv', w')"
    by (metis prod.exhaust)
  from cross_origin_rejected [OF r(1,2) run] r(3) run show ?thesis by simp
qed

text \<open>
  C21: deleting all tasks of a state.  The bulk action terminates; on a queue whose archived (or retry) tasks all have a body it removes the first 10000 of them,
  with their bodies, in passes of 100, leaves the rest in place and reports how many were removed.
\<close>

theorem bulkDelete_drains:
  assumes "redis_laws R" "calm w" "wt K (db w)" "qname_ok q" "ZSetKeyForState K q state = Some z" "full_set K q z (db w)"
    "\<not> crossOrigin r" "rq_query r ''state'' = state" "state \<in> {''archived'', ''retry''}"
    "bulkDelete R K C q r srv w = (resp, srv', w')" "k = min (length (e_zset (db w z))) 10000"
  shows "e_zset (db w' z) = drop k (e_zset (db w z)) \<and>
    (\<forall>j. db w' (TaskKey K q j) = (if j \<in> snd ` set (take k (e_zset (db w z))) then None else db w (TaskKey K q j))) \<and>
    resp = httpRedirect (''/queues/'' @ q @ ''?state='' @ QueryEscape state @ ''&msg='' @ QueryEscape (dec_nat k @ '' task(s) deleted''))"
proof -
  have "failed noTally = {}" "handled noTally \<le> bulkLimit" "k = min (length (e_zset (db w z))) (bulkLimit - handled noTally)"
    using assms(11) by (simp_all add: noTally_def handled_def bulkLimit_def)
  from redis_laws.bulkLoop_deletes [OF assms(1-6) this]
  obtain w1 t where t: "bulkLoop R K q state (DeleteTask R K q) noTally w = (Inr t, w1)" "okCount t = k" "failCount t = 0"
    "e_zset (db w1 z) = drop k (e_zset (db w z))"
    "\<forall>j. db w1 (TaskKey K q j) = (if j \<in> snd ` set (take k (e_zset (db w z))) then None else db w (TaskKey K q j))"
    by (auto simp: noTally_def)
  have "bulkDelete R K C q r srv w = (httpRedirect (''/queues/'' @ q @ ''?state='' @ QueryEscape state @ ''&msg='' @
      QueryEscape (dec_nat k @ '' task(s) deleted'')), srv, w1)"
    using assms(7-9) t(1-3) by (auto simp: bulkDelete_def bulk_def)
  with t assms(10) show ?thesis by simp
qed

theorem bulkDelete_drains_witness:
  "e_zset (db (snd (snd (bulkDelete mem_redis DefaultKeys sample_console ''q'' (sample_request MethodPost [] ''retry'' '''') (Handler '''')
     (at_rest parked_task)))) (RetryKey DefaultKeys ''q'')) = []"
proof -
  let ?r = "sample_request MethodPost [] ''retry'' ''''" and ?d = parked_task and ?z = "RetryKey DefaultKeys ''q''"
  obtain resp srv' w' where run: "bulkDelete mem_redis DefaultKeys sample_console ''q'' ?r (Handler '''') (at_rest ?d) = (resp, srv', w')"
    by (metis prod.exhaust)
  have i: "intact DefaultKeys ?d" unfolding parked_task_def by (intro intact_retry dead_worker_intact) simp
  have z: "e_zset (?d ?z) = [(7, ''a'')]" "body DefaultKeys ''q'' ''a'' ?d \<noteq> None"
    using dead_worker_simps(3)
    by (simp_all add: parked_task_def body_def key_render zput_def dead_worker_def store_def z_add_def z_rem_def)
  have f: "full_set DefaultKeys ''q'' ?z ?d"
    using z intact_claimable [OF i] by (simp add: full_set_def zmem_def z_members_def)
  have r: "\<not> crossOrigin ?r" "rq_query ?r ''state'' = ''retry''" "''retry'' \<in> {''archived'', ''retry''}"
    by (simp_all add: crossOrigin_def sample_request_def)
  have "ZSetKeyForState DefaultKeys ''q'' ''retry'' = Some ?z" by (simp add: ZSetKeyForState_def)
  from bulkDelete_drains [OF mem.redis_laws_axioms _ _ _ this _ r run refl] i f z run show ?thesis
    by (simp add: intactD(1))
qed



end
