(* ===== verification/Cli.thy ===== *)
theory Cli
  imports Inspection Text
begin

section \<open>Command line tool (cmd/chronos)\<close>

text \<open>
  The commands of the tool on top of the inspector, with their exit codes.  The output is the list of what
  is printed: lines, and tables as the rows of cells that are written to the \<^verbatim>\<open>tabwriter\<close>.  The environment variables, the values of the flags
  and the texts of errors are arguments.
\<close>

definition splitAddrs :: "string \<Rightarrow> string list" where
  "splitAddrs s = filter (\<lambda>p. p \<noteq> '''') (map TrimSpace (Split s CHR '',''))"

datatype universalClient = ClusterClient "string list" | SingleClient string int

definition buildClient :: "bool \<Rightarrow> bool \<Rightarrow> string \<Rightarrow> int \<Rightarrow> string + universalClient" where
  "buildClient standalone cluster addr db' =
     (if standalone \<and> cluster then Inl ''--standalone and --cluster are mutually exclusive''
      else if cluster then
        (if db' \<noteq> 0 then Inl ''--db is not supported with --cluster: Redis Cluster has only database 0''
         else let addrs = splitAddrs addr
              in if addrs = [] then Inl ''--cluster requires at least one seed address in --redis''
                 else Inr (ClusterClient addrs))
      else Inr (SingleClient addr db'))"

definition envOr :: "(string \<Rightarrow> string) \<Rightarrow> string \<Rightarrow> string \<Rightarrow> string" where
  "envOr env key def' = (if env key \<noteq> '''' then env key else def')"

datatype printed = Line string | Table "string list list"

type_synonym cli = "world \<Rightarrow> (printed list \<times> nat) \<times> world"

definition cliError :: "(err \<Rightarrow> string) \<Rightarrow> err \<Rightarrow> printed" where
  "cliError say e = Line (''error: '' @ say e)"

definition queueRow :: "QueueInfo \<Rightarrow> string list" where
  "queueRow q =
     [QI_Queue q, dec_int (QI_Pending q), dec_int (QI_Active q), dec_int (QI_Scheduled q), dec_int (QI_Retry q),
      dec_int (QI_Archived q), dec_int (QI_Completed q), if QI_Paused q then ''yes'' else ''-'']"

definition queueLs :: "redis \<Rightarrow> Keys \<Rightarrow> (err \<Rightarrow> string) \<Rightarrow> cli" where
  "queueLs R K say w =
     (case inspectorQueues R K w of
        (Inl e, w1) \<Rightarrow> (([cliError say e], 1), w1)
      | (Inr queues, w1) \<Rightarrow>
          (([Table ([''QUEUE'', ''PENDING'', ''ACTIVE'', ''SCHEDULED'', ''RETRY'', ''ARCHIVED'', ''COMPLETED'', ''PAUSED''] #
             map queueRow queues)], 0), w1))"

definition taskLs :: "redis \<Rightarrow> Keys \<Rightarrow> (err \<Rightarrow> string) \<Rightarrow> string \<Rightarrow> string \<Rightarrow> cli" where
  "taskLs R K say queue state w =
     (case ListTasks R K queue state 100 w of
        (Inl e, w1) \<Rightarrow> (([cliError say e], 1), w1)
      | (Inr tasks, w1) \<Rightarrow>
          (([Table ([''ID'', ''KIND'', ''QUEUE''] # map (\<lambda>t. [TI_ID t, TI_Kind t, TI_Queue t]) tasks)], 0), w1))"

definition taskAction :: "(err \<Rightarrow> string) \<Rightarrow> string \<Rightarrow> unit go \<Rightarrow> cli" where
  "taskAction say verb fn w =
     (case fn w of
        (Inl e, w1) \<Rightarrow> (([cliError say e], 1), w1)
      | (Inr _, w1) \<Rightarrow> (([Line (verb @ '': ok'')], 0), w1))"

definition unknownCommand :: "string list \<Rightarrow> printed list \<times> nat" where
  "unknownCommand args = ([Line (''unknown or malformed command: ['' @ join '' '' args @ '']'')], 2)"

definition run_queue :: "redis \<Rightarrow> Keys \<Rightarrow> (err \<Rightarrow> string) \<Rightarrow> string list \<Rightarrow> cli" where
  "run_queue R K say args w =
     (if length args < 2 then (unknownCommand args, w)
      else if args ! 1 = ''ls'' then queueLs R K say w
      else if args ! 1 = ''pause'' \<or> args ! 1 = ''resume'' then
        (if length args < 3 then (([Line (''usage: chronos queue '' @ args ! 1 @ '' <queue>'')], 2), w)
         else case (if args ! 1 = ''pause'' then PauseQueue R K (args ! 2) else ResumeQueue R K (args ! 2)) w of
                (Inl e, w1) \<Rightarrow> (([cliError say e], 1), w1)
              | (Inr _, w1) \<Rightarrow> (([Line (args ! 1 @ ''d '' @ args ! 2)], 0), w1))
      else (unknownCommand args, w))"

definition run_task :: "redis \<Rightarrow> Keys \<Rightarrow> (err \<Rightarrow> string) \<Rightarrow> string list \<Rightarrow> cli" where
  "run_task R K say args w =
     (if length args \<noteq> 4 then (unknownCommand args, w)
      else if args ! 1 = ''ls'' then taskLs R K say (args ! 2) (args ! 3) w
      else if args ! 1 = ''run'' then taskAction say ''run'' (RunTask R K (args ! 2) (args ! 3)) w
      else if args ! 1 = ''rm'' then taskAction say ''rm'' (DeleteTask R K (args ! 2) (args ! 3)) w
      else (unknownCommand args, w))"

definition run_cli :: "redis \<Rightarrow> Keys \<Rightarrow> (err \<Rightarrow> string) \<Rightarrow> string list \<Rightarrow> cli" where
  "run_cli R K say args w =
     (if args = [] then (([Line ''usage: chronos <queue|task> ...''], 2), w)
      else if hd args = ''queue'' then run_queue R K say args w
      else if hd args = ''task'' then run_task R K say args w
      else (unknownCommand args, w))"

text \<open>
  The whole program: the client is built before anything is read or written.  The second component is what
  goes to the error stream.
\<close>

definition cli_main :: "(universalClient \<Rightarrow> redis) \<Rightarrow> (err \<Rightarrow> string) \<Rightarrow> (string \<Rightarrow> string) \<Rightarrow> bool \<Rightarrow> bool \<Rightarrow>
   string option \<Rightarrow> int \<Rightarrow> string list \<Rightarrow> world \<Rightarrow> (printed list \<times> string list \<times> nat) \<times> world" where
  "cli_main connect say env standalone cluster addrFlag db' args w =
     (let addr = (case addrFlag of None \<Rightarrow> envOr env ''REDIS_ADDR'' ''127.0.0.1:6379'' | Some a \<Rightarrow> a)
      in case buildClient standalone cluster addr db' of
           Inl e \<Rightarrow> (([], [''chronos: '' @ e], 2), w)
         | Inr c \<Rightarrow> (case run_cli (connect c) DefaultKeys say args w of ((out, code), w1) \<Rightarrow> ((out, [], code), w1)))"

subsection \<open>Starting the console (contrib/webui/cmd/webui)\<close>

text \<open>
  The other command has its own copies of the two functions that choose the client.  Whether Redis answers and whether the address can be
  listened on are arguments; once started the process serves until it is interrupted.
\<close>

definition webSplitAddrs :: "string \<Rightarrow> string list" where
  "webSplitAddrs s = filter (\<lambda>p. p \<noteq> '''') (map TrimSpace (Split s CHR '',''))"

definition webBuildClient :: "bool \<Rightarrow> bool \<Rightarrow> string \<Rightarrow> int \<Rightarrow> string + universalClient" where
  "webBuildClient standalone cluster addr db' =
     (if standalone \<and> cluster then Inl ''--standalone and --cluster are mutually exclusive''
      else if cluster then
        (if db' \<noteq> 0 then Inl ''--db is not supported with --cluster: Redis Cluster has only database 0''
         else let addrs = webSplitAddrs addr
              in if addrs = [] then Inl ''--cluster requires at least one seed address in --redis''
                 else Inr (ClusterClient addrs))
      else Inr (SingleClient addr db'))"

definition webConnInfo :: "bool \<Rightarrow> string \<Rightarrow> int \<Rightarrow> string" where
  "webConnInfo cluster redisAddr db' =
     (if cluster then ''cluster ('' @ dec_nat (length (webSplitAddrs redisAddr)) @ '' seed)''
      else ''standalone '' @ redisAddr @ '' db'' @ dec_int db')"

definition openBrowser :: "string \<Rightarrow> string \<Rightarrow> string list" where
  "openBrowser goos url =
     (if goos = ''darwin'' then [''open'', url]
      else if goos = ''windows'' then [''rundll32'', ''url.dll,FileProtocolHandler'', url]
      else [''xdg-open'', url])"

datatype webStart = Fatal string | Serving string "string list option"

definition web_main :: "(universalClient \<Rightarrow> string option) \<Rightarrow> (string \<Rightarrow> string option) \<Rightarrow> string \<Rightarrow> string \<Rightarrow> bool \<Rightarrow> bool \<Rightarrow>
   string \<Rightarrow> int \<Rightarrow> bool \<Rightarrow> webStart" where
  "web_main ping listen goos addr standalone cluster redisAddr db' noOpen =
     (case webBuildClient standalone cluster redisAddr db' of
        Inl e \<Rightarrow> Fatal (''webui: '' @ e)
      | Inr c \<Rightarrow>
          (case ping c of
             Some e \<Rightarrow> Fatal (''cannot reach Redis at '' @ redisAddr @ '': '' @ e)
           | None \<Rightarrow>
               (case listen addr of
                  Some e \<Rightarrow> Fatal (''cannot listen on '' @ addr @ '': '' @ e)
                | None \<Rightarrow> Serving (webConnInfo cluster redisAddr db')
                            (if noOpen then None else Some (openBrowser goos (''http://'' @ addr))))))"

text \<open>The two commands choose the same client for the same flags, as the comment of the copy says.\<close>

lemma webBuildClient_mirrors: "webBuildClient = buildClient"
  by (intro ext) (simp only: webBuildClient_def buildClient_def webSplitAddrs_def splitAddrs_def)

subsection \<open>The documented commands\<close>

text \<open>The grammar of the usage text, as a reference for the dispatch of the code.\<close>

datatype command =
    ListQueues | PauseCmd string | ResumeCmd string | ListCmd string string | RunCmd string string | RemoveCmd string string

fun parse_command :: "string list \<Rightarrow> command option" where
  "parse_command [a, b] = (if a = ''queue'' \<and> b = ''ls'' then Some ListQueues else None)"
| "parse_command [a, b, q] =
     (if a \<noteq> ''queue'' then None
      else if b = ''pause'' then Some (PauseCmd q) else if b = ''resume'' then Some (ResumeCmd q) else None)"
| "parse_command [a, b, q, x] =
     (if a \<noteq> ''task'' then None
      else if b = ''ls'' then Some (ListCmd q x)
      else if b = ''run'' then Some (RunCmd q x) else if b = ''rm'' then Some (RemoveCmd q x) else None)"
| "parse_command _ = None"

definition effect_of :: "redis \<Rightarrow> Keys \<Rightarrow> command \<Rightarrow> unit go" where
  "effect_of R K c =
     (case c of
        ListQueues \<Rightarrow> andthen (inspectorQueues R K) (\<lambda>_. return ())
      | PauseCmd q \<Rightarrow> PauseQueue R K q
      | ResumeCmd q \<Rightarrow> ResumeQueue R K q
      | ListCmd q s \<Rightarrow> andthen (ListTasks R K q s 100) (\<lambda>_. return ())
      | RunCmd q i \<Rightarrow> RunTask R K q i
      | RemoveCmd q i \<Rightarrow> DeleteTask R K q i)"

text \<open>What the dispatch accepts: words after a complete command for a queue are ignored.\<close>

fun accepts :: "string list \<Rightarrow> command option" where
  "accepts (a # b # cs) =
     (if a = ''queue'' then
        (if b = ''ls'' then Some ListQueues
         else case cs of [] \<Rightarrow> None
              | q # _ \<Rightarrow> if b = ''pause'' then Some (PauseCmd q) else if b = ''resume'' then Some (ResumeCmd q) else None)
      else if a = ''task'' then
        (case cs of [q, x] \<Rightarrow> if b = ''ls'' then Some (ListCmd q x)
             else if b = ''run'' then Some (RunCmd q x) else if b = ''rm'' then Some (RemoveCmd q x) else None
         | _ \<Rightarrow> None)
      else None)"
| "accepts _ = None"

lemma parse_accepts: "parse_command args = Some c \<Longrightarrow> accepts args = Some c"
  by (cases args rule: parse_command.cases) (auto split: if_splits)

lemma accepts_parse: "accepts args = Some c \<Longrightarrow> \<exists>n. parse_command (take n args) = Some c"
proof (cases args rule: accepts.cases)
  case (1 a b cs)
  moreover assume "accepts args = Some c"
  ultimately have "parse_command (take 2 args) = Some c \<or> parse_command (take 3 args) = Some c \<or> parse_command (take 4 args) = Some c"
    by (auto simp: numeral_eq_Suc split: if_splits list.splits)
  then show ?thesis by blast
qed simp_all

text \<open>An operation reports through its exit code.\<close>

definition exits :: "'a go \<Rightarrow> cli \<Rightarrow> bool" where
  "exits f g \<longleftrightarrow> (\<forall>w. snd (g w) = snd (f w) \<and> snd (fst (g w)) = (if isl (fst (f w)) then 1 else 0))"

lemma exits_of [simp]:
  "exits (andthen (inspectorQueues R K) (\<lambda>_. return ())) (queueLs R K say)"
  "exits (andthen (ListTasks R K q s 100) (\<lambda>_. return ())) (taskLs R K say q s)"
  "exits f (taskAction say verb f)"
  by (auto simp: exits_def queueLs_def taskLs_def taskAction_def andthen_def return_def split: sum.split prod.split)

lemma run_cli_accepts:
  "case accepts args of
     None \<Rightarrow> snd (fst (run_cli R K say args w)) = 2 \<and> snd (run_cli R K say args w) = w
   | Some c \<Rightarrow> snd (fst (run_cli R K say args w)) = (if isl (fst (effect_of R K c w)) then 1 else 0) \<and>
       snd (run_cli R K say args w) = snd (effect_of R K c w)"
proof (cases args rule: accepts.cases)
  case (1 a b cs)
  show ?thesis
  proof (cases "a = ''queue''")
    case True
    then show ?thesis using 1 exits_of(1) [of R K say]
      by (auto simp: run_cli_def run_queue_def unknownCommand_def effect_of_def exits_def nth_Cons'
          split: list.split sum.split prod.split)
  next
    case False
    show ?thesis
    proof (cases "a = ''task'' \<and> (\<exists>q x. cs = [q, x])")
      case True
      then obtain q x where "cs = [q, x]" by blast
      then show ?thesis using 1 True exits_of(2) [of R K q x say] exits_of(3) [of _ say]
        by (auto simp: run_cli_def run_task_def unknownCommand_def effect_of_def exits_def)
    next
      case False
      then have "length cs \<noteq> 2 \<or> a \<noteq> ''task''" by (auto simp: length_Suc_conv numeral_2_eq_2)
      then show ?thesis using 1 \<open>a \<noteq> ''queue''\<close> False
        by (auto simp: run_cli_def run_task_def unknownCommand_def split: list.split)
    qed
  qed
qed (auto simp: run_cli_def run_queue_def run_task_def unknownCommand_def)

subsection \<open>Properties\<close>

text \<open>
  C25: the tool does what its usage says.  A documented command performs exactly its operation and exits with 0 when it succeeds and with 1
  when it fails.  Whenever the exit code is 2 nothing was read or written, and the code is 2 for every command line that does not begin with a
  documented command.
\<close>

theorem run_cli_dispatch:
  assumes "run_cli R K say args w = ((out, code), w')"
  shows "(\<forall>c. parse_command args = Some c \<longrightarrow>
      w' = snd (effect_of R K c w) \<and> code = (if isl (fst (effect_of R K c w)) then 1 else 0)) \<and>
    (code = 2 \<longrightarrow> w' = w) \<and> code \<in> {0, 1, 2} \<and>
    ((\<forall>n. parse_command (take n args) = None) \<longrightarrow> code = 2)"
proof (cases "accepts args")
  case None
  then have "parse_command args = None" using parse_accepts [of args] by (cases "parse_command args") auto
  with None show ?thesis using run_cli_accepts [where args = args and R = R and K = K and say = say and w = w] assms by auto
next
  case (Some c)
  then show ?thesis using run_cli_accepts [where args = args and R = R and K = K and say = say and w = w] parse_accepts [of args] accepts_parse [of args c] assms
    by (auto split: if_splits)
qed

theorem run_cli_dispatch_witness:
  "snd (fst (run_cli mem_redis DefaultKeys (\<lambda>_. '''') [''queue'', ''pause''] (at_rest Map.empty))) = 2"
proof -
  obtain out code w' where run: "run_cli mem_redis DefaultKeys (\<lambda>_. '''') [''queue'', ''pause''] (at_rest Map.empty) = ((out, code), w')"
    by (metis prod.exhaust)
  have "parse_command (take n [''queue'', ''pause'']) = None" for n
    by (cases n; cases "n - 1") (auto simp: take_Cons')
  with run_cli_dispatch [OF run] run show ?thesis by simp
qed

end
