(* ===== verification/Adapter.thy ===== *)
theory Adapter
  imports Delivery Scheduler Server
begin

section \<open>The JobScheduler adapter (examples/jobscheduler)\<close>

text \<open>
  The example that puts a scheduler interface of string names and raw payloads on top of the library: one task type carries
  the name and the payload, one handler routes it by name.  What \<^verbatim>\<open>encoding/json\<close> makes of that type and back is an argument, as for every user type;
  the user's functions ignore their context.
\<close>

unbundle bit_operations_syntax

record EnqueueConfig =
  QueueKey :: string
  UniqueTTL :: duration

definition WithQueueKey :: "string \<Rightarrow> EnqueueConfig \<Rightarrow> EnqueueConfig" where
  "WithQueueKey key c = c\<lparr>QueueKey := key\<rparr>"

definition WithUniqueTTL :: "duration \<Rightarrow> EnqueueConfig \<Rightarrow> EnqueueConfig" where
  "WithUniqueTTL ttl c = c\<lparr>UniqueTTL := ttl\<rparr>"

record rawTask =
  raw_Name :: string
  raw_Data :: bytes

definition raw_Kind :: string where
  "raw_Kind = ''chronos:compat:raw''"

record rawCodec =
  marshalRaw :: "rawTask \<Rightarrow> bytes"
  unmarshalRaw :: "bytes \<Rightarrow> gerr + rawTask"

record adapter =
  a_serverConfig :: ServerConfig
  a_scheduler :: Scheduler
  a_mux :: Mux
  a_queues :: "string list"
  schedulerJob :: "string \<Rightarrow> unit outcome option"
  taskHandler :: "string \<Rightarrow> (bytes \<Rightarrow> unit outcome) option"

definition zeroServerConfig :: ServerConfig where
  "zeroServerConfig = \<lparr>c_Queues = [], StrictPriority = False, Concurrency = 0, RetryDelayFunc = None, hasOnDeadLetter = False,
     c_Metrics = NoMetrics, ForwardInterval = 0, RecoverInterval = 0, RecoverMinIdle = 0, HeartbeatInterval = 0,
     ArchivedRetention = 0, MaxArchived = 0, MaxCompleted = 0, JanitorInterval = 0\<rparr>"

text \<open>A map literal that is filled in a loop keeps one entry for a repeated name.\<close>

definition NewAdapter :: "string \<Rightarrow> string list \<Rightarrow> adapter" where
  "NewAdapter uuid names0 =
     (let qs = (if names0 = [] then [DefaultQueue] else names0)
      in \<lparr>a_serverConfig = zeroServerConfig\<lparr>c_Queues := map (\<lambda>q. (q, 1)) (remdups qs), Concurrency := 8\<rparr>,
          a_scheduler = newScheduler \<lparr>c_Location = Some Local, LeaderTTL = 0\<rparr> uuid,
          a_mux = NewMux, a_queues = qs, schedulerJob = Map.empty, taskHandler = Map.empty\<rparr>)"

text \<open>FNV-1a with 32 bits.\<close>

definition fnv32a :: "string \<Rightarrow> 32 word" where
  "fnv32a s = fold (\<lambda>c h. (h XOR word_of_nat (of_char c)) * 16777619) s 2166136261"

definition queueFor :: "adapter \<Rightarrow> string \<Rightarrow> string" where
  "queueFor a key = a_queues a ! unat (fnv32a key mod word_of_nat (length (a_queues a)))"

datatype adapterErr = DuplicateName string | ShortInterval | Chronos err

definition checkDup :: "adapter \<Rightarrow> string \<Rightarrow> adapterErr option" where
  "checkDup a taskName =
     (if schedulerJob a taskName \<noteq> None then Some (DuplicateName taskName)
      else if taskHandler a taskName \<noteq> None then Some (DuplicateName taskName) else None)"

definition rawArgs :: "rawCodec \<Rightarrow> string \<Rightarrow> bytes \<Rightarrow> TaskArgs" where
  "rawArgs J name payload = \<lparr>A_Kind = raw_Kind, A_JSON = Some (marshalRaw J \<lparr>raw_Name = name, raw_Data = payload\<rparr>)\<rparr>"

definition RegisterScheduledJob ::
  "rawCodec \<Rightarrow> cron \<Rightarrow> time \<Rightarrow> string \<Rightarrow> duration \<Rightarrow> unit outcome \<Rightarrow> adapter \<Rightarrow> (adapterErr + string) \<times> adapter" where
  "RegisterScheduledJob J C now taskName interval fn a =
     (if interval < Second then (Inl ShortInterval, a)
      else case checkDup a taskName of
        Some e \<Rightarrow> (Inl e, a)
      | None \<Rightarrow>
          (let a1 = a\<lparr>schedulerJob := (schedulerJob a)(taskName \<mapsto> fn)\<rparr>
           in case RegisterInterval C now interval (rawArgs J taskName [])
                     [WithQueue (queueFor a1 taskName), WithMaxRetry 0] (a_scheduler a1) of
                Inl e \<Rightarrow> (Inl (Chronos e), a1)
              | Inr s \<Rightarrow> (Inr taskName, a1\<lparr>a_scheduler := s\<rparr>)))"

definition RegisterCronJob ::
  "rawCodec \<Rightarrow> cron \<Rightarrow> time \<Rightarrow> string \<Rightarrow> string \<Rightarrow> unit outcome \<Rightarrow> adapter \<Rightarrow> (adapterErr + string) \<times> adapter" where
  "RegisterCronJob J C now taskName cronSpec fn a =
     (case checkDup a taskName of
        Some e \<Rightarrow> (Inl e, a)
      | None \<Rightarrow>
          (case RegisterCron C now cronSpec (rawArgs J taskName [])
                  [WithQueue (queueFor a taskName), WithMaxRetry 0] (a_scheduler a) of
             Inl e \<Rightarrow> (Inl (Chronos e), a)
           | Inr s \<Rightarrow> (Inr taskName, a\<lparr>a_scheduler := s, schedulerJob := (schedulerJob a)(taskName \<mapsto> fn)\<rparr>)))"

definition RegisterTaskHandler :: "string \<Rightarrow> (bytes \<Rightarrow> unit outcome) \<Rightarrow> adapter \<Rightarrow> (adapterErr + unit) \<times> adapter" where
  "RegisterTaskHandler taskName fn a =
     (case checkDup a taskName of
        Some e \<Rightarrow> (Inl e, a)
      | None \<Rightarrow> (Inr (), a\<lparr>taskHandler := (taskHandler a)(taskName \<mapsto> fn)\<rparr>))"

definition adapterEnqueue ::
  "redis \<Rightarrow> Keys \<Rightarrow> rawCodec \<Rightarrow> time \<Rightarrow> string \<Rightarrow> adapter \<Rightarrow> string \<Rightarrow> bytes \<Rightarrow> (EnqueueConfig \<Rightarrow> EnqueueConfig) list \<Rightarrow> unit go" where
  "adapterEnqueue R K J now uuid a taskName payload opts w =
     (let cfg = fold (\<lambda>opt c. opt c) opts \<lparr>QueueKey = [], UniqueTTL = 0\<rparr>;
          key = (if QueueKey cfg = [] then taskName else QueueKey cfg);
          chOpts = [WithQueue (queueFor a key), WithMaxRetry 0] @ (if 0 < UniqueTTL cfg then [WithUnique (UniqueTTL cfg)] else [])
      in case clientEnqueue R K now uuid (rawArgs J taskName payload) chOpts w of
           (Inl e, w') \<Rightarrow> if e = ErrDuplicateTask then (Inr (), w') else (Inl e, w')
         | (Inr _, w') \<Rightarrow> (Inr (), w'))"

definition bridge :: "(nat \<Rightarrow> bool) \<Rightarrow> adapter \<Rightarrow> rawTask Task \<Rightarrow> unit outcome" where
  "bridge isPrint a t =
     (case schedulerJob a (raw_Name (Args t)) of
        Some sjob \<Rightarrow> sjob
      | None \<Rightarrow>
          (case taskHandler a (raw_Name (Args t)) of
             Some thandler \<Rightarrow> thandler (raw_Data (Args t))
           | None \<Rightarrow> Fails (Err (''jobscheduler: no handler for task '' @ Quote isPrint (raw_Name (Args t))) [])))"

text \<open>The mux with which \<^verbatim>\<open>Start\<close> starts the server; a second \<^verbatim>\<open>Start\<close> panics.\<close>

definition startMux :: "(nat \<Rightarrow> bool) \<Rightarrow> rawCodec \<Rightarrow> adapter \<Rightarrow> string + Mux" where
  "startMux isPrint J a = AddHandler isPrint (a_mux a) raw_Kind (unmarshalRaw J) (bridge isPrint a)"

subsection \<open>Lemmas\<close>

text \<open>Every key is hashed to one of the configured queues.\<close>

lemma queueFor_configured:
  assumes "a_queues a \<noteq> []" "length (a_queues a) < 2 ^ 32"
  shows "queueFor a key \<in> set (a_queues a)"
proof -
  let ?n = "word_of_nat (length (a_queues a)) :: 32 word"
  have n: "unat ?n = length (a_queues a)" using assms(2) by (simp add: unat_of_nat take_bit_eq_mod)
  then have "?n \<noteq> 0" using assms(1) by (metis length_0_conv unat_0)
  then have "unat (fnv32a key mod ?n) < unat ?n" by (metis unat_mod_distrib unat_gt_0 mod_less_divisor)
  with n show ?thesis by (simp add: queueFor_def)
qed

text \<open>A name belongs to a job or to a task handler, never to both.\<close>

definition names_apart :: "adapter \<Rightarrow> bool" where
  "names_apart a \<longleftrightarrow> (\<forall>n. schedulerJob a n = None \<or> taskHandler a n = None)"

lemma names_apart_kept:
  "names_apart (NewAdapter u qs)"
  "names_apart a \<Longrightarrow> names_apart (snd (RegisterScheduledJob J C now n d fn a))"
  "names_apart a \<Longrightarrow> names_apart (snd (RegisterCronJob J C now n spec fn a))"
  "names_apart a \<Longrightarrow> names_apart (snd (RegisterTaskHandler n h a))"
  by (auto simp: names_apart_def NewAdapter_def Let_def RegisterScheduledJob_def RegisterCronJob_def RegisterTaskHandler_def
      checkDup_def split: option.split sum.split)

text \<open>An enqueued task reaches exactly the function that was registered for its name, with its payload.\<close>

lemma bridge_routes:
  assumes "names_apart a" "a_mux a = NewMux" "taskHandler a name = Some h" "startMux isPrint J a = Inr mux"
    "unmarshalRaw J (marshalRaw J \<lparr>raw_Name = name, raw_Data = payload\<rparr>) = Inr \<lparr>raw_Name = name, raw_Data = payload\<rparr>"
    "Kind m = raw_Kind" "Payload m = marshalRaw J \<lparr>raw_Name = name, raw_Data = payload\<rparr>"
  shows "dispatch isPrint mux m = (case h payload of Returns _ \<Rightarrow> Returns m | Fails e \<Rightarrow> Fails e | Panics p \<Rightarrow> Panics p)"
proof -
  have "schedulerJob a name = None" using assms(1,3) by (auto simp: names_apart_def)
  with assms show ?thesis
    by (auto simp: startMux_def AddHandler_def NewMux_def dispatch_def handle_def newTask_def bridge_def)
qed

end
