(* ===== verification/Admission.thy ===== *)
theory Admission
  imports Delivery Workflow
begin

section \<open>Which workflows are accepted (chain.go, group.go)\<close>

text \<open>
  A declarative description of the chains and groups that \<^verbatim>\<open>Enqueue\<close> accepts, independent of the order in which the code
  checks and freezes their parts, and the proof that the code accepts exactly these and touches nothing otherwise.
\<close>

definition encodable :: "TaskArgs \<Rightarrow> bool" where
  "encodable a \<longleftrightarrow> \<not> isl (encodeArgs a)"

text \<open>No identifier and no unique lock of its own: the identifiers of a workflow are derived.\<close>

definition plain :: "time \<Rightarrow> Option list \<Rightarrow> bool" where
  "plain now opts \<longleftrightarrow> o_taskID (apply_options now opts) = [] \<and> o_uniqueTTL (apply_options now opts) \<le> 0"

text \<open>A later link has a relative delay and is archived when it fails, unless it is the last one.\<close>

definition link_admissible :: "time \<Rightarrow> TaskArgs \<Rightarrow> Option list \<Rightarrow> bool \<Rightarrow> bool" where
  "link_admissible now a opts isLast \<longleftrightarrow> plain now opts \<and> \<not> o_processAtAbsolute (apply_options now opts) \<and>
     (o_noArchive (apply_options now opts) \<longrightarrow> isLast) \<and> encodable a"

fun stage_member_admissible :: "time \<Rightarrow> groupMember \<Rightarrow> bool" where
  "stage_member_admissible now (ChainMember ch) = False"
| "stage_member_admissible now (TaskMember a opts) = (link_admissible now a opts False \<and>
     captureRelativeDelay now (apply_options now opts) \<le> GroupTTL_secs)"

fun stage_admissible :: "time \<Rightarrow> bool \<Rightarrow> chainStage \<Rightarrow> bool" where
  "stage_admissible now isLast (TaskStage a opts) = link_admissible now a opts isLast"
| "stage_admissible now isLast (GroupStage None) = False"
| "stage_admissible now isLast (GroupStage (Some g)) =
     (members g \<noteq> [] \<and> (case callback g of None \<Rightarrow> False | Some (cb, opts) \<Rightarrow> link_admissible now cb opts isLast) \<and>
      list_all (stage_member_admissible now) (members g))"

definition tail_admissible :: "time \<Rightarrow> Chain \<Rightarrow> bool" where
  "tail_admissible now ch \<longleftrightarrow>
     (\<forall>j < length (tl (stages ch)). stage_admissible now (j + 2 = length (stages ch)) (tl (stages ch) ! j))"

definition chain_admissible :: "time \<Rightarrow> Chain \<Rightarrow> bool" where
  "chain_admissible now ch \<longleftrightarrow> (\<exists>a opts rest. stages ch = TaskStage a opts # rest \<and> plain now opts \<and>
     (o_noArchive (apply_options now opts) \<longrightarrow> rest = []) \<and> encodable a) \<and> tail_admissible now ch"

text \<open>A chain as a member of a group has no group stage and discards nothing.\<close>

fun stage_keeps :: "time \<Rightarrow> chainStage \<Rightarrow> bool" where
  "stage_keeps now (TaskStage a opts) = (\<not> o_noArchive (apply_options now opts))"
| "stage_keeps now (GroupStage g) = False"

text \<open>The delays of all its links together, in 64-bit arithmetic.\<close>

fun stage_delay :: "time \<Rightarrow> chainStage \<Rightarrow> int" where
  "stage_delay now (TaskStage a opts) = captureRelativeDelay now (apply_options now opts)"
| "stage_delay now (GroupStage g) = 0"

fun first_delay :: "time \<Rightarrow> chainStage \<Rightarrow> duration" where
  "first_delay now (TaskStage a opts) = (case o_processAt (apply_options now opts) of None \<Rightarrow> 0 | Some t \<Rightarrow> Until now t)"
| "first_delay now (GroupStage g) = 0"

definition chain_delay :: "time \<Rightarrow> Chain \<Rightarrow> duration" where
  "chain_delay now ch = fold (\<lambda>d acc. if 0 < d then int64 (acc + int64 (d * Second)) else acc)
     (map (stage_delay now) (tl (stages ch))) (first_delay now (hd (stages ch)))"

fun member_admissible :: "time \<Rightarrow> groupMember \<Rightarrow> bool" where
  "member_admissible now (TaskMember a opts) =
     (plain now opts \<and> \<not> o_noArchive (apply_options now opts) \<and> encodable a \<and>
      (case o_processAt (apply_options now opts) of None \<Rightarrow> True | Some t \<Rightarrow> Until now t \<le> GroupTTL))"
| "member_admissible now (ChainMember None) = False"
| "member_admissible now (ChainMember (Some ch)) =
     (chain_admissible now ch \<and> list_all (stage_keeps now) (stages ch) \<and> chain_delay now ch \<le> GroupTTL)"

definition group_admissible :: "time \<Rightarrow> Group \<Rightarrow> bool" where
  "group_admissible now g \<longleftrightarrow> members g \<noteq> [] \<and>
     (case callback g of None \<Rightarrow> False | Some (cb, opts) \<Rightarrow> link_admissible now cb opts True) \<and>
     list_all (member_admissible now) (members g)"

subsection \<open>Lemmas\<close>

lemma isl_ebind: "isl (ebind x f) \<longleftrightarrow> isl x \<or> isl (f (projr x))"
  by (cases x) auto

lemma isl_located [simp]: "isl (located what i x) = isl x"
  by (cases x) (simp_all add: located_def)

lemma isl_mapE: "isl (mapE f i xs) \<longleftrightarrow> (\<exists>j < length xs. isl (f (i + j) (xs ! j)))"
proof (induction xs arbitrary: i)
  case (Cons x xs)
  have "isl (mapE f i (x # xs)) \<longleftrightarrow> isl (f i x) \<or> isl (mapE f (Suc i) xs)"
    by (cases "f i x"; cases "mapE f (Suc i) xs") auto
  also have "\<dots> \<longleftrightarrow> (\<exists>j < length (x # xs). isl (f (i + j) ((x # xs) ! j)))"
    unfolding Cons.IH by (auto simp: less_Suc_eq_0_disj)
  finally show ?case .
qed simp

lemma isl_resolve: "isl (resolveChainOptions now opts) \<longleftrightarrow> \<not> plain now opts"
  "\<not> isl (resolveChainOptions now opts) \<Longrightarrow> resolveChainOptions now opts = Inr (apply_options now opts)"
  by (auto simp: resolveChainOptions_def plain_def Let_def split: if_splits)

lemma isl_link: "isl (snapshotChainLink now a opts isLast) \<longleftrightarrow> \<not> link_admissible now a opts isLast"
proof (cases "plain now opts")
  case True
  then have "resolveChainOptions now opts = Inr (apply_options now opts)" using isl_resolve by simp
  then show ?thesis
    using True by (auto simp: snapshotChainLink_def link_admissible_def encodable_def isl_ebind)
next
  case False
  then show ?thesis using isl_resolve by (simp add: snapshotChainLink_def link_admissible_def isl_ebind)
qed

lemma isl_stage_member: "isl (snapshotGroupMember now j m) \<longleftrightarrow> \<not> stage_member_admissible now m"
proof (cases m)
  case (TaskMember a opts)
  show ?thesis
  proof (cases "plain now opts")
    case True
    then have "resolveChainOptions now opts = Inr (apply_options now opts)" using isl_resolve by simp
    then show ?thesis
      using True TaskMember
      by (cases "encodeArgs a") (auto simp: snapshotGroupMember_def link_admissible_def encodable_def isl_ebind Let_def)
  next
    case False
    then show ?thesis
      using isl_resolve TaskMember by (simp add: snapshotGroupMember_def link_admissible_def isl_ebind)
  qed
qed (simp add: snapshotGroupMember_def)

lemma isl_stage: "isl (snapshotStage now n i st) \<longleftrightarrow> \<not> stage_admissible now (i = n - 1) st"
proof (cases "(now, i = n - 1, st)" rule: stage_admissible.cases)
  case (3 now' isLast g)
  then show ?thesis
    by (auto simp: snapshotStage_def snapshotGroupStage_def isl_ebind isl_link isl_mapE isl_stage_member list_all_length Let_def
        split: option.splits)
qed (auto simp: snapshotStage_def snapshotGroupStage_def isl_link)

lemma isl_tail: "isl (snapshotTail now ch) \<longleftrightarrow> \<not> tail_admissible now ch"
proof -
  have "(1 + j = length (stages ch) - 1) = (j + 2 = length (stages ch))" if "j < length (tl (stages ch))" for j
    using that by auto
  then have "stage_admissible now (1 + j = length (stages ch) - 1) (tl (stages ch) ! j) =
      stage_admissible now (j + 2 = length (stages ch)) (tl (stages ch) ! j)" if "j < length (tl (stages ch))" for j
    using that by simp
  then show ?thesis unfolding snapshotTail_def isl_mapE isl_stage tail_admissible_def by blast
qed

lemma isl_chain: "isl (prepareChain now c ch) \<longleftrightarrow> \<not> chain_admissible now ch"
proof (cases "stages ch")
  case (Cons st rest)
  show ?thesis
  proof (cases st)
    case (TaskStage a opts)
    show ?thesis
    proof (cases "plain now opts")
      case True
      then have "resolveChainOptions now opts = Inr (apply_options now opts)" using isl_resolve by simp
      then show ?thesis using Cons TaskStage True isl_tail [of now ch]
        by (auto simp: prepareChain_def chain_admissible_def isl_ebind located_def encodable_def split: sum.splits)
    next
      case False
      then show ?thesis using Cons TaskStage isl_resolve isl_tail [of now ch]
        by (auto simp: prepareChain_def chain_admissible_def isl_ebind)
    qed
  qed (use Cons in \<open>simp add: prepareChain_def chain_admissible_def\<close>)
qed (simp add: prepareChain_def chain_admissible_def)

lemma link_parts:
  assumes "snapshotChainLink now a opts isLast = Inr l"
  shows "L_Delay l = captureRelativeDelay now (apply_options now opts)" "L_NoArchive l = o_noArchive (apply_options now opts)"
  using assms by (auto simp: snapshotChainLink_def ebind_Inr resolveChainOptions_def Let_def split: if_splits)

lemma tail_links:
  assumes "snapshotTail now ch = Inr ls" "list_all (\<lambda>st. \<not> isGroup st) (tl (stages ch))"
  shows "map L_Delay ls = map (stage_delay now) (tl (stages ch))"
    "list_ex L_NoArchive ls \<longleftrightarrow> \<not> list_all (stage_keeps now) (tl (stages ch))"
proof -
  let ?ts = "tl (stages ch)"
  have len: "length ls = length ?ts" and st: "\<And>j. j < length ?ts \<Longrightarrow> snapshotStage now (length (stages ch)) (1 + j) (?ts ! j) = Inr (ls ! j)"
    using assms(1) by (auto simp: snapshotTail_def mapE_Inr)
  have l: "L_Delay (ls ! j) = stage_delay now (?ts ! j) \<and> L_NoArchive (ls ! j) = (\<not> stage_keeps now (?ts ! j))"
    if "j < length ?ts" for j
  proof (cases "?ts ! j")
    case (TaskStage a opts)
    then have "snapshotChainLink now a opts (1 + j = length (stages ch) - 1) = Inr (ls ! j)"
      using st [OF that] by (simp add: snapshotStage_def)
    from link_parts [OF this] TaskStage show ?thesis by simp
  next
    case (GroupStage g)
    then show ?thesis using assms(2) that by (auto simp: list_all_length)
  qed
  show "map L_Delay ls = map (stage_delay now) ?ts" using len l by (intro nth_equalityI) auto
  show "list_ex L_NoArchive ls \<longleftrightarrow> \<not> list_all (stage_keeps now) ?ts"
    using len l by (auto simp: list_ex_length list_all_length)
qed

lemma keeps_no_group: "list_all (stage_keeps now) sts \<Longrightarrow> list_all (\<lambda>st. \<not> isGroup st) sts"
  by (induction sts) (auto elim: stage_keeps.elims)

lemma isl_chain_member:
  "isl (prepareMember now g n cb i (ChainMember (Some ch))) \<longleftrightarrow> \<not> member_admissible now (ChainMember (Some ch))"
proof (cases "\<exists>a opts rest. stages ch = TaskStage a opts # rest \<and> list_all (\<lambda>st. \<not> isGroup st) rest")
  case True
  then obtain a opts rest where ch: "stages ch = TaskStage a opts # rest" "list_all (\<lambda>st. \<not> isGroup st) rest" by blast
  have ng: "\<not> hasGroupStage ch" using ch by (auto simp: hasGroupStage_def list_ex_iff list_all_iff)
  show ?thesis
  proof (cases "plain now opts \<and> tail_admissible now ch")
    case False
    then show ?thesis using ch ng isl_resolve(1) isl_tail [of now ch]
      by (auto simp: prepareMember_def snapshotForMember_def isl_ebind chain_admissible_def)
  next
    case t: True
    then have r: "resolveChainOptions now opts = Inr (apply_options now opts)" using isl_resolve by simp
    obtain ls where ls: "snapshotTail now ch = Inr ls" using t isl_tail [of now ch] by (cases "snapshotTail now ch") auto
    note tl = tail_links [OF ls]
    have fold: "fold (\<lambda>l acc. if 0 < L_Delay l then int64 (acc + int64 (L_Delay l * Second)) else acc) ls x =
        fold (\<lambda>d acc. if 0 < d then int64 (acc + int64 (d * Second)) else acc) (map L_Delay ls) x" for x
      by (induction ls arbitrary: x) auto
    have d: "chainMemberDelay now (apply_options now opts) ls = chain_delay now ch"
      using ch tl(1) fold by (simp add: chainMemberDelay_def chain_delay_def)
    have k: "list_ex L_NoArchive ls \<longleftrightarrow> \<not> list_all (stage_keeps now) rest" using tl(2) ch by simp
    show ?thesis
      using ch ng r ls t d k
      by (cases "encodeArgs a") (auto simp: prepareMember_def snapshotForMember_def located_def chain_admissible_def encodable_def firstLinkMessage_def)
  qed
next
  case False
  then have "\<not> list_all (stage_keeps now) (stages ch) \<or> stages ch = []"
    using keeps_no_group [of now "stages ch"] by (cases "stages ch"; cases "hd (stages ch)") auto
  moreover have "stages ch = [] \<or> hasGroupStage ch"
    using False by (cases "stages ch"; cases "hd (stages ch)") (auto simp: hasGroupStage_def list_ex_iff list_all_iff)
  ultimately show ?thesis
    by (auto simp: prepareMember_def snapshotForMember_def isl_ebind chain_admissible_def)
qed

lemma isl_member: "isl (prepareMember now g n cb i m) \<longleftrightarrow> \<not> member_admissible now m"
proof (cases "(now, m)" rule: member_admissible.cases)
  case (1 now' a opts)
  show ?thesis
  proof (cases "plain now opts")
    case True
    then have "resolveChainOptions now opts = Inr (apply_options now opts)" using isl_resolve by simp
    then show ?thesis using 1 True
      by (cases "encodeArgs a") (auto simp: prepareMember_def encodable_def split: option.splits)
  next
    case False
    then show ?thesis using 1 isl_resolve by (simp add: prepareMember_def isl_ebind)
  qed
next
  case (2 now')
  then show ?thesis by (simp add: prepareMember_def snapshotForMember_def)
next
  case (3 now' ch)
  then show ?thesis using isl_chain_member by simp
qed

lemma isl_group: "isl (prepareGroup now c g) \<longleftrightarrow> \<not> group_admissible now g"
  by (auto simp: prepareGroup_def group_admissible_def isl_ebind isl_link isl_mapE isl_member list_all_length
      split: option.split prod.split)

subsection \<open>Properties\<close>

text \<open>
  C19: workflows are validated as a whole.  A chain or group is accepted exactly when every part of it is admissible: a chain starts with a task, its later
  stages have relative delays and no identifiers or locks of their own and only the last may be discarded; a group has members and a callback,
  nothing in it is discarded and no member is delayed beyond the lifetime of the group.  Any other workflow is refused with an error before
  anything is stored.
\<close>

theorem workflow_admission:
  "(isl (prepareChain now c ch) \<longleftrightarrow> \<not> chain_admissible now ch) \<and> (isl (prepareGroup now c g) \<longleftrightarrow> \<not> group_admissible now g) \<and>
   (\<not> chain_admissible now ch \<longrightarrow> (\<exists>e. chainEnqueue R K now c ch w = (Inl e, w))) \<and>
   (\<not> group_admissible now g \<longrightarrow> (\<exists>e. groupEnqueue R K now c g w = (Inl e, w)))"
proof (intro conjI impI)
  assume "\<not> chain_admissible now ch"
  then obtain e where "prepareChain now c ch = Inl e" using isl_chain by (metis isl_def)
  then show "\<exists>e. chainEnqueue R K now c ch w = (Inl e, w)" by (simp add: chainEnqueue_def fail_def)
next
  assume "\<not> group_admissible now g"
  then obtain e where "prepareGroup now c g = Inl e" using isl_group by (metis isl_def)
  then show "\<exists>e. groupEnqueue R K now c g w = (Inl e, w)" by (simp add: groupEnqueue_def fail_def)
qed (rule isl_chain isl_group)+

theorem workflow_admission_witness:
  "\<exists>e. groupEnqueue mem_redis DefaultKeys 0 ''g'' NewGroup (at_rest open_queue) = (Inl e, at_rest open_queue)"
proof -
  have "\<not> group_admissible 0 NewGroup" by (simp add: group_admissible_def NewGroup_def)
  with workflow_admission [of 0 "''g''" NewChain NewGroup mem_redis DefaultKeys "at_rest open_queue"] show ?thesis by blast
qed

end
