(* ===== verification/Soak.thy ===== *)
theory Soak
  imports Admission Score Text
begin

section \<open>Soak test and benchmark statistics (benchmarks/soak, benchmarks/cmd/soak, benchmarks/bench)\<close>

text \<open>
  The load that the soak test generates, its handler, the verdict over the samples of a run and the
  latency percentiles of the benchmarks.  Floating-point operations round after each step.  The clock readings and the
  identifiers that \<^verbatim>\<open>uuid\<close> yields are arguments, numbered in the order in which they are used.
\<close>

subsection \<open>Workload\<close>

record soakArgs =
  Seq :: nat
  FailOnce :: bool
  Fail :: bool

text \<open>What \<^verbatim>\<open>json.Marshal\<close> makes of a struct of numbers and booleans.\<close>

definition jsonBool :: "bool \<Rightarrow> string" where
  "jsonBool b = (if b then ''true'' else ''false'')"

definition jsonStruct :: "(string \<times> string) list \<Rightarrow> bytes" where
  "jsonStruct fs =
     map of_char (''{'' @ join '','' (map (\<lambda>(f, v). CHR 0x22 # f @ [CHR 0x22] @ '':'' @ v) fs) @ ''}'')"

definition taskArgs :: "soakArgs \<Rightarrow> TaskArgs" where
  "taskArgs a = \<lparr>A_Kind = ''soak:task'', A_JSON = Some (jsonStruct
     [(''seq'', dec_nat (Seq a)), (''fail_once'', jsonBool (FailOnce a)), (''fail'', jsonBool (Fail a))])\<rparr>"

definition chainArgs :: "nat \<Rightarrow> nat \<Rightarrow> TaskArgs" where
  "chainArgs seq link = \<lparr>A_Kind = ''soak:chain'', A_JSON = Some (jsonStruct [(''seq'', dec_nat seq), (''link'', dec_nat link)])\<rparr>"

definition groupArgs :: "nat \<Rightarrow> nat \<Rightarrow> TaskArgs" where
  "groupArgs seq m = \<lparr>A_Kind = ''soak:group'', A_JSON = Some (jsonStruct [(''seq'', dec_nat seq), (''member'', dec_nat m)])\<rparr>"

definition cbArgs :: "nat \<Rightarrow> TaskArgs" where
  "cbArgs seq = \<lparr>A_Kind = ''soak:cb'', A_JSON = Some (jsonStruct [(''seq'', dec_nat seq)])\<rparr>"

definition uniqueArgs :: "nat \<Rightarrow> TaskArgs" where
  "uniqueArgs batch = \<lparr>A_Kind = ''soak:unique'', A_JSON = Some (jsonStruct [(''batch'', dec_nat batch)])\<rparr>"

datatype variant = varNormal | varNormalDelayed | varNormalRetained | varFailOnce | varDeadLetter | varDiscard

definition pickVariant :: "nat \<Rightarrow> variant" where
  "pickVariant seq =
     (let m = seq mod 100
      in if m < 10 then varFailOnce
         else if m < 15 then varDeadLetter
         else if m < 20 then varDiscard
         else if m < 30 then varNormalDelayed
         else if m < 46 then varNormalRetained
         else varNormal)"

definition pickQueue :: "nat \<Rightarrow> string" where
  "pickQueue seq = (if seq mod 4 < 3 then ''soak-a'' else ''soak-b'')"

definition soakTask :: "nat \<Rightarrow> soakArgs \<times> Option list" where
  "soakTask seq =
     (let args = \<lparr>Seq = seq, FailOnce = False, Fail = False\<rparr>; opts = [WithQueue (pickQueue seq)]
      in case pickVariant seq of
           varFailOnce \<Rightarrow> (args\<lparr>FailOnce := True\<rparr>, opts)
         | varDeadLetter \<Rightarrow> (args\<lparr>Fail := True\<rparr>, opts @ [WithMaxRetry 1])
         | varDiscard \<Rightarrow> (args\<lparr>Fail := True\<rparr>, opts @ [WithMaxRetry 0, WithDeadLetterDiscard])
         | varNormalDelayed \<Rightarrow> (args, opts @ [WithProcessIn (int (5 + seq mod 11) * Second)])
         | varNormalRetained \<Rightarrow> (args, opts @ [WithRetention (30 * Second)])
         | varNormal \<Rightarrow> (args, opts))"

record Workload =
  Rate :: int
  completed :: nat
  enqueued :: nat
  seenOnce :: "string set"

definition NewWorkload :: "int \<Rightarrow> Workload" where
  "NewWorkload rate = \<lparr>Rate = (if rate < 1 then 1 else rate), completed = 0, enqueued = 0, seenOnce = {}\<rparr>"

definition baseInterval :: "Workload \<Rightarrow> duration" where
  "baseInterval wl = quot Second (Rate wl)"

definition enqueueOne :: "redis \<Rightarrow> Keys \<Rightarrow> time \<Rightarrow> string \<Rightarrow> nat \<Rightarrow> Workload \<Rightarrow> world \<Rightarrow> Workload \<times> world" where
  "enqueueOne R K now uuid seq wl w =
     (case soakTask seq of (args, opts) \<Rightarrow>
      case clientEnqueue R K now uuid (taskArgs args) opts w of
        (Inl e, w') \<Rightarrow> (wl, w')
      | (Inr _, w') \<Rightarrow> (wl\<lparr>enqueued := enqueued wl + 1\<rparr>, w'))"

text \<open>The handler of the base load: \<open>i\<close> is the identifier of the task.\<close>

definition errSoakFail :: gerr where
  "errSoakFail = Err ''soak: deliberate failure'' []"

definition taskHandler_step :: "string \<Rightarrow> soakArgs \<Rightarrow> Workload \<Rightarrow> unit outcome \<times> Workload" where
  "taskHandler_step i a wl =
     (if Fail a then (Fails errSoakFail, wl)
      else if FailOnce a \<and> i \<notin> seenOnce wl then (Fails errSoakFail, wl\<lparr>seenOnce := insert i (seenOnce wl)\<rparr>)
      else let wl1 = (if FailOnce a then wl\<lparr>seenOnce := seenOnce wl - {i}\<rparr> else wl)
           in (Returns (), wl1\<lparr>completed := completed wl1 + 1\<rparr>))"

text \<open>The workflows that a tick of \<^verbatim>\<open>tickers\<close> enqueues.\<close>

definition tickChain :: "nat \<Rightarrow> Chain" where
  "tickChain batch =
     Then (ThenGroup (Then NewChain (chainArgs batch 0) [WithQueue ''soak-a''])
       (Some (OnComplete (Add (Add NewGroup (groupArgs batch 0) [WithQueue ''soak-a'']) (groupArgs batch 1) [WithQueue ''soak-b''])
          (cbArgs batch) [WithQueue ''soak-a''])))
       (chainArgs batch 2) [WithQueue ''soak-a'']"

definition tickGroup :: "nat \<Rightarrow> Group" where
  "tickGroup batch =
     OnComplete (Add (Add (Add NewGroup (groupArgs batch 0) [WithQueue ''soak-a'']) (groupArgs batch 1) [WithQueue ''soak-b''])
       (groupArgs batch 2) [WithQueue ''soak-a'']) (cbArgs batch) [WithQueue ''soak-a'']"

definition tickMemberChains :: "nat \<Rightarrow> Group" where
  "tickMemberChains batch =
     (let ch = Then (Then NewChain (chainArgs batch 0) [WithQueue ''soak-a'']) (chainArgs batch 1) [WithQueue ''soak-b'']
      in OnComplete (fold (\<lambda>k g. AddChain g (Some ch)) [0..<2::nat] NewGroup) (cbArgs batch) [WithQueue ''soak-a''])"

definition tickUnique :: "redis \<Rightarrow> Keys \<Rightarrow> (nat \<Rightarrow> time) \<Rightarrow> (nat \<Rightarrow> string) \<Rightarrow> nat \<Rightarrow> world \<Rightarrow> world" where
  "tickUnique R K now uuid batch w =
     fold (\<lambda>i w. snd (clientEnqueue R K (now i) (uuid i) (uniqueArgs batch) [WithQueue ''soak-a'', WithUnique (30 * Second)] w)) [0..<5] w"

definition tick :: "redis \<Rightarrow> Keys \<Rightarrow> (nat \<Rightarrow> time) \<Rightarrow> (nat \<Rightarrow> string) \<Rightarrow> nat \<Rightarrow> world \<Rightarrow> world" where
  "tick R K now uuid batch w =
     (let w1 = tickUnique R K now uuid batch w;
          w2 = snd (chainEnqueue R K (now 5) (uuid 5) (tickChain batch) w1);
          w3 = snd (groupEnqueue R K (now 6) (uuid 6) (tickGroup batch) w2)
      in snd (groupEnqueue R K (now 7) (uuid 7) (tickMemberChains batch) w3))"

subsection \<open>Verdict\<close>

record Sample =
  ElapsedSec :: rat
  HeapBytes :: nat
  Goroutines :: int
  DBSize :: int
  SM_Throughput :: rat
  SM_Stream :: int
  SM_Retry :: int
  SM_Scheduled :: int
  SM_Archived :: int
  SM_Completed :: int
  SM_Unique :: int
  SM_Groups :: int
  SM_Schedules :: int

record Check =
  C_Name :: string
  First :: rat
  Second_half :: rat
  Rule :: string
  Pass :: bool

definition warmupFrac :: rat where "warmupFrac = float64 (1 / 10)"
definition heapSlackBytes :: rat where "heapSlackBytes = 33554432"
definition dbSlackKeys :: rat where "dbSlackKeys = 50"

definition splitWindows :: "rat list \<Rightarrow> rat \<Rightarrow> rat list \<times> rat list" where
  "splitWindows xs warmup =
     (let s = nat \<lfloor>float64 (float64 (of_nat (length xs)) * warmup)\<rfloor>;
          skip = (if s = 0 \<and> 0 < length xs then 1 else s);
          rest = drop skip xs;
          half = length rest div 2
      in (take half rest, drop (length rest - half) rest))"

definition mean :: "rat list \<Rightarrow> rat" where
  "mean xs = (if xs = [] then 0 else float64 (foldl (\<lambda>s x. float64 (s + x)) 0 xs / float64 (of_nat (length xs))))"

definition Evaluate :: "Sample list \<Rightarrow> Check list \<times> bool" where
  "Evaluate samples =
     (let heap = map (\<lambda>s. float64 (of_nat (HeapBytes s))) samples;
          gor = map (\<lambda>s. float64 (of_int (Goroutines s))) samples;
          db' = map (\<lambda>s. float64 (of_int (DBSize s))) samples;
          (h1, h2) = splitWindows heap warmupFrac
      in if length h1 < 2 \<or> length h2 < 2 then ([], False)
         else let (g1, g2) = splitWindows gor warmupFrac;
                  (d1, d2) = splitWindows db' warmupFrac;
                  hf = mean h1; hs = mean h2; gf = mean g1; gs = mean g2; df = mean d1; ds = mean d2
              in ([\<lparr>C_Name = ''heap'', First = hf, Second_half = hs, Rule = ''second <= first x1.2 + 32MB'',
                     Pass = (hs \<le> float64 (float64 (hf * float64 (12 / 10)) + heapSlackBytes))\<rparr>,
                   \<lparr>C_Name = ''goroutines'', First = gf, Second_half = gs, Rule = ''second - first <= 10'',
                     Pass = (float64 (gs - gf) \<le> 10)\<rparr>,
                   \<lparr>C_Name = ''dbsize'', First = df, Second_half = ds, Rule = ''second <= first x1.1 + 50'',
                     Pass = (ds \<le> float64 (float64 (df * float64 (11 / 10)) + dbSlackKeys))\<rparr>], True))"

definition sampleEvery :: duration where "sampleEvery = 30 * Second"
definition minReliable :: duration where "minReliable = 30 * Minute"

text \<open>Whether the run ends with \<^verbatim>\<open>leak check failed\<close>.\<close>

definition coverageFailed :: "duration \<Rightarrow> Sample list \<Rightarrow> bool" where
  "coverageFailed elapsed samples \<longleftrightarrow>
     minReliable \<le> elapsed \<and> int (length samples) < quot (quot elapsed sampleEvery * 8) 10"

definition leakCheckFailed :: "duration \<Rightarrow> Sample list \<Rightarrow> bool \<Rightarrow> bool" where
  "leakCheckFailed elapsed samples shutdownFailed =
     (case Evaluate samples of (checks, usable) \<Rightarrow>
        if \<not> usable then coverageFailed elapsed samples
        else if elapsed < minReliable then False
        else list_ex (\<lambda>c. \<not> Pass c) checks \<or> shutdownFailed \<or> coverageFailed elapsed samples)"

subsection \<open>Percentiles\<close>

definition rank :: "duration list \<Rightarrow> rat \<Rightarrow> duration" where
  "rank xs p =
     (let idx = \<lfloor>float64 (float64 (p * float64 (of_nat (length xs))) + 1 / 2)\<rfloor> - 1;
          idx = (if idx < 0 then 0 else idx);
          idx = (if int (length xs) \<le> idx then int (length xs) - 1 else idx)
      in xs ! nat idx)"

definition Percentiles :: "duration list \<Rightarrow> duration \<times> duration \<times> duration \<times> duration" where
  "Percentiles latencies =
     (if latencies = [] then (0, 0, 0, 0)
      else let xs = sort latencies
           in (rank xs (1 / 2), rank xs (float64 (95 / 100)), rank xs (float64 (99 / 100)), xs ! (length xs - 1)))"

subsection \<open>The load\<close>

text \<open>Over any hundred consecutive tasks each variant has its share, and over any four each queue has.\<close>

lemma count_period:
  assumes "\<And>i. P (i + n) = P i"
  shows "length (filter P [k..<k + n]) = length (filter P [0..<n])"
proof (induction k)
  case (Suc k)
  have "length (filter P [k..<Suc k + n]) = length (filter P [k..<k + n]) + (if P (k + n) then 1 else 0)" by simp
  moreover have "length (filter P [k..<Suc k + n]) = length (filter P [Suc k..<Suc k + n]) + (if P k then 1 else 0)"
    by (subst upt_conv_Cons) simp_all
  ultimately show ?case using Suc assms [of k] by (simp split: if_splits)
qed simp

lemma pickVariant_mix:
  "length (filter (\<lambda>s. pickVariant s = v) [k..<k + 100]) =
     (case v of varFailOnce \<Rightarrow> 10 | varDeadLetter \<Rightarrow> 5 | varDiscard \<Rightarrow> 5 | varNormalDelayed \<Rightarrow> 10 | varNormalRetained \<Rightarrow> 16
      | varNormal \<Rightarrow> 54)"
proof -
  have "length (filter (\<lambda>s. pickVariant s = v) [k..<k + 100]) = length (filter (\<lambda>s. pickVariant s = v) [0..<100])"
    by (rule count_period) (simp add: pickVariant_def)
  also have "\<dots> = (case v of varFailOnce \<Rightarrow> 10 | varDeadLetter \<Rightarrow> 5 | varDiscard \<Rightarrow> 5 | varNormalDelayed \<Rightarrow> 10
      | varNormalRetained \<Rightarrow> 16 | varNormal \<Rightarrow> 54)"
    by (cases v; simp; code_simp)
  finally show ?thesis .
qed

lemma pickQueue_share: "length (filter (\<lambda>s. pickQueue s = ''soak-a'') [k..<k + 4]) = 3"
proof -
  have "length (filter (\<lambda>s. pickQueue s = ''soak-a'') [k..<k + 4]) = length (filter (\<lambda>s. pickQueue s = ''soak-a'') [0..<4])"
    by (rule count_period) (simp add: pickQueue_def)
  also have "\<dots> = 3" by (simp add: pickQueue_def upt_rec)
  finally show ?thesis .
qed

text \<open>A task that is to fail once fails at its first attempt, succeeds at the second and leaves nothing behind.\<close>

lemma fail_once:
  assumes "FailOnce a" "\<not> Fail a" "i \<notin> seenOnce wl" "taskHandler_step i a wl = (r, wl1)"
  shows "r = Fails errSoakFail \<and> taskHandler_step i a wl1 = (Returns (), wl\<lparr>completed := completed wl + 1\<rparr>)"
  using assms by (auto simp: taskHandler_step_def)

text \<open>The ticker of the base load has a positive period, as \<^verbatim>\<open>time.NewTicker\<close> requires, up to the rate of a task per nanosecond.\<close>

lemma baseInterval_pos: "rate \<le> Second \<Longrightarrow> 0 < baseInterval (NewWorkload rate)"
  by (auto simp: baseInterval_def NewWorkload_def quot_nonneg Second_def pos_imp_zdiv_pos_iff)

text \<open>Every workflow of a tick is admissible, so none is refused before it is stored.\<close>

lemma tick_admissible:
  "chain_admissible now (tickChain batch)" "group_admissible now (tickGroup batch)" "group_admissible now (tickMemberChains batch)"
proof -
  have opts: "plain now [WithQueue q]" "apply_options now [WithQueue q] = defaultOptions\<lparr>o_queue := q\<rparr>" for q
    by (simp_all add: plain_def apply_options_def defaultOptions_def)
  have args: "encodable (chainArgs b l)" "encodable (groupArgs b l)" "encodable (cbArgs b)" for b l
    by (simp_all add: encodable_def encodeArgs_def chainArgs_def groupArgs_def cbArgs_def)
  have link: "link_admissible now a [WithQueue q] l" if "encodable a" for a q l
    using opts that by (simp add: link_admissible_def defaultOptions_def)
  have delay: "captureRelativeDelay now (defaultOptions\<lparr>o_queue := q\<rparr>) = 0" for q
    by (simp add: captureRelativeDelay_def defaultOptions_def)
  note delay = delay delay [unfolded defaultOptions_def, simplified]
  have ttl: "0 \<le> GroupTTL_secs" "0 \<le> GroupTTL" by (simp_all add: GroupTTL_secs_def GroupTTL_def duration_defs quot_nonneg)
  show "chain_admissible now (tickChain batch)"
    by (auto simp: chain_admissible_def tail_admissible_def tickChain_def NewChain_def NewGroup_def opts args link delay ttl
        defaultOptions_def nth_Cons less_Suc_eq split: nat.splits)
  show "group_admissible now (tickGroup batch)"
    by (simp add: group_admissible_def tickGroup_def NewGroup_def opts args link defaultOptions_def)
  show "group_admissible now (tickMemberChains batch)"
    by (simp add: group_admissible_def tickMemberChains_def NewGroup_def NewChain_def opts args link chain_admissible_def
        tail_admissible_def chain_delay_def delay ttl defaultOptions_def Let_def upt_rec)
qed

subsection \<open>Windows and means\<close>

lemma warmupFrac_eq: "warmupFrac = 7205759403792794 / 2 ^ 56"
proof -
  have "float64 (1 / 10) = of_int 7205759403792794 * 2 powi (- 56)"
    by (rule float64_eqI) (simp_all add: power_int_minus field_simps)
  then show ?thesis by (simp add: warmupFrac_def power_int_minus field_simps)
qed

lemma warmup_skip:
  assumes "0 < n" "n < 2 ^ 40"
  shows "nat \<lfloor>float64 (float64 (of_nat n) * warmupFrac)\<rfloor> = n div 10"
proof -
  let ?x = "of_nat n * warmupFrac"
  have f: "float64 (of_nat n) = of_nat n" using float64_int [of "int n"] assms(2) by simp
  have n: "(of_nat n :: rat) = 10 * of_nat (n div 10) + of_nat (n mod 10)"
    by (metis mult_div_mod_eq of_nat_add of_nat_mult of_nat_numeral)
  have small: "(of_nat n :: rat) < 2 ^ 40" "(1 :: rat) \<le> of_nat n"
    using assms(2,1) by (metis of_nat_less_iff of_nat_numeral of_nat_power, simp)
  have m: "(of_nat (n mod 10) :: rat) \<le> of_nat 9" by (rule of_nat_mono) simp
  have lo: "of_nat n / 10 \<le> ?x" and hi: "?x \<le> of_nat n / 10 + 1 / 100"
    using small by (simp_all add: warmupFrac_eq field_simps)
  have "1 / 10 \<le> ?x" "?x < 2 ^ 40" using lo hi small by linarith+
  then have b: "1 / 2 ^ 64 \<le> ?x" "?x < 2 ^ 40" by simp_all
  have q: "of_nat (n div 10) \<le> ?x" using n lo of_nat_0_le_iff [of "n mod 10", where ?'a = rat] by linarith
  have "of_nat (n div 10) \<le> float64 ?x"
  proof -
    have "of_nat (n div 10) = (0 :: rat) \<or> 1 / 2 ^ 64 \<le> (of_nat (n div 10) :: rat)" by (cases "n div 10") simp_all
    from float64_mono [OF this q] show ?thesis using assms(2) float64_int [of "int (n div 10)"] by simp
  qed
  moreover have "float64 ?x < of_nat (n div 10) + 1"
  proof -
    have "\<bar>float64 ?x - ?x\<bar> \<le> 1 / 100" using float64_error [OF b] by (rule order_trans) simp
    then show ?thesis using hi n m by linarith
  qed
  ultimately have "\<lfloor>float64 ?x\<rfloor> = int (n div 10)" by (intro floor_unique) simp_all
  then show ?thesis by (simp add: f)
qed

text \<open>
  The windows are the two halves of what the warm-up leaves: equally long, in the order of the run and with at most one sample
  between them.
\<close>

lemma splitWindows_split:
  assumes "xs \<noteq> []" "length xs < 2 ^ 40" "splitWindows xs warmupFrac = (first, second)" "skip = max 1 (length xs div 10)"
  shows "\<exists>mid. xs = take skip xs @ first @ mid @ second \<and> length mid = (length xs - skip) mod 2 \<and>
    length first = (length xs - skip) div 2 \<and> length second = (length xs - skip) div 2"
proof -
  let ?rest = "drop skip xs" and ?half = "(length xs - skip) div 2"
  have "nat \<lfloor>float64 (float64 (of_nat (length xs)) * warmupFrac)\<rfloor> = length xs div 10"
    using warmup_skip [of "length xs"] assms(1,2) by simp
  then have w: "first = take ?half ?rest" "second = drop (length xs - skip - ?half) ?rest"
    using assms(1,3,4) by (auto simp: splitWindows_def Let_def max_def split: if_splits)
  let ?mid = "drop ?half (take (length xs - skip - ?half) ?rest)"
  have le: "?half \<le> length xs - skip - ?half" by linarith
  have "?rest = take (length xs - skip - ?half) ?rest @ second" by (metis append_take_drop_id w(2))
  moreover have "take (length xs - skip - ?half) ?rest = first @ ?mid"
    using append_take_drop_id [of ?half "take (length xs - skip - ?half) ?rest"] le by (simp add: w(1) min_def)
  ultimately have eq: "xs = take skip xs @ first @ ?mid @ second" by (metis append_assoc append_take_drop_id)
  have "l - l div 2 - l div 2 = l mod 2" "l - (l - l div 2) = l div 2" for l :: nat by presburger+
  then have "length ?mid = (length xs - skip) mod 2" "length first = ?half" "length second = ?half"
    by (simp_all only: w length_drop length_take min.absorb2 [OF diff_le_self] min.absorb2 [OF div_le_dividend])
  with eq show ?thesis by blast
qed

lemma splitWindows_lengths:
  assumes "xs \<noteq> []" "length xs < 2 ^ 40"
  shows "length (fst (splitWindows xs warmupFrac)) = (length xs - max 1 (length xs div 10)) div 2"
    "length (snd (splitWindows xs warmupFrac)) = (length xs - max 1 (length xs div 10)) div 2"
  using splitWindows_split [OF assms _ refl] by (metis prod.collapse)+

lemma Evaluate_usable:
  assumes "length samples < 2 ^ 40"
  shows "snd (Evaluate samples) \<longleftrightarrow> 5 \<le> length samples"
proof (cases "samples = []")
  case True
  then show ?thesis by (simp add: Evaluate_def splitWindows_def)
next
  case False
  let ?h = "map (\<lambda>s. float64 (of_nat (HeapBytes s))) samples"
  have h: "length (fst (splitWindows ?h warmupFrac)) = (length samples - max 1 (length samples div 10)) div 2"
    "length (snd (splitWindows ?h warmupFrac)) = (length samples - max 1 (length samples div 10)) div 2"
    using splitWindows_lengths [of ?h] False assms by simp_all
  have "snd (Evaluate samples) \<longleftrightarrow> 2 \<le> (length samples - max 1 (length samples div 10)) div 2"
    using h by (auto simp: Evaluate_def Let_def split: prod.splits)
  also have "\<dots> \<longleftrightarrow> 5 \<le> length samples" by (simp add: max_def) linarith
  finally show ?thesis .
qed

text \<open>
  A run of less than half an hour is informational.  A longer one fails exactly when a check fails, the shutdown hangs or too
  few samples were taken: that the samples can be too few to be judged hides nothing.
\<close>

lemma leakCheck_verdict:
  assumes "length samples < 2 ^ 40"
  shows "leakCheckFailed elapsed samples shutdownFailed \<longleftrightarrow>
    minReliable \<le> elapsed \<and>
      (list_ex (\<lambda>c. \<not> Pass c) (fst (Evaluate samples)) \<or> shutdownFailed \<or> coverageFailed elapsed samples)"
proof (cases "minReliable \<le> elapsed \<and> \<not> snd (Evaluate samples)")
  case True
  then have "length samples < 5" using Evaluate_usable [OF assms] by simp
  moreover have "60 \<le> elapsed div sampleEvery" "0 \<le> elapsed"
    using True zdiv_mono1 [of minReliable elapsed sampleEvery] by (simp_all add: minReliable_def sampleEvery_def duration_defs)
  ultimately have "coverageFailed elapsed samples"
    using True by (simp add: coverageFailed_def quot_nonneg sampleEvery_def Second_def)
  with True show ?thesis by (auto simp: leakCheckFailed_def split: prod.splits)
next
  case False
  then show ?thesis by (auto simp: leakCheckFailed_def coverageFailed_def split: prod.splits)
qed

subsection \<open>Percentiles in order\<close>

lemma rank_clamp:
  assumes "xs \<noteq> []"
  shows "rank xs p = xs ! nat (max 0 (min (int (length xs) - 1) (\<lfloor>float64 (float64 (p * float64 (of_nat (length xs))) + 1 / 2)\<rfloor> - 1)))"
proof -
  have clamp: "(let i = f - 1; i = (if i < 0 then 0 else i) in if n \<le> i then n - 1 else i) = max 0 (min (n - 1) (f - 1))"
    if "0 < n" for f n :: int
    using that by (auto simp: Let_def)
  have "0 < int (length xs)" using assms by simp
  from clamp [OF this] show ?thesis by (simp only: rank_def Let_def)
qed

lemma rank_mono:
  assumes "sorted xs" "xs \<noteq> []" "1 / 2 \<le> p" "p \<le> p'"
  shows "rank xs p \<le> rank xs p'"
proof -
  let ?n = "float64 (of_nat (length xs))"
  have "float64 (of_int 1) \<le> ?n" using assms(2) by (intro float64_mono) (cases xs; simp)+
  then have n: "1 \<le> ?n" using float64_int [of 1] by simp
  then have le: "1 / 2 \<le> p * ?n" "p * ?n \<le> p' * ?n"
    using assms(3,4) mult_mono [of "1 / 2" p 1 ?n] by (simp_all add: mult_right_mono)
  have f: "0 \<le> float64 (p * ?n)" "float64 (p * ?n) \<le> float64 (p' * ?n)"
    using float64_mono [of 0 "p * ?n"] float64_mono [of "p * ?n" "p' * ?n"] le by (simp_all add: float64_def [of 0])
  have "float64 (float64 (p * ?n) + 1 / 2) \<le> float64 (float64 (p' * ?n) + 1 / 2)"
    using f by (intro float64_mono) simp_all
  then have "\<lfloor>float64 (float64 (p * ?n) + 1 / 2)\<rfloor> \<le> \<lfloor>float64 (float64 (p' * ?n) + 1 / 2)\<rfloor>" by (rule floor_mono)
  moreover have "0 < length xs" using assms(2) by simp
  ultimately show ?thesis unfolding rank_clamp [OF assms(2)] using assms(1) by (intro sorted_nth_mono) linarith+
qed

lemma rank_in: "xs \<noteq> [] \<Longrightarrow> rank xs p \<in> set xs"
proof -
  assume ne: "xs \<noteq> []"
  then have "0 < length xs" by simp
  then show ?thesis unfolding rank_clamp [OF ne] by (intro nth_mem) linarith
qed

lemma Percentiles_ordered:
  assumes "latencies \<noteq> []" "Percentiles latencies = (p50, p95, p99, mx)"
  shows "p50 \<le> p95 \<and> p95 \<le> p99 \<and> p99 \<le> mx \<and> mx = Max (set latencies) \<and> {p50, p95, p99} \<subseteq> set latencies"
proof -
  let ?xs = "sort latencies"
  have ne: "?xs \<noteq> []" using assms(1) by (metis length_0_conv length_sort)
  have mx: "mx = last ?xs" using assms ne by (simp add: Percentiles_def Let_def last_conv_nth)
  have top: "x \<le> mx" if x: "x \<in> set latencies" for x
  proof -
    obtain i where "i < length ?xs" "?xs ! i = x" using x by (metis in_set_conv_nth set_sort)
    then show ?thesis using sorted_nth_mono [of ?xs i "length ?xs - 1"] ne by (simp add: mx last_conv_nth)
  qed
  have "float64 (1 / 2) \<le> float64 (95 / 100)" by (rule float64_mono) simp_all
  moreover have "float64 (1 / 2) = of_int 4503599627370496 * 2 powi (- 53)"
    by (rule float64_eqI) (simp_all add: power_int_minus field_simps)
  ultimately have p: "1 / 2 \<le> float64 (95 / 100)" by (simp add: power_int_minus)
  have p': "float64 (95 / 100) \<le> float64 (99 / 100)" by (rule float64_mono) simp_all
  have r: "p50 = rank ?xs (1 / 2)" "p95 = rank ?xs (float64 (95 / 100))" "p99 = rank ?xs (float64 (99 / 100))"
    using assms by (simp_all add: Percentiles_def Let_def)
  have "mx \<in> set latencies" using mx ne last_in_set [OF ne] by simp
  moreover have i: "{p50, p95, p99} \<subseteq> set latencies" using rank_in [OF ne] r by auto
  ultimately show ?thesis
    using r p p' ne top rank_mono [of ?xs "1 / 2" "float64 (95 / 100)"] rank_mono [of ?xs "float64 (95 / 100)" "float64 (99 / 100)"]
    by (auto intro: Max_eqI [symmetric])
qed

end
