(* ===== verification/Spec2Isabelle.thy ===== *)
theory Spec2Isabelle
  imports System Fanin Maintenance Monitoring Console Cli Adapter Soak Misfire Backoff
begin

section \<open>A verification of chronos-go\<close>

text \<open>
  chronos-go is a distributed task queue and scheduler that keeps all its state in Redis.  Clients store
  tasks; servers fetch, run, retry and archive them; a leader among the schedulers fires periodic tasks; chains
  and groups compose tasks; an inspector, a command line tool and a web console look at the state and act on it.

  \<^bold>\<open>How the parts interact.\<close>  Every task has a body, a hash with the encoded message, and is
  referenced either by an entry of the stream of its queue or by a member of one of four sorted sets (scheduled, retry,
  archived, completed).  \<^verbatim>\<open>Enqueue\<close> writes body and entry; \<^verbatim>\<open>DequeueBatch\<close> hands entries to a server, where they stay pending
  until \<^verbatim>\<open>Done\<close>, \<^verbatim>\<open>Retry\<close> or \<^verbatim>\<open>Archive\<close> settles them; \<^verbatim>\<open>ForwardRetry\<close> and \<^verbatim>\<open>ForwardScheduled\<close> move due members back to the stream;
  \<^verbatim>\<open>Recover\<close> takes over entries whose server stopped renewing them; the janitor trims the archived and completed sets.
  All of it happens in Lua scripts and transactions, which Redis runs one at a time.

  \<^bold>\<open>Redis is a parameter.\<close>  The commands that the sources use are the fields of the record \<^verbatim>\<open>redis\<close>
  (theory \<^verbatim>\<open>Redis\<close>), with what the program relies on as the locale \<^verbatim>\<open>redis_laws\<close>.  Every operation takes such a record;
  the properties hold for each one that satisfies the laws.  \<^verbatim>\<open>mem_redis\<close> is an executable instance, for which the laws are
  proved (interpretation \<^verbatim>\<open>mem\<close>) and on which the witnesses are evaluated.  A script is a value of type \<^verbatim>\<open>cmd\<close> and
  runs atomically; a Go operation is a value of type \<^verbatim>\<open>go\<close>, a function on a \<^verbatim>\<open>world\<close> that holds the keyspace, the trace of
  steps and the events still to come.  An event lets time pass, other processes write, a request fail before or after it
  took effect, or a request be sent twice.  A world without events is \<^verbatim>\<open>calm\<close>; the functional properties are
  stated for calm worlds, the system properties for all of them.

  \<^bold>\<open>The theories.\<close>
  \<^item> \<^verbatim>\<open>Prelude\<close>: times and durations as unbounded integers with the 64-bit wrap-around (\<^verbatim>\<open>int64\<close>) and Go's division
    (\<^verbatim>\<open>quot\<close>) written out, decimal numerals, list lemmas.
  \<^item> \<^verbatim>\<open>Keys\<close>, \<^verbatim>\<open>Task\<close>, \<^verbatim>\<open>Base64\<close>, \<^verbatim>\<open>Sha256\<close>: package \<^verbatim>\<open>internal/base\<close>.  Key builders and the validation of prefixes,
    messages and their JSON documents, base64 and the hash of the unique key.  \<^verbatim>\<open>Keys\<close> shows that keys are injective, that the keys of a
    queue share a cluster slot and that namespaces are disjoint.
  \<^item> \<^verbatim>\<open>Redis\<close>, \<^verbatim>\<open>Store\<close>: the parameter, its laws and the instance; the typed key layout and the simulation of round trips.
  \<^item> \<^verbatim>\<open>Rdb_Core\<close>, \<^verbatim>\<open>Rdb_Dedup\<close>, \<^verbatim>\<open>Rdb_Group\<close>, \<^verbatim>\<open>Rdb_Admin\<close>: package \<^verbatim>\<open>internal/rdb\<close>, one definition for each script and
    each operation, in the order of the files.  \<^verbatim>\<open>Score\<close> computes the scores of the scheduled set as IEEE doubles.
  \<^item> \<^verbatim>\<open>Client\<close>, \<^verbatim>\<open>Workflow\<close>, \<^verbatim>\<open>Handler\<close>, \<^verbatim>\<open>Server\<close>, \<^verbatim>\<open>Scheduler\<close>, \<^verbatim>\<open>Inspector\<close>, \<^verbatim>\<open>Misfire\<close>, \<^verbatim>\<open>Backoff\<close>, \<^verbatim>\<open>Wrr\<close>: the root
    package.  A loop of a goroutine is modelled by one iteration of it (\<^verbatim>\<open>fetchRound\<close>, \<^verbatim>\<open>forwarderTick\<close>, ...) and, where
    the order of iterations matters, by its run over a list of inputs (\<^verbatim>\<open>fetchLoop\<close>, \<^verbatim>\<open>run\<close>).
  \<^item> \<^verbatim>\<open>Admission\<close>: which chains and groups are accepted, as declarative conditions, equivalent to the validation of the builders.
  \<^item> \<^verbatim>\<open>Rely\<close>, \<^verbatim>\<open>Safety\<close>, \<^verbatim>\<open>Safe_Core\<close>, \<^verbatim>\<open>Safe_Dedup\<close>, \<^verbatim>\<open>Safe_Group\<close>, \<^verbatim>\<open>Safe_Admin\<close>, \<^verbatim>\<open>Safe_Server\<close>, \<^verbatim>\<open>Safe_Client\<close>,
    \<^verbatim>\<open>System\<close>: the safety of the whole system.  The locale \<^verbatim>\<open>rely\<close> is a rely-guarantee logic for operations that others interrupt
    between any two of their steps; \<^verbatim>\<open>Safety\<close> interprets it with the invariant \<^verbatim>\<open>intact\<close> (types, decodable bodies, every stored
    task referenced) and the guarantee \<^verbatim>\<open>safe\<close>; the \<^verbatim>\<open>Safe\<close> theories prove it for every operation; \<^verbatim>\<open>System\<close> composes arbitrarily many agents.
  \<^item> \<^verbatim>\<open>Delivery\<close>, \<^verbatim>\<open>Processing\<close>, \<^verbatim>\<open>Maintenance\<close>, \<^verbatim>\<open>Inspection\<close>: what the operations do on an intact state, end to end.
  \<^item> \<^verbatim>\<open>Locks\<close>: leadership, unique locks and trigger claims; the locale \<^verbatim>\<open>lease_lock\<close> is the abstract lease, of which the
    leader lock is an instance.  \<^verbatim>\<open>Fanin\<close>: the completion of groups.
  \<^item> \<^verbatim>\<open>Monitoring\<close>: \<^verbatim>\<open>contrib/prometheus\<close>, over a parameter for the client library (record \<^verbatim>\<open>prom\<close>, locale \<^verbatim>\<open>prom_laws\<close>, instance \<^verbatim>\<open>mem_prom\<close>).
  \<^item> \<^verbatim>\<open>Console\<close>: \<^verbatim>\<open>contrib/webui\<close>; the locale \<^verbatim>\<open>sample_window\<close> is the contract of the sparkline ring.  \<^verbatim>\<open>Cli\<close>: \<^verbatim>\<open>cmd/chronos\<close> and the start of
    the console command.  \<^verbatim>\<open>Adapter\<close>: \<^verbatim>\<open>examples/jobscheduler\<close>.  \<^verbatim>\<open>Soak\<close>: load and verdict of \<^verbatim>\<open>benchmarks/soak\<close>, percentiles of \<^verbatim>\<open>benchmarks/bench\<close>.
    \<^verbatim>\<open>Text\<close> holds the functions of packages strings, net/url and utf8 that these use.

  \<^bold>\<open>What is proved.\<close>
  \<^item> Safety of the system (C1, C2): in every state of every interleaving of clients, servers, schedulers and inspectors, with lost
    and repeated requests, no stored task is unreferenced and every stored body decodes.
  \<^item> Delivery and processing (C3 to C5, C11 to C18): enqueue and fetch, forwarding, the outcome of a processed task on every branch, the retry budget,
    chain successors, recovery, trimming, promotion and deletion.
  \<^item> Locks and groups (C6 to C10, C29): the group callback is created once with all results; the leader lock refines a lease
    and is exclusive; unique tasks and triggers are not enqueued twice; renewal never shortens a lock.
  \<^item> Errors and front ends (C19 to C28): admission of workflows, listings, bulk deletion, refusals, cross-origin posts, sparklines, the commands of the tool and
    the exactness of the exported metrics.
  \<^item> Components (C30 to C40): the round-robin picker against its reference, key layout, scores, misfire policy and backoff.

  \<^bold>\<open>Bounds, fuel and termination.\<close>  No definition uses fuel.  Loops over lists and batches are structural; the loop of
    the bulk action has a termination proof, since each pass that continues handles a task and the total is limited by 10000; \<^verbatim>\<open>scan_latest\<close> is bounded by \<^verbatim>\<open>maxScan\<close> as in the
    source.  Loops of goroutines run over a given list of inputs.  Numbers have the width of the source where a bound
    matters: 64-bit wrap-around of durations and counters, 53-bit mantissa of scores and metrics, 32-bit words of SHA-256 and FNV.

  \<^bold>\<open>Limits of the model.\<close>
  \<^item> A pipeline is one step for other processes, although only a transaction is atomic in Redis.  The pipelines outside a
    transaction read bodies, set the state field of bodies and renew locks; none of their commands depends on the reply of another.
  \<^item> In \<^verbatim>\<open>System\<close> an inspector reads one queue at a time (\<^verbatim>\<open>queueStats\<close>); the listing of all queues, which is a sequence of such reads, is covered by \<^verbatim>\<open>Inspection\<close> for calm worlds.
  \<^item> The generated identifiers, clock readings, random numbers and the user's handlers are arguments.  The activations of a cron specification are a
    function; that it yields later times is a hypothesis where it is used.
  \<^item> JSON is modelled as documents, not as text, with \<^verbatim>\<open>cjson\<close> as part of the Redis parameter.  Log messages are left out.
  \<^item> A redirect of the console is the argument of \<^verbatim>\<open>http.Redirect\<close>, a table of the tool is the rows given to the table writer, and a path is the
    list of its segments.

  \<^bold>\<open>Not modelled.\<close>  The scheduling of goroutines and the waiting in \<^verbatim>\<open>Shutdown\<close>; the subscription to the resign channel, which
  appears as a wake-up; the scan over the masters of a cluster; flag parsing; the HTML templates and static files; the sampler and the scenarios of
  the benchmarks, which time a live Redis; the tour example and the load generator, which only call the public
  operations; test support and the package comment.
\<close>

end
